(* ===== verification/Prelude.thy ===== *)
theory Prelude
  imports Main "HOL-Library.Word"
begin

text \<open>
  Shared vocabulary of the development: the Go integer and byte types as words, panics and
  errors as values, the big-endian codecs of \<open>encoding/binary\<close>, the outcome of Go's slice
  expressions, the lexicographic comparison of byte arrays, and the list and word lemmas that
  the component theories use through the simpset and through the collections
  \<open>codec_simps\<close>, \<open>router_simps\<close> and \<open>queue_simps\<close>.
\<close>

unbundle bit_operations_syntax

named_theorems codec_simps "equations that evaluate encoders, decoders and sizes"
named_theorems router_simps "unfolding rules of the router operations"
named_theorems queue_simps "unfolding rules of the packet queue operations"

type_synonym byte = "8 word"
type_synonym bytes = "byte list"
type_synonym u16 = "16 word"
type_synonym u32 = "32 word"
type_synonym u64 = "64 word"

lemma unat_u64_less: "unat (v :: u64) < 2 ^ 64"
  using unsigned_less [of v] by simp

section \<open>Panics and errors\<close>

text \<open>
  A Go function that may panic returns a value of type \<^verbatim>\<open>'a go\<close>; an error return is the left
  summand of a sum. \<open>iw_error\<close> is the enumeration of \<^verbatim>\<open>types/errors.go\<close>.
\<close>

datatype 'a go = Ok (the_ok: 'a) | Panic

definition go_bind :: "'a go \<Rightarrow> ('a \<Rightarrow> 'b go) \<Rightarrow> 'b go" where
  "go_bind m f = (case m of Panic \<Rightarrow> Panic | Ok x \<Rightarrow> f x)"

lemma go_bind_simps [simp]:
  "go_bind (Ok x) f = f x" "go_bind Panic f = Panic"
  by (simp_all add: go_bind_def)

lemma go_bind_eq_Ok: "go_bind m f = Ok y \<longleftrightarrow> (\<exists>x. m = Ok x \<and> f x = Ok y)"
  by (cases m) auto

text \<open>
  The collection \<open>ok_simps\<close> turns the statement that a function with early error returns succeeded
  into the conjunction of its steps.
\<close>

named_theorems ok_simps "a computation with error returns succeeded"

declare go_bind_eq_Ok [ok_simps]

lemma go_bind_no_panic:
  "m \<noteq> Panic \<Longrightarrow> (\<And>x. m = Ok x \<Longrightarrow> f x \<noteq> Panic) \<Longrightarrow> go_bind m f \<noteq> Panic"
  by (cases m) auto

lemma ok_steps [ok_simps]:
  "(case x of Inl e \<Rightarrow> Ok (Inl (g e)) | Inr v \<Rightarrow> f v) = Ok (Inr y) \<longleftrightarrow> (\<exists>v. x = Inr v \<and> f v = Ok (Inr y))"
  "(if c then Ok (Inl e) else z) = Ok (Inr y) \<longleftrightarrow> \<not> c \<and> z = Ok (Inr y)"
  "(case x of Inl e \<Rightarrow> Inl (h e) | Inr v \<Rightarrow> k v) = Inr y \<longleftrightarrow> (\<exists>v. x = Inr v \<and> k v = Inr y)"
  "(if c then Inl e' else z') = Inr y \<longleftrightarrow> \<not> c \<and> z' = Inr y"
  by (cases x; auto)+

text \<open>An index expression panics when the index is out of range.\<close>

definition go_at :: "'a list \<Rightarrow> nat \<Rightarrow> 'a go" where
  "go_at xs i = (if i < length xs then Ok (xs ! i) else Panic)"

lemma go_at_Ok [simp]: "i < length xs \<Longrightarrow> go_at xs i = Ok (xs ! i)"
  by (simp add: go_at_def)

datatype iw_error =
    ErrUndefined | ErrEncode | ErrDecode | ErrClosed | ErrTimeout | ErrBadMessage
  | ErrEmptyMessage | ErrOversizedMessage | ErrUnrecognizedMessage | ErrPeerNotFound
  | ErrBadAddress | ErrBadKey

section \<open>Big-endian integers\<close>

definition be16 :: "u16 \<Rightarrow> bytes" where
  "be16 v = [ucast (drop_bit 8 v), ucast v]"

definition be32 :: "u32 \<Rightarrow> bytes" where
  "be32 v = [ucast (drop_bit 24 v), ucast (drop_bit 16 v), ucast (drop_bit 8 v), ucast v]"

definition be64 :: "u64 \<Rightarrow> bytes" where
  "be64 v = [ucast (drop_bit 56 v), ucast (drop_bit 48 v), ucast (drop_bit 40 v),
             ucast (drop_bit 32 v), ucast (drop_bit 24 v), ucast (drop_bit 16 v),
             ucast (drop_bit 8 v), ucast v]"

fun unbe :: "'a::len word \<Rightarrow> bytes \<Rightarrow> 'a word" where
  "unbe acc [] = acc"
| "unbe acc (b # bs) = unbe (push_bit 8 acc OR ucast b) bs"

lemma length_be [simp, codec_simps]:
  "length (be16 v) = 2" "length (be32 w) = 4" "length (be64 x) = 8"
  by (simp_all add: be16_def be32_def be64_def)

lemma unbe_step:
  fixes v :: "'a::len word"
  assumes "8 \<le> LENGTH('a)"
  shows "push_bit 8 (drop_bit (n + 8) v) OR ucast (ucast (drop_bit n v) :: byte) = drop_bit n v"
proof (rule bit_word_eqI)
  fix i assume "i < LENGTH('a)"
  then show "bit (push_bit 8 (drop_bit (n + 8) v) OR ucast (ucast (drop_bit n v) :: byte)) i
      = bit (drop_bit n v) i"
    by (cases "i < 8") (simp_all add: bit_simps)
qed

lemma unbe_first:
  fixes v :: "'a::len word"
  assumes "LENGTH('a) = n + 8"
  shows "ucast (ucast (drop_bit n v) :: byte) = drop_bit n v"
  by (rule bit_word_eqI) (use assms in \<open>auto simp: bit_simps dest: bit_imp_le_length\<close>)

lemma unbe_be16 [simp, codec_simps]: "unbe 0 (be16 v) = v"
  using unbe_step [of 0 v] by (simp add: be16_def unbe_first)

lemma unbe_be32 [simp, codec_simps]: "unbe 0 (be32 v) = v"
  using unbe_step [of 0 v] unbe_step [of 8 v] unbe_step [of 16 v]
  by (simp add: be32_def unbe_first)

lemma unbe_be64 [simp, codec_simps]: "unbe 0 (be64 v) = v"
  using unbe_step [of 0 v] unbe_step [of 8 v] unbe_step [of 16 v] unbe_step [of 24 v]
    unbe_step [of 32 v] unbe_step [of 40 v] unbe_step [of 48 v]
  by (simp add: be64_def unbe_first)

end
