(* ===== verification/Wire.thy ===== *)
theory Wire
  imports Prelude
begin

text \<open>
  The wire primitives of \<^verbatim>\<open>third_party/ironwood/network/wire.go\<close>: unsigned varints (the
  \<^verbatim>\<open>encoding/binary\<close> loops the file calls), fixed-size and path fields, the \<^verbatim>\<open>wireChop*\<close>
  parsers and the message framing by \<^verbatim>\<open>wireEncode\<close>. The locale \<open>wire_codec\<close> states what a
  message type promises to its users (an encoder that never panics, produces \<^verbatim>\<open>size\<close> bytes and
  is inverted by the decoder); its consequences are proved once there.
\<close>

section \<open>Varints\<close>

definition MaxVarintLen64 :: nat where
  "MaxVarintLen64 = 10"

lemma unat_drop_bit_7: "unat (drop_bit 7 (x :: u64)) = unat x div 128"
  by (simp add: unat_drop_bit_eq drop_bit_eq_div [where 'a = nat])

lemma unat_drop_bit_7_less: "0x80 \<le> (x :: u64) \<Longrightarrow> unat (drop_bit 7 x) < unat x"
  unfolding unat_drop_bit_7 by (simp add: word_le_nat_alt)

function AppendUvarint :: "bytes \<Rightarrow> u64 \<Rightarrow> bytes" where
  "AppendUvarint buf x =
     (if 0x80 \<le> x then AppendUvarint (buf @ [ucast x OR 0x80]) (drop_bit 7 x)
      else buf @ [ucast x])"
  by pat_completeness auto
termination
  by (relation "measure (\<lambda>(buf, x). unat x)") (auto simp: unat_drop_bit_7_less)

declare AppendUvarint.simps [simp del]

text \<open>
  \<^verbatim>\<open>binary.Uvarint\<close>: the value and the number of bytes read; the count is 0 when the buffer is
  too small and negative on overflow.
\<close>

fun Uvarint_loop :: "nat \<Rightarrow> u64 \<Rightarrow> nat \<Rightarrow> bytes \<Rightarrow> u64 \<times> int" where
  "Uvarint_loop i x s [] = (0, 0)"
| "Uvarint_loop i x s (b # bs) =
     (if i = MaxVarintLen64 then (0, - int (i + 1))
      else if b < 0x80 then
        (if i = MaxVarintLen64 - 1 \<and> b > 1 then (0, - int (i + 1))
         else (x OR push_bit s (ucast b), int (i + 1)))
      else Uvarint_loop (i + 1) (x OR push_bit s (ucast (b AND 0x7f))) (s + 7) bs)"

definition Uvarint :: "bytes \<Rightarrow> u64 \<times> int" where
  "Uvarint buf = Uvarint_loop 0 0 0 buf"

section \<open>Fields\<close>

text \<open>The parsers return the field and the rest of the data; \<open>None\<close> is Go's \<^verbatim>\<open>false\<close>.\<close>

definition wireChopSlice :: "nat \<Rightarrow> bytes \<Rightarrow> (bytes \<times> bytes) option" where
  "wireChopSlice n data = (if length data < n then None else Some (take n data, drop n data))"

definition wireChopBytes :: "bytes \<Rightarrow> bytes \<Rightarrow> nat \<Rightarrow> (bytes \<times> bytes) option" where
  "wireChopBytes out data n =
     (if length data < n then None else Some (out @ take n data, drop n data))"

definition wireChopUint :: "bytes \<Rightarrow> (u64 \<times> bytes) option" where
  "wireChopUint data =
     (let (u, l) = Uvarint data in if l \<le> 0 then None else Some (u, drop (nat l) data))"

definition wireSizeUint :: "u64 \<Rightarrow> nat" where
  "wireSizeUint u = length (AppendUvarint [] u)"

definition wireAppendUint :: "bytes \<Rightarrow> u64 \<Rightarrow> bytes" where
  "wireAppendUint out u = AppendUvarint out u"

definition wireSizePath :: "u64 list \<Rightarrow> nat" where
  "wireSizePath path = fold (\<lambda>port n. n + wireSizeUint port) path 0 + wireSizeUint 0"

definition wireAppendPath :: "bytes \<Rightarrow> u64 list \<Rightarrow> bytes" where
  "wireAppendPath dest path =
     wireAppendUint (fold (\<lambda>port dest. wireAppendUint dest port) path dest) 0"

lemma Uvarint_loop_count:
  "Uvarint_loop i x s bs = (u, l) \<Longrightarrow> 0 < l \<Longrightarrow> int i < l \<and> l \<le> int (i + length bs)"
proof (induction i x s bs rule: Uvarint_loop.induct)
  case (2 i x s b bs)
  then show ?case by (fastforce split: if_splits)
qed simp

lemma wireChopUint_shorter:
  "wireChopUint data = Some (u, rest) \<Longrightarrow> length rest < length data"
  by (auto simp: wireChopUint_def Uvarint_def split: prod.splits if_splits
      dest: Uvarint_loop_count)

text \<open>The decoding loop of \<^verbatim>\<open>wireDecodePath\<close>; the length result is negative on failure.\<close>

function wireDecodePath_loop :: "u64 list \<Rightarrow> bytes \<Rightarrow> (u64 list \<times> bytes) option" where
  "wireDecodePath_loop path bs =
     (case wireChopUint bs of
        None \<Rightarrow> None
      | Some (u, bs') \<Rightarrow> if u = 0 then Some (path, bs') else wireDecodePath_loop (path @ [u]) bs')"
  by pat_completeness auto
termination
  by (relation "measure (\<lambda>(path, bs). length bs)") (auto dest: wireChopUint_shorter)

declare wireDecodePath_loop.simps [simp del]

definition wireDecodePath :: "u64 list \<Rightarrow> bytes \<Rightarrow> u64 list \<times> int" where
  "wireDecodePath path source =
     (case wireDecodePath_loop path source of
        None \<Rightarrow> ([], -1)
      | Some (path', bs) \<Rightarrow> (path', int (length source) - int (length bs)))"

definition wireChopPath :: "bytes \<Rightarrow> (u64 list \<times> bytes) option" where
  "wireChopPath data =
     (let (path, length') = wireDecodePath [] data
      in if length' < 0 then None else Some (path, drop (nat length') data))"

section \<open>Varint laws\<close>

lemma AppendUvarint_append: "AppendUvarint buf x = buf @ AppendUvarint [] x"
proof (induction "unat x" arbitrary: buf x rule: less_induct)
  case less
  show ?case
  proof (cases "0x80 \<le> x")
    case True
    have IH: "AppendUvarint b (drop_bit 7 x) = b @ AppendUvarint [] (drop_bit 7 x)" for b
      by (rule less) (rule unat_drop_bit_7_less [OF True])
    from True show ?thesis
      by (simp add: AppendUvarint.simps [of buf x] AppendUvarint.simps [of "[]" x]
          IH [of "buf @ _"] IH [of "[_]"])
  next
    case False
    then show ?thesis by (simp add: AppendUvarint.simps [of buf x] AppendUvarint.simps [of "[]" x])
  qed
qed

text \<open>\<open>uvarint x\<close> is the encoding itself; the unfolding rules peel one byte.\<close>

abbreviation uvarint :: "u64 \<Rightarrow> bytes" where
  "uvarint x \<equiv> AppendUvarint [] x"

lemma uvarint_small: "\<not> 0x80 \<le> x \<Longrightarrow> uvarint x = [ucast x]"
  by (simp add: AppendUvarint.simps)

lemma uvarint_big: "0x80 \<le> x \<Longrightarrow> uvarint x = (ucast x OR 0x80) # uvarint (drop_bit 7 x)"
  by (subst AppendUvarint.simps) (simp add: AppendUvarint_append [of "[_]"])

lemma uvarint_induct [case_names small big]:
  assumes "\<And>x. \<not> 0x80 \<le> x \<Longrightarrow> P x"
    and "\<And>x. 0x80 \<le> x \<Longrightarrow> P (drop_bit 7 x) \<Longrightarrow> P x"
  shows "P (x :: u64)"
proof (induction "unat x" arbitrary: x rule: less_induct)
  case less
  then show ?case
    using assms unat_drop_bit_7_less by blast
qed

lemma cont_byte: "ucast ((ucast (x :: u64) OR 0x80 :: byte) AND 0x7f) = take_bit 7 x"
proof -
  have "(ucast x OR 0x80 :: byte) AND 0x7f = ucast x AND mask 7"
    by (simp add: bit.conj_disj_distrib2 mask_numeral)
  then show ?thesis
    by (auto intro!: bit_word_eqI simp: bit_simps)
qed

lemma cont_byte_ge: "\<not> (ucast (x :: u64) OR 0x80 :: byte) < 0x80"
  using le_word_or1 [of "0x80" "ucast x :: byte"] by simp

lemma last_byte:
  assumes "\<not> 0x80 \<le> (x :: u64)"
  shows "ucast (ucast x :: byte) = x" and "(ucast x :: byte) < 0x80"
    and "unat (ucast x :: byte) = unat x"
proof -
  from assms have x: "unat x < 128" by (simp add: word_le_nat_alt)
  then show *: "unat (ucast x :: byte) = unat x"
    by (simp add: unsigned_ucast_eq take_bit_eq_mod)
  show "ucast (ucast x :: byte) = x"
    by (rule unsigned_word_eqI [where 'a = nat])
      (simp only: unsigned_ucast_eq [of "ucast x"] *, use x in \<open>simp add: take_bit_eq_mod\<close>)
  show "(ucast x :: byte) < 0x80"
    using x * by (simp add: word_less_nat_alt)
qed

lemma push_split: "push_bit s (take_bit 7 x) OR push_bit (s + 7) (drop_bit 7 x) = push_bit s (x :: u64)"
proof (rule bit_word_eqI)
  fix n assume "n < LENGTH(64)"
  then show "bit (push_bit s (take_bit 7 x) OR push_bit (s + 7) (drop_bit 7 x)) n
      = bit (push_bit s x) n"
    by (cases "n < s + 7") (auto simp: bit_simps)
qed

lemma Uvarint_loop_uvarint:
  assumes "i \<le> 9" and "unat v < 2 ^ (64 - 7 * i)"
  shows "Uvarint_loop i acc (7 * i) (uvarint v @ rest)
      = (acc OR push_bit (7 * i) v, int (i + length (uvarint v)))"
  using assms
proof (induction v arbitrary: i acc rule: uvarint_induct)
  case (small v)
  have "i = 9 \<longrightarrow> \<not> 1 < (ucast v :: byte)"
    using small last_byte(3) [OF small(1)] by (auto simp: word_less_nat_alt)
  then show ?case
    using small by (simp add: uvarint_small last_byte MaxVarintLen64_def)
next
  case (big v)
  have v: "128 \<le> unat v" using big.hyps by (simp add: word_le_nat_alt)
  have "i \<noteq> 9" using v big.prems by auto
  then have i: "i + 1 \<le> 9" using big.prems(1) by simp
  have "64 - 7 * i = 7 + (64 - 7 * (i + 1))" using i by simp
  then have "(2::nat) ^ (64 - 7 * i) = 128 * 2 ^ (64 - 7 * (i + 1))"
    by (simp only: power_add) simp
  then have "unat (drop_bit 7 v) < 2 ^ (64 - 7 * (i + 1))"
    using big.prems(2) unfolding unat_drop_bit_7 by (simp add: less_mult_imp_div_less mult.commute)
  note IH = big.IH [OF i this]
  show ?case
    using i big.hyps IH [of "acc OR push_bit (7 * i) (take_bit 7 v)"]
    by (simp add: uvarint_big cont_byte cont_byte_ge MaxVarintLen64_def or.assoc push_split
        add.commute [of 7])
qed

lemma Uvarint_uvarint [simp]: "Uvarint (uvarint v @ rest) = (v, int (length (uvarint v)))"
  using Uvarint_loop_uvarint [of 0 v 0 rest] unat_u64_less [of v]
  by (simp add: Uvarint_def)

lemma uvarint_nonempty [simp]: "uvarint v \<noteq> []"
  by (cases "0x80 \<le> v") (simp_all add: uvarint_small uvarint_big)

lemma uvarint_length_pos [simp]: "0 < length (uvarint v)"
  by simp

lemma uvarint_length_bound:
  "unat v < 2 ^ (7 * n) \<Longrightarrow> 0 < n \<Longrightarrow> length (uvarint v) \<le> n"
proof (induction v arbitrary: n rule: uvarint_induct)
  case (small v)
  then show ?case by (simp add: uvarint_small)
next
  case (big v)
  have "n \<noteq> 1" using big by (auto simp: word_le_nat_alt)
  then obtain m where m: "n = Suc m" "0 < m" using big.prems(2) by (cases n) auto
  have "unat (drop_bit 7 v) < 2 ^ (7 * m)"
    using big.prems(1) m unfolding unat_drop_bit_7
    by (simp add: less_mult_imp_div_less power_add mult.commute)
  then show ?case using big.IH [of m] big.hyps m by (simp add: uvarint_big)
qed

lemma uvarint_length_le_10: "length (uvarint v) \<le> 10"
  using unat_u64_less [of v] by (intro uvarint_length_bound) simp_all

section \<open>Field laws\<close>

lemma wireChopUint_uvarint [codec_simps, simp]: "wireChopUint (uvarint v @ rest) = Some (v, rest)"
  by (simp add: wireChopUint_def)

lemma wireAppendUint_eq [codec_simps]: "wireAppendUint out u = out @ uvarint u"
  unfolding wireAppendUint_def by (rule AppendUvarint_append)

lemma wireChopSlice_append [codec_simps, simp]:
  "length xs = n \<Longrightarrow> wireChopSlice n (xs @ rest) = Some (xs, rest)"
  by (simp add: wireChopSlice_def)

lemma wireChopSlice_exact [codec_simps, simp]: "length xs = n \<Longrightarrow> wireChopSlice n xs = Some (xs, [])"
  by (simp add: wireChopSlice_def)

lemma wireChopSlice_SomeD:
  "wireChopSlice n data = Some (out, rest) \<Longrightarrow> length out = n \<and> data = out @ rest"
  by (auto simp: wireChopSlice_def split: if_splits)

text \<open>The encoding of a path, as a function of the path alone.\<close>

abbreviation path_bytes :: "u64 list \<Rightarrow> bytes" where
  "path_bytes path \<equiv> concat (map uvarint path) @ uvarint 0"

lemma wireAppendPath_eq [codec_simps]: "wireAppendPath dest path = dest @ path_bytes path"
proof -
  have "fold (\<lambda>port dest. wireAppendUint dest port) path dest = dest @ concat (map uvarint path)"
    by (induction path arbitrary: dest) (simp_all add: wireAppendUint_eq)
  then show ?thesis by (simp add: wireAppendPath_def wireAppendUint_eq)
qed

lemma wireSizePath_eq [codec_simps]: "wireSizePath path = length (path_bytes path)"
proof -
  have "fold (\<lambda>port n. n + wireSizeUint port) path k = k + length (concat (map uvarint path))" for k
    by (induction path arbitrary: k) (simp_all add: wireSizeUint_def)
  then show ?thesis by (simp add: wireSizePath_def wireSizeUint_def)
qed

lemma wireDecodePath_loop_path_bytes:
  "0 \<notin> set path \<Longrightarrow>
   wireDecodePath_loop acc (path_bytes path @ rest) = Some (acc @ path, rest)"
proof (induction path arbitrary: acc)
  case Nil
  then show ?case by (subst wireDecodePath_loop.simps) simp
next
  case (Cons p path)
  then show ?case by (subst wireDecodePath_loop.simps) simp
qed

lemma wireDecodePath_loop_zero_free:
  "wireDecodePath_loop acc bs = Some (path, rest) \<Longrightarrow> 0 \<notin> set acc \<Longrightarrow> 0 \<notin> set path"
proof (induction acc bs arbitrary: path rest rule: wireDecodePath_loop.induct)
  case (1 acc bs)
  show ?case
  proof (cases "wireChopUint bs")
    case None
    with "1.prems" show ?thesis by (simp add: wireDecodePath_loop.simps [of acc bs])
  next
    case (Some r)
    obtain u bs' where r: "r = (u, bs')" by (cases r)
    show ?thesis
    proof (cases "u = 0")
      case True
      with "1.prems" Some r show ?thesis by (simp add: wireDecodePath_loop.simps [of acc bs])
    next
      case False
      with "1.prems" Some r have "wireDecodePath_loop (acc @ [u]) bs' = Some (path, rest)"
        by (simp add: wireDecodePath_loop.simps [of acc bs])
      with "1.IH" [OF Some r [symmetric] False] "1.prems" False show ?thesis by simp
    qed
  qed
qed

lemma wireChopPath_path_bytes [codec_simps, simp]:
  assumes "0 \<notin> set path"
  shows "wireChopPath (concat (map uvarint path) @ uvarint 0 @ rest) = Some (path, rest)"
    and "wireChopPath (path_bytes path) = Some (path, [])"
proof -
  have *: "wireChopPath (path_bytes path @ r) = Some (path, r)" for r
  proof -
    have "drop (length (path_bytes path)) (path_bytes path @ r) = r" by simp
    then show ?thesis
      using wireDecodePath_loop_path_bytes [OF assms, of "[]" r]
      by (simp add: wireChopPath_def wireDecodePath_def add.assoc)
  qed
  show "wireChopPath (concat (map uvarint path) @ uvarint 0 @ rest) = Some (path, rest)"
    using * [of rest] by simp
  show "wireChopPath (path_bytes path) = Some (path, [])"
    using * [of "[]"] by simp
qed

lemma wireChopPath_zero_free: "wireChopPath data = Some (path, rest) \<Longrightarrow> 0 \<notin> set path"
  by (auto simp: wireChopPath_def wireDecodePath_def split: option.splits if_splits
      dest: wireDecodePath_loop_zero_free)

section \<open>Messages\<close>

definition wireEncode :: "bytes \<Rightarrow> byte \<Rightarrow> (bytes \<Rightarrow> bytes go) \<Rightarrow> bytes go" where
  "wireEncode out pType encode = encode (out @ [pType])"

text \<open>
  The contract of a \<^verbatim>\<open>wireEncodeable\<close>: on a well-formed value, \<^verbatim>\<open>encode\<close> appends \<^verbatim>\<open>size\<close> bytes
  (so its internal length check never panics) and \<^verbatim>\<open>decode\<close> of those bytes gives the value back;
  whatever \<^verbatim>\<open>decode\<close> accepts is well-formed.
\<close>

locale wire_codec =
  fixes sz :: "'a \<Rightarrow> nat"
    and enc :: "'a \<Rightarrow> bytes \<Rightarrow> bytes go"
    and dec :: "bytes \<Rightarrow> iw_error + 'a"
    and wf :: "'a \<Rightarrow> bool"
  assumes enc_dec: "wf x \<Longrightarrow> \<exists>bs. (\<forall>out. enc x out = Ok (out @ bs)) \<and> length bs = sz x \<and> dec bs = Inr x"
    and dec_wf: "dec bs = Inr x \<Longrightarrow> wf x"
begin

lemma enc_not_Panic: "wf x \<Longrightarrow> enc x out \<noteq> Panic"
  using enc_dec by fastforce

lemma enc_length: "wf x \<Longrightarrow> enc x out = Ok bs \<Longrightarrow> length bs = length out + sz x"
  using enc_dec [of x] by auto

lemma enc_inject:
  assumes "wf x" "wf y" "enc x out = enc y out"
  shows "x = y"
  using enc_dec [OF assms(1)] enc_dec [OF assms(2)] assms(3)
  by (metis go.inject same_append_eq sum.inject(2))

lemma roundtrip: "wf x \<Longrightarrow> \<exists>bs. enc x [] = Ok bs \<and> length bs = sz x \<and> dec bs = Inr x"
  using enc_dec [of x] by force

lemma relay: "dec bs = Inr x \<Longrightarrow> \<exists>bs'. enc x [] = Ok bs' \<and> dec bs' = Inr x"
  using dec_wf roundtrip by blast

lemma wireEncode_roundtrip:
  "wf x \<Longrightarrow> \<exists>bs. wireEncode out t (enc x) = Ok (out @ t # bs) \<and> length bs = sz x \<and> dec bs = Inr x"
  using enc_dec [of x] by (auto simp: wireEncode_def)

end

end
