(* ===== verification/Keys.thy ===== *)
theory Keys
  imports Prelude
begin

text \<open>
  \<^verbatim>\<open>third_party/ironwood/network/crypto.go\<close>: fixed-size keys and signatures as byte lists with
  their length as the well-formedness condition, and the key order that elects the root of the
  spanning tree. Ed25519 itself is a parameter: a record of the three functions the code calls,
  with the documented law of a signature scheme as the named hypothesis \<open>ed25519_laws\<close>.
\<close>

type_synonym publicKey = bytes
type_synonym signature = bytes

definition publicKeySize :: nat where "publicKeySize = 32"
definition privateKeySize :: nat where "privateKeySize = 64"
definition signatureSize :: nat where "signatureSize = 64"

lemmas key_sizes [simp] = publicKeySize_def privateKeySize_def signatureSize_def

abbreviation wf_key :: "publicKey \<Rightarrow> bool" where "wf_key k \<equiv> length k = publicKeySize"
abbreviation wf_sig :: "signature \<Rightarrow> bool" where "wf_sig s \<equiv> length s = signatureSize"

text \<open>\<^verbatim>\<open>var a [n]byte; copy(a[:], bs)\<close>: too long a source is cut, too short a one leaves zeros.\<close>

definition array_of :: "nat \<Rightarrow> bytes \<Rightarrow> bytes" where
  "array_of n bs = take n bs @ replicate (n - length bs) 0"

lemma length_array_of [simp]: "length (array_of n bs) = n"
  by (simp add: array_of_def)

lemma array_of_id [simp]: "length bs = n \<Longrightarrow> array_of n bs = bs"
  by (simp add: array_of_def)

lemma nth_array_of: "i < n \<Longrightarrow> array_of n bs ! i = (if i < length bs then bs ! i else 0)"
  by (simp add: array_of_def nth_append)

record ed25519 =
  ed_sign :: "bytes \<Rightarrow> bytes \<Rightarrow> bytes"
  ed_verify :: "bytes \<Rightarrow> bytes \<Rightarrow> bytes \<Rightarrow> bool"
  ed_public :: "bytes \<Rightarrow> bytes"

record crypto =
  c_privateKey :: bytes
  c_publicKey :: publicKey

definition key_sign :: "ed25519 \<Rightarrow> bytes \<Rightarrow> bytes \<Rightarrow> signature" where
  "key_sign ed key message = array_of signatureSize (ed_sign ed key message)"

definition key_verify :: "ed25519 \<Rightarrow> publicKey \<Rightarrow> bytes \<Rightarrow> signature \<Rightarrow> bool" where
  "key_verify ed key message sig = ed_verify ed key message sig"

definition crypto_init :: "ed25519 \<Rightarrow> bytes \<Rightarrow> crypto" where
  "crypto_init ed secret = \<lparr>c_privateKey = array_of privateKeySize secret,
     c_publicKey = array_of publicKeySize (ed_public ed secret)\<rparr>"

fun key_less :: "publicKey \<Rightarrow> publicKey \<Rightarrow> bool" where
  "key_less (a # as) (b # bs) =
     (if a < b then True else if b < a then False else key_less as bs)"
| "key_less _ _ = False"

lemma key_less_irrefl [simp]: "\<not> key_less k k"
  by (induction k) simp_all

lemma key_less_trans: "key_less a b \<Longrightarrow> key_less b c \<Longrightarrow> key_less a c"
proof (induction a b arbitrary: c rule: key_less.induct)
  case (1 a as b bs)
  then show ?case by (cases c) (auto split: if_splits)
qed auto

lemma key_less_asym: "key_less a b \<Longrightarrow> \<not> key_less b a"
  using key_less_trans key_less_irrefl by blast

lemma key_less_linear: "length a = length b \<Longrightarrow> key_less a b \<or> a = b \<or> key_less b a"
  by (induction a b rule: list_induct2) auto

text \<open>
  What \<^verbatim>\<open>crypto/ed25519\<close> documents: signatures and public keys have their fixed sizes, and what
  is signed with a private key verifies under its public key.
\<close>

definition ed25519_laws :: "ed25519 \<Rightarrow> bool" where
  "ed25519_laws ed \<longleftrightarrow>
     (\<forall>sk m. length (ed_sign ed sk m) = signatureSize) \<and>
     (\<forall>sk. length (ed_public ed sk) = publicKeySize) \<and>
     (\<forall>sk m. ed_verify ed (ed_public ed sk) m (ed_sign ed sk m))"

lemma key_verify_sign: "ed25519_laws ed \<Longrightarrow> key_verify ed (ed_public ed sk) m (key_sign ed sk m)"
  by (simp add: ed25519_laws_def key_verify_def key_sign_def)

lemma length_key_sign [simp]: "length (key_sign ed sk m) = signatureSize"
  by (simp add: key_sign_def)

lemma crypto_init_wf: "wf_key (c_publicKey (crypto_init ed sk))"
  by (simp add: crypto_init_def)

text \<open>A key pair in use: the public half is the one derived from the private half.\<close>

definition keypair :: "ed25519 \<Rightarrow> crypto \<Rightarrow> bool" where
  "keypair ed c \<longleftrightarrow> c_publicKey c = ed_public ed (c_privateKey c)"

lemma crypto_init_keypair:
  "ed25519_laws ed \<Longrightarrow> length sk = privateKeySize \<Longrightarrow> keypair ed (crypto_init ed sk)"
  by (simp add: keypair_def crypto_init_def ed25519_laws_def)

lemma keypair_verify_sign:
  "ed25519_laws ed \<Longrightarrow> keypair ed c \<Longrightarrow>
   key_verify ed (c_publicKey c) m (key_sign ed (c_privateKey c) m)"
  by (simp add: keypair_def key_verify_sign)

text \<open>
  A concrete scheme that satisfies the laws: the public key is the first half of the private key
  and a signature is the public key followed by a digest of the message. It is not secure; it
  shows that the laws can hold, and it lets the witnesses compute.
\<close>

definition sample_ed :: ed25519 where
  "sample_ed = \<lparr>ed_sign = (\<lambda>sk m. array_of 32 sk @ array_of 32 m),
     ed_verify = (\<lambda>pk m s. s = pk @ array_of 32 m),
     ed_public = (\<lambda>sk. array_of 32 sk)\<rparr>"

lemma sample_ed_laws: "ed25519_laws sample_ed"
  by (simp add: ed25519_laws_def sample_ed_def)

end
