(* ===== verification/Messages.thy ===== *)
theory Messages
  imports Wire Keys "HOL-Library.Monad_Syntax"
begin

text \<open>
  The protocol messages of the network package with their size, encoder and decoder:
  \<^verbatim>\<open>routerSigReq\<close>, \<^verbatim>\<open>routerSigRes\<close>, \<^verbatim>\<open>routerAnnounce\<close>, \<^verbatim>\<open>routerInfo\<close> (\<^verbatim>\<open>router.go\<close>),
  \<^verbatim>\<open>pathLookup\<close>, \<^verbatim>\<open>pathNotifyInfo\<close>, \<^verbatim>\<open>pathNotify\<close>, \<^verbatim>\<open>pathBroken\<close> (\<^verbatim>\<open>pathfinder.go\<close>) and
  \<^verbatim>\<open>traffic\<close> (\<^verbatim>\<open>traffic.go\<close>). Go's struct embedding is a field holding the embedded struct.
  Each message type interprets \<open>wire_codec\<close>.
\<close>

definition decoded :: "'a option \<Rightarrow> iw_error + 'a" where
  "decoded r = (case r of None \<Rightarrow> Inl ErrDecode | Some x \<Rightarrow> Inr x)"

lemma decoded_simps [simp]:
  "decoded (Some x) = Inr x" "decoded None = Inl ErrDecode"
  "decoded r = Inr x \<longleftrightarrow> r = Some x"
  by (auto simp: decoded_def split: option.splits)

text \<open>\<^verbatim>\<open>if end-start != size() { panic(...) }\<close>, at the end of every encoder.\<close>

definition checked_append :: "bytes \<Rightarrow> bytes \<Rightarrow> nat \<Rightarrow> bytes go" where
  "checked_append start out n = (if length out - length start \<noteq> n then Panic else Ok out)"

lemma checked_append_Ok [simp]: "length bs = n \<Longrightarrow> checked_append start (start @ bs) n = Ok (start @ bs)"
  by (simp add: checked_append_def)

section \<open>routerSigReq\<close>

record routerSigReq =
  req_seq :: u64
  req_nonce :: u64

definition routerSigReq_size :: "routerSigReq \<Rightarrow> nat" where
  "routerSigReq_size req = wireSizeUint (req_seq req) + wireSizeUint (req_nonce req)"

definition routerSigReq_encode :: "routerSigReq \<Rightarrow> bytes \<Rightarrow> bytes go" where
  "routerSigReq_encode req out =
     checked_append out (wireAppendUint (wireAppendUint out (req_seq req)) (req_nonce req))
       (routerSigReq_size req)"

definition routerSigReq_chop :: "bytes \<Rightarrow> (routerSigReq \<times> bytes) option" where
  "routerSigReq_chop data = do {
     (s, data) \<leftarrow> wireChopUint data;
     (n, data) \<leftarrow> wireChopUint data;
     Some (\<lparr>req_seq = s, req_nonce = n\<rparr>, data) }"

definition routerSigReq_decode :: "bytes \<Rightarrow> iw_error + routerSigReq" where
  "routerSigReq_decode data = decoded (do {
     (req, data) \<leftarrow> routerSigReq_chop data;
     if data \<noteq> [] then None else Some req })"

definition routerSigReq_bytesForSig :: "routerSigReq \<Rightarrow> publicKey \<Rightarrow> publicKey \<Rightarrow> bytes" where
  "routerSigReq_bytesForSig req node parent = the_ok (routerSigReq_encode req (node @ parent))"

abbreviation req_bytes :: "routerSigReq \<Rightarrow> bytes" where
  "req_bytes req \<equiv> uvarint (req_seq req) @ uvarint (req_nonce req)"

lemma routerSigReq_encode_Ok [codec_simps, simp]:
  "routerSigReq_encode req out = Ok (out @ req_bytes req)"
  by (simp add: routerSigReq_encode_def routerSigReq_size_def wireSizeUint_def wireAppendUint_eq)

lemma routerSigReq_chop_bytes [codec_simps, simp]:
  "routerSigReq_chop (uvarint (req_seq req) @ uvarint (req_nonce req) @ rest) = Some (req, rest)"
  by (simp add: routerSigReq_chop_def)

interpretation sigreq: wire_codec routerSigReq_size routerSigReq_encode routerSigReq_decode "\<lambda>_. True"
proof (unfold_locales, goal_cases)
  case (1 req)
  show ?case
    using routerSigReq_chop_bytes [of req "[]"]
    by (intro exI [of _ "req_bytes req"])
      (simp add: routerSigReq_decode_def routerSigReq_size_def wireSizeUint_def)
qed simp

section \<open>routerSigRes\<close>

record routerSigRes =
  res_req :: routerSigReq
  res_port :: u64
  res_psig :: signature

definition routerSigRes_bytesForSig :: "routerSigRes \<Rightarrow> publicKey \<Rightarrow> publicKey \<Rightarrow> bytes" where
  "routerSigRes_bytesForSig res node parent =
     wireAppendUint (routerSigReq_bytesForSig (res_req res) node parent) (res_port res)"

definition routerSigRes_check :: "ed25519 \<Rightarrow> routerSigRes \<Rightarrow> publicKey \<Rightarrow> publicKey \<Rightarrow> bool" where
  "routerSigRes_check ed res node parent =
     key_verify ed parent (routerSigRes_bytesForSig res node parent) (res_psig res)"

definition routerSigRes_size :: "routerSigRes \<Rightarrow> nat" where
  "routerSigRes_size res =
     routerSigReq_size (res_req res) + wireSizeUint (res_port res) + length (res_psig res)"

definition routerSigRes_encode :: "routerSigRes \<Rightarrow> bytes \<Rightarrow> bytes go" where
  "routerSigRes_encode res out =
     go_bind (routerSigReq_encode (res_req res) out) (\<lambda>out'.
       checked_append out (wireAppendUint out' (res_port res) @ res_psig res) (routerSigRes_size res))"

definition routerSigRes_chop :: "bytes \<Rightarrow> (routerSigRes \<times> bytes) option" where
  "routerSigRes_chop data = do {
     (req, data) \<leftarrow> routerSigReq_chop data;
     (port, data) \<leftarrow> wireChopUint data;
     (psig, data) \<leftarrow> wireChopSlice signatureSize data;
     Some (\<lparr>res_req = req, res_port = port, res_psig = psig\<rparr>, data) }"

definition routerSigRes_decode :: "bytes \<Rightarrow> iw_error + routerSigRes" where
  "routerSigRes_decode data = decoded (do {
     (res, data) \<leftarrow> routerSigRes_chop data;
     if data \<noteq> [] then None else Some res })"

abbreviation res_bytes :: "routerSigRes \<Rightarrow> bytes" where
  "res_bytes res \<equiv> req_bytes (res_req res) @ uvarint (res_port res) @ res_psig res"

lemma routerSigRes_size_bytes: "routerSigRes_size res = length (res_bytes res)"
  by (simp add: routerSigRes_size_def routerSigReq_size_def wireSizeUint_def)

lemma routerSigRes_encode_Ok [codec_simps, simp]:
  "routerSigRes_encode res out = Ok (out @ res_bytes res)"
proof -
  have "checked_append out (out @ res_bytes res) (routerSigRes_size res) = Ok (out @ res_bytes res)"
    by (rule checked_append_Ok) (simp add: routerSigRes_size_bytes)
  then show ?thesis by (simp add: routerSigRes_encode_def wireAppendUint_eq)
qed

lemma routerSigRes_chop_bytes [codec_simps, simp]:
  "wf_sig (res_psig res) \<Longrightarrow> routerSigRes_chop (res_bytes res @ rest) = Some (res, rest)"
  by (simp add: routerSigRes_chop_def)

lemma routerSigRes_chop_wf: "routerSigRes_chop data = Some (res, rest) \<Longrightarrow> wf_sig (res_psig res)"
  by (auto simp: routerSigRes_chop_def bind_eq_Some_conv dest: wireChopSlice_SomeD)

interpretation sigres: wire_codec routerSigRes_size routerSigRes_encode routerSigRes_decode
  "\<lambda>res. wf_sig (res_psig res)"
proof (unfold_locales, goal_cases)
  case (1 res)
  then show ?case
    using routerSigRes_chop_bytes [of res "[]"]
    by (intro exI [of _ "res_bytes res"])
      (simp add: routerSigRes_decode_def routerSigRes_size_bytes)
next
  case (2 bs res)
  then show ?case
    by (auto simp: routerSigRes_decode_def bind_eq_Some_conv split: if_splits
        dest: routerSigRes_chop_wf)
qed

section \<open>routerAnnounce and routerInfo\<close>

record routerAnnounce =
  ann_key :: publicKey
  ann_parent :: publicKey
  ann_res :: routerSigRes
  ann_sig :: signature

record routerInfo =
  info_parent :: publicKey
  info_res :: routerSigRes
  info_sig :: signature

abbreviation info_seq :: "routerInfo \<Rightarrow> u64" where "info_seq i \<equiv> req_seq (res_req (info_res i))"
abbreviation info_nonce :: "routerInfo \<Rightarrow> u64" where "info_nonce i \<equiv> req_nonce (res_req (info_res i))"
abbreviation info_port :: "routerInfo \<Rightarrow> u64" where "info_port i \<equiv> res_port (info_res i)"
abbreviation ann_seq :: "routerAnnounce \<Rightarrow> u64" where "ann_seq a \<equiv> req_seq (res_req (ann_res a))"
abbreviation ann_nonce :: "routerAnnounce \<Rightarrow> u64" where "ann_nonce a \<equiv> req_nonce (res_req (ann_res a))"
abbreviation ann_port :: "routerAnnounce \<Rightarrow> u64" where "ann_port a \<equiv> res_port (ann_res a)"

definition getAnnounce :: "routerInfo \<Rightarrow> publicKey \<Rightarrow> routerAnnounce" where
  "getAnnounce info key = \<lparr>ann_key = key, ann_parent = info_parent info,
     ann_res = info_res info, ann_sig = info_sig info\<rparr>"

definition routerAnnounce_check :: "ed25519 \<Rightarrow> routerAnnounce \<Rightarrow> bool" where
  "routerAnnounce_check ed ann =
     (if ann_port ann = 0 \<and> ann_key ann \<noteq> ann_parent ann then False
      else let bs = routerSigRes_bytesForSig (ann_res ann) (ann_key ann) (ann_parent ann)
           in key_verify ed (ann_key ann) bs (ann_sig ann)
              \<and> key_verify ed (ann_parent ann) bs (res_psig (ann_res ann)))"

definition routerAnnounce_size :: "routerAnnounce \<Rightarrow> nat" where
  "routerAnnounce_size ann = length (ann_key ann) + length (ann_parent ann)
     + routerSigRes_size (ann_res ann) + length (ann_sig ann)"

definition routerAnnounce_encode :: "routerAnnounce \<Rightarrow> bytes \<Rightarrow> bytes go" where
  "routerAnnounce_encode ann out =
     go_bind (routerSigRes_encode (ann_res ann) (out @ ann_key ann @ ann_parent ann)) (\<lambda>out'.
       checked_append out (out' @ ann_sig ann) (routerAnnounce_size ann))"

definition routerAnnounce_decode :: "bytes \<Rightarrow> iw_error + routerAnnounce" where
  "routerAnnounce_decode data = decoded (do {
     (key, data) \<leftarrow> wireChopSlice publicKeySize data;
     (parent, data) \<leftarrow> wireChopSlice publicKeySize data;
     (res, data) \<leftarrow> routerSigRes_chop data;
     (sig, data) \<leftarrow> wireChopSlice signatureSize data;
     if data \<noteq> [] then None
     else Some \<lparr>ann_key = key, ann_parent = parent, ann_res = res, ann_sig = sig\<rparr> })"

definition wf_announce :: "routerAnnounce \<Rightarrow> bool" where
  "wf_announce ann \<longleftrightarrow> wf_key (ann_key ann) \<and> wf_key (ann_parent ann)
     \<and> wf_sig (res_psig (ann_res ann)) \<and> wf_sig (ann_sig ann)"

abbreviation ann_bytes :: "routerAnnounce \<Rightarrow> bytes" where
  "ann_bytes ann \<equiv> ann_key ann @ ann_parent ann @ res_bytes (ann_res ann) @ ann_sig ann"

lemma routerAnnounce_encode_Ok [codec_simps, simp]:
  "routerAnnounce_encode ann out = Ok (out @ ann_bytes ann)"
proof -
  have "checked_append out (out @ ann_bytes ann) (routerAnnounce_size ann) = Ok (out @ ann_bytes ann)"
    by (rule checked_append_Ok) (simp add: routerAnnounce_size_def routerSigRes_size_bytes)
  then show ?thesis by (simp add: routerAnnounce_encode_def)
qed

interpretation announce: wire_codec routerAnnounce_size routerAnnounce_encode routerAnnounce_decode
  wf_announce
proof (unfold_locales, goal_cases)
  case (1 ann)
  then have "routerAnnounce_decode (ann_bytes ann) = Inr ann"
    using routerSigRes_chop_bytes [of "ann_res ann" "ann_sig ann"]
    by (simp add: routerAnnounce_decode_def wf_announce_def)
  then show ?case
    by (intro exI [of _ "ann_bytes ann"])
      (simp add: routerAnnounce_size_def routerSigRes_size_bytes)
next
  case (2 bs ann)
  then show ?case
    by (auto simp: routerAnnounce_decode_def wf_announce_def bind_eq_Some_conv split: if_splits
        dest: routerSigRes_chop_wf wireChopSlice_SomeD)
qed

section \<open>pathLookup\<close>

record pathLookup =
  lookup_source :: publicKey
  lookup_dest :: publicKey
  lookup_from :: "u64 list"

definition pathLookup_size :: "pathLookup \<Rightarrow> nat" where
  "pathLookup_size l = length (lookup_source l) + length (lookup_dest l) + wireSizePath (lookup_from l)"

definition pathLookup_encode :: "pathLookup \<Rightarrow> bytes \<Rightarrow> bytes go" where
  "pathLookup_encode l out =
     checked_append out (wireAppendPath (out @ lookup_source l @ lookup_dest l) (lookup_from l))
       (pathLookup_size l)"

definition pathLookup_decode :: "bytes \<Rightarrow> iw_error + pathLookup" where
  "pathLookup_decode data = decoded (do {
     (source, data) \<leftarrow> wireChopSlice publicKeySize data;
     (dest, data) \<leftarrow> wireChopSlice publicKeySize data;
     (from, data) \<leftarrow> wireChopPath data;
     if data \<noteq> [] then None
     else Some \<lparr>lookup_source = source, lookup_dest = dest, lookup_from = from\<rparr> })"

definition wf_lookup :: "pathLookup \<Rightarrow> bool" where
  "wf_lookup l \<longleftrightarrow> wf_key (lookup_source l) \<and> wf_key (lookup_dest l) \<and> 0 \<notin> set (lookup_from l)"

abbreviation lookup_bytes :: "pathLookup \<Rightarrow> bytes" where
  "lookup_bytes l \<equiv> lookup_source l @ lookup_dest l @ path_bytes (lookup_from l)"

lemma pathLookup_size_bytes: "pathLookup_size l = length (lookup_bytes l)"
  by (simp add: pathLookup_size_def wireSizePath_eq)

lemma pathLookup_encode_Ok [codec_simps, simp]: "pathLookup_encode l out = Ok (out @ lookup_bytes l)"
  using checked_append_Ok [of "lookup_bytes l" "pathLookup_size l" out]
  by (simp add: pathLookup_encode_def wireAppendPath_eq pathLookup_size_bytes)

interpretation lookup: wire_codec pathLookup_size pathLookup_encode pathLookup_decode wf_lookup
proof (unfold_locales, goal_cases)
  case (1 l)
  then have "pathLookup_decode (lookup_bytes l) = Inr l"
    by (simp add: pathLookup_decode_def wf_lookup_def)
  then show ?case
    by (intro exI [of _ "lookup_bytes l"]) (simp add: pathLookup_size_bytes)
next
  case (2 bs l)
  then show ?case
    by (auto simp: pathLookup_decode_def wf_lookup_def bind_eq_Some_conv split: if_splits
        dest: wireChopSlice_SomeD wireChopPath_zero_free)
qed

section \<open>pathNotifyInfo and pathNotify\<close>

record pathNotifyInfo =
  nfo_seq :: u64
  nfo_path :: "u64 list"
  nfo_sig :: signature

definition pathNotifyInfo_equal :: "pathNotifyInfo \<Rightarrow> pathNotifyInfo \<Rightarrow> bool" where
  "pathNotifyInfo_equal info cmp =
     (if nfo_seq info \<noteq> nfo_seq cmp then False
      else if length (nfo_path info) \<noteq> length (nfo_path cmp) then False
      else list_all2 (=) (nfo_path info) (nfo_path cmp))"

definition pathNotifyInfo_bytesForSig :: "pathNotifyInfo \<Rightarrow> bytes" where
  "pathNotifyInfo_bytesForSig info = wireAppendPath (wireAppendUint [] (nfo_seq info)) (nfo_path info)"

definition pathNotifyInfo_sign :: "ed25519 \<Rightarrow> pathNotifyInfo \<Rightarrow> bytes \<Rightarrow> pathNotifyInfo" where
  "pathNotifyInfo_sign ed info key =
     info\<lparr>nfo_sig := key_sign ed key (pathNotifyInfo_bytesForSig info)\<rparr>"

definition pathNotifyInfo_size :: "pathNotifyInfo \<Rightarrow> nat" where
  "pathNotifyInfo_size info =
     wireSizeUint (nfo_seq info) + wireSizePath (nfo_path info) + length (nfo_sig info)"

definition pathNotifyInfo_encode :: "pathNotifyInfo \<Rightarrow> bytes \<Rightarrow> bytes go" where
  "pathNotifyInfo_encode info out =
     checked_append out (wireAppendPath (wireAppendUint out (nfo_seq info)) (nfo_path info) @ nfo_sig info)
       (pathNotifyInfo_size info)"

definition pathNotifyInfo_decode :: "bytes \<Rightarrow> iw_error + pathNotifyInfo" where
  "pathNotifyInfo_decode data = decoded (do {
     (s, data) \<leftarrow> wireChopUint data;
     (path, data) \<leftarrow> wireChopPath data;
     (sig, data) \<leftarrow> wireChopSlice signatureSize data;
     if data \<noteq> [] then None else Some \<lparr>nfo_seq = s, nfo_path = path, nfo_sig = sig\<rparr> })"

definition wf_nfo :: "pathNotifyInfo \<Rightarrow> bool" where
  "wf_nfo info \<longleftrightarrow> 0 \<notin> set (nfo_path info) \<and> wf_sig (nfo_sig info)"

abbreviation nfo_bytes :: "pathNotifyInfo \<Rightarrow> bytes" where
  "nfo_bytes info \<equiv> uvarint (nfo_seq info) @ path_bytes (nfo_path info) @ nfo_sig info"

lemma pathNotifyInfo_equal_iff:
  "pathNotifyInfo_equal info cmp \<longleftrightarrow> nfo_seq info = nfo_seq cmp \<and> nfo_path info = nfo_path cmp"
  by (auto simp: pathNotifyInfo_equal_def list.rel_eq)

lemma pathNotifyInfo_size_bytes: "pathNotifyInfo_size info = length (nfo_bytes info)"
  by (simp add: pathNotifyInfo_size_def wireSizePath_eq wireSizeUint_def)

lemma pathNotifyInfo_encode_Ok [codec_simps, simp]:
  "pathNotifyInfo_encode info out = Ok (out @ nfo_bytes info)"
  using checked_append_Ok [of "nfo_bytes info" "pathNotifyInfo_size info" out]
  by (simp add: pathNotifyInfo_encode_def wireAppendPath_eq wireAppendUint_eq
      pathNotifyInfo_size_bytes)

lemma pathNotifyInfo_decode_bytes [codec_simps, simp]:
  "wf_nfo info \<Longrightarrow> pathNotifyInfo_decode (nfo_bytes info) = Inr info"
  by (simp add: pathNotifyInfo_decode_def wf_nfo_def)

interpretation notifyinfo: wire_codec pathNotifyInfo_size pathNotifyInfo_encode pathNotifyInfo_decode
  wf_nfo
proof (unfold_locales, goal_cases)
  case (1 info)
  then show ?case
    using pathNotifyInfo_decode_bytes [of info]
    by (intro exI [of _ "nfo_bytes info"])
      (simp add: pathNotifyInfo_size_bytes)
next
  case (2 bs info)
  then show ?case
    by (auto simp: pathNotifyInfo_decode_def wf_nfo_def bind_eq_Some_conv split: if_splits
        dest: wireChopSlice_SomeD wireChopPath_zero_free)
qed

record pathNotify =
  notify_path :: "u64 list"
  notify_watermark :: u64
  notify_source :: publicKey
  notify_dest :: publicKey
  notify_info :: pathNotifyInfo

definition pathNotify_check :: "ed25519 \<Rightarrow> pathNotify \<Rightarrow> bool" where
  "pathNotify_check ed n = key_verify ed (notify_source n)
     (pathNotifyInfo_bytesForSig (notify_info n)) (nfo_sig (notify_info n))"

definition pathNotify_size :: "pathNotify \<Rightarrow> nat" where
  "pathNotify_size n = wireSizePath (notify_path n) + wireSizeUint (notify_watermark n)
     + length (notify_source n) + length (notify_dest n) + pathNotifyInfo_size (notify_info n)"

definition pathNotify_encode :: "pathNotify \<Rightarrow> bytes \<Rightarrow> bytes go" where
  "pathNotify_encode n out =
     go_bind (pathNotifyInfo_encode (notify_info n)
        (wireAppendUint (wireAppendPath out (notify_path n)) (notify_watermark n)
           @ notify_source n @ notify_dest n)) (\<lambda>out'.
       checked_append out out' (pathNotify_size n))"

definition pathNotify_decode :: "bytes \<Rightarrow> iw_error + pathNotify" where
  "pathNotify_decode data =
     (case do {
        (path, data) \<leftarrow> wireChopPath data;
        (wm, data) \<leftarrow> wireChopUint data;
        (source, data) \<leftarrow> wireChopSlice publicKeySize data;
        (dest, data) \<leftarrow> wireChopSlice publicKeySize data;
        Some (path, wm, source, dest, data) } of
        None \<Rightarrow> Inl ErrDecode
      | Some (path, wm, source, dest, data) \<Rightarrow>
          (case pathNotifyInfo_decode data of
             Inl err \<Rightarrow> Inl err
           | Inr info \<Rightarrow> Inr \<lparr>notify_path = path, notify_watermark = wm, notify_source = source,
                              notify_dest = dest, notify_info = info\<rparr>))"

definition wf_notify :: "pathNotify \<Rightarrow> bool" where
  "wf_notify n \<longleftrightarrow> 0 \<notin> set (notify_path n) \<and> wf_key (notify_source n) \<and> wf_key (notify_dest n)
     \<and> wf_nfo (notify_info n)"

abbreviation notify_bytes :: "pathNotify \<Rightarrow> bytes" where
  "notify_bytes n \<equiv> path_bytes (notify_path n) @ uvarint (notify_watermark n)
     @ notify_source n @ notify_dest n @ nfo_bytes (notify_info n)"

lemma pathNotify_size_bytes: "pathNotify_size n = length (notify_bytes n)"
  by (simp add: pathNotify_size_def wireSizePath_eq wireSizeUint_def pathNotifyInfo_size_bytes)

lemma pathNotify_encode_Ok [codec_simps, simp]: "pathNotify_encode n out = Ok (out @ notify_bytes n)"
  using checked_append_Ok [of "notify_bytes n" "pathNotify_size n" out]
  by (simp add: pathNotify_encode_def wireAppendPath_eq wireAppendUint_eq pathNotify_size_bytes)

lemma pathNotify_decode_bytes: "wf_notify n \<Longrightarrow> pathNotify_decode (notify_bytes n) = Inr n"
  using pathNotifyInfo_decode_bytes [of "notify_info n"]
  by (simp add: pathNotify_decode_def wf_notify_def)

interpretation notify: wire_codec pathNotify_size pathNotify_encode pathNotify_decode wf_notify
proof (unfold_locales, goal_cases)
  case (1 n)
  then show ?case
    using pathNotify_decode_bytes [of n]
    by (intro exI [of _ "notify_bytes n"]) (simp add: pathNotify_size_bytes)
next
  case (2 bs n)
  then show ?case
    by (auto simp: pathNotify_decode_def wf_notify_def bind_eq_Some_conv
        split: option.splits sum.splits;
        auto dest: wireChopSlice_SomeD wireChopPath_zero_free notifyinfo.dec_wf)
qed

section \<open>pathBroken\<close>

record pathBroken =
  broken_path :: "u64 list"
  broken_watermark :: u64
  broken_source :: publicKey
  broken_dest :: publicKey

definition pathBroken_size :: "pathBroken \<Rightarrow> nat" where
  "pathBroken_size b = wireSizePath (broken_path b) + wireSizeUint (broken_watermark b)
     + length (broken_source b) + length (broken_dest b)"

definition pathBroken_encode :: "pathBroken \<Rightarrow> bytes \<Rightarrow> bytes go" where
  "pathBroken_encode b out =
     checked_append out (wireAppendUint (wireAppendPath out (broken_path b)) (broken_watermark b)
       @ broken_source b @ broken_dest b) (pathBroken_size b)"

definition pathBroken_decode :: "bytes \<Rightarrow> iw_error + pathBroken" where
  "pathBroken_decode data = decoded (do {
     (path, data) \<leftarrow> wireChopPath data;
     (wm, data) \<leftarrow> wireChopUint data;
     (source, data) \<leftarrow> wireChopSlice publicKeySize data;
     (dest, data) \<leftarrow> wireChopSlice publicKeySize data;
     if data \<noteq> [] then None
     else Some \<lparr>broken_path = path, broken_watermark = wm, broken_source = source,
                broken_dest = dest\<rparr> })"

definition wf_broken :: "pathBroken \<Rightarrow> bool" where
  "wf_broken b \<longleftrightarrow> 0 \<notin> set (broken_path b) \<and> wf_key (broken_source b) \<and> wf_key (broken_dest b)"

abbreviation broken_bytes :: "pathBroken \<Rightarrow> bytes" where
  "broken_bytes b \<equiv> path_bytes (broken_path b) @ uvarint (broken_watermark b)
     @ broken_source b @ broken_dest b"

lemma pathBroken_size_bytes: "pathBroken_size b = length (broken_bytes b)"
  by (simp add: pathBroken_size_def wireSizePath_eq wireSizeUint_def)

lemma pathBroken_encode_Ok [codec_simps, simp]: "pathBroken_encode b out = Ok (out @ broken_bytes b)"
  using checked_append_Ok [of "broken_bytes b" "pathBroken_size b" out]
  by (simp add: pathBroken_encode_def wireAppendPath_eq wireAppendUint_eq pathBroken_size_bytes)

lemma pathBroken_decode_bytes: "wf_broken b \<Longrightarrow> pathBroken_decode (broken_bytes b) = Inr b"
  by (simp add: pathBroken_decode_def wf_broken_def)

interpretation broken: wire_codec pathBroken_size pathBroken_encode pathBroken_decode wf_broken
proof (unfold_locales, goal_cases)
  case (1 b)
  then show ?case
    using pathBroken_decode_bytes [of b]
    by (intro exI [of _ "broken_bytes b"]) (simp add: pathBroken_size_bytes)
next
  case (2 bs b)
  then show ?case
    by (auto simp: pathBroken_decode_def wf_broken_def bind_eq_Some_conv split: if_splits
        dest: wireChopSlice_SomeD wireChopPath_zero_free)
qed

section \<open>traffic\<close>

record traffic =
  tr_path :: "u64 list"
  tr_from :: "u64 list"
  tr_source :: publicKey
  tr_dest :: publicKey
  tr_watermark :: u64
  tr_payload :: bytes

definition traffic_size :: "traffic \<Rightarrow> nat" where
  "traffic_size tr = wireSizePath (tr_path tr) + wireSizePath (tr_from tr) + length (tr_source tr)
     + length (tr_dest tr) + wireSizeUint (tr_watermark tr) + length (tr_payload tr)"

definition traffic_encode :: "traffic \<Rightarrow> bytes \<Rightarrow> bytes go" where
  "traffic_encode tr out =
     checked_append out (wireAppendUint (wireAppendPath (wireAppendPath out (tr_path tr)) (tr_from tr)
       @ tr_source tr @ tr_dest tr) (tr_watermark tr) @ tr_payload tr) (traffic_size tr)"

definition traffic_decode :: "bytes \<Rightarrow> iw_error + traffic" where
  "traffic_decode data = decoded (do {
     (path, data) \<leftarrow> wireChopPath data;
     (from, data) \<leftarrow> wireChopPath data;
     (source, data) \<leftarrow> wireChopSlice publicKeySize data;
     (dest, data) \<leftarrow> wireChopSlice publicKeySize data;
     (wm, data) \<leftarrow> wireChopUint data;
     Some \<lparr>tr_path = path, tr_from = from, tr_source = source, tr_dest = dest,
           tr_watermark = wm, tr_payload = data\<rparr> })"

definition wf_traffic :: "traffic \<Rightarrow> bool" where
  "wf_traffic tr \<longleftrightarrow> 0 \<notin> set (tr_path tr) \<and> 0 \<notin> set (tr_from tr) \<and> wf_key (tr_source tr)
     \<and> wf_key (tr_dest tr)"

abbreviation traffic_bytes :: "traffic \<Rightarrow> bytes" where
  "traffic_bytes tr \<equiv> path_bytes (tr_path tr) @ path_bytes (tr_from tr) @ tr_source tr
     @ tr_dest tr @ uvarint (tr_watermark tr) @ tr_payload tr"

lemma traffic_size_bytes: "traffic_size tr = length (traffic_bytes tr)"
  by (simp add: traffic_size_def wireSizePath_eq wireSizeUint_def)

lemma traffic_encode_Ok [codec_simps, simp]: "traffic_encode tr out = Ok (out @ traffic_bytes tr)"
  using checked_append_Ok [of "traffic_bytes tr" "traffic_size tr" out]
  by (simp add: traffic_encode_def wireAppendPath_eq wireAppendUint_eq traffic_size_bytes)

lemma traffic_decode_bytes: "wf_traffic tr \<Longrightarrow> traffic_decode (traffic_bytes tr) = Inr tr"
  by (simp add: traffic_decode_def wf_traffic_def)

interpretation traffic: wire_codec traffic_size traffic_encode traffic_decode wf_traffic
proof (unfold_locales, goal_cases)
  case (1 tr)
  then show ?case
    using traffic_decode_bytes [of tr]
    by (intro exI [of _ "traffic_bytes tr"]) (simp add: traffic_size_bytes)
next
  case (2 bs tr)
  then show ?case
    by (auto simp: traffic_decode_def wf_traffic_def bind_eq_Some_conv
        dest: wireChopSlice_SomeD wireChopPath_zero_free)
qed

section \<open>Queued packets\<close>

text \<open>
  The packet types of \<^verbatim>\<open>wirePacketType\<close> and the interface \<^verbatim>\<open>pqPacket\<close> of the packets that may wait
  in a queue, by its four implementations.
\<close>

datatype wirePacketType =
    wireDummy | wireKeepAlive | wireProtoSigReq | wireProtoSigRes | wireProtoAnnounce
  | wireProtoBloomFilter | wireProtoPathLookup | wireProtoPathNotify | wireProtoPathBroken
  | wireTraffic

fun wireType_byte :: "wirePacketType \<Rightarrow> byte" where
  "wireType_byte wireDummy = 0"
| "wireType_byte wireKeepAlive = 1"
| "wireType_byte wireProtoSigReq = 2"
| "wireType_byte wireProtoSigRes = 3"
| "wireType_byte wireProtoAnnounce = 4"
| "wireType_byte wireProtoBloomFilter = 5"
| "wireType_byte wireProtoPathLookup = 6"
| "wireType_byte wireProtoPathNotify = 7"
| "wireType_byte wireProtoPathBroken = 8"
| "wireType_byte wireTraffic = 9"

datatype pqPacket =
    PLookup pathLookup | PNotify pathNotify | PBroken pathBroken | PTraffic traffic

fun packet_wireType :: "pqPacket \<Rightarrow> wirePacketType" where
  "packet_wireType (PLookup _) = wireProtoPathLookup"
| "packet_wireType (PNotify _) = wireProtoPathNotify"
| "packet_wireType (PBroken _) = wireProtoPathBroken"
| "packet_wireType (PTraffic _) = wireTraffic"

fun packet_sourceKey :: "pqPacket \<Rightarrow> publicKey" where
  "packet_sourceKey (PLookup l) = lookup_source l"
| "packet_sourceKey (PNotify n) = notify_source n"
| "packet_sourceKey (PBroken b) = broken_source b"
| "packet_sourceKey (PTraffic t) = tr_source t"

fun packet_destKey :: "pqPacket \<Rightarrow> publicKey" where
  "packet_destKey (PLookup l) = lookup_dest l"
| "packet_destKey (PNotify n) = notify_dest n"
| "packet_destKey (PBroken b) = broken_dest b"
| "packet_destKey (PTraffic t) = tr_dest t"

fun packet_size :: "pqPacket \<Rightarrow> nat" where
  "packet_size (PLookup l) = pathLookup_size l"
| "packet_size (PNotify n) = pathNotify_size n"
| "packet_size (PBroken b) = pathBroken_size b"
| "packet_size (PTraffic t) = traffic_size t"

text \<open>Every queued packet has a positive size, since each carries at least a path terminator.\<close>

lemma packet_size_pos: "0 < packet_size p"
  by (cases p) (simp_all add: pathLookup_size_bytes pathNotify_size_bytes pathBroken_size_bytes
      traffic_size_bytes)

end
