(* ===== verification/Tree.thy ===== *)
theory Tree
  imports Messages "HOL-Library.Finite_Map"
begin

text \<open>
  The spanning tree as one node sees it (\<^verbatim>\<open>network/router.go\<close>): the walks from a node towards its
  root over the table of announcements, and the distance in tree space. The three walks
  (\<^verbatim>\<open>_getRootAndDists\<close>, \<^verbatim>\<open>_getRootAndPath\<close>, \<^verbatim>\<open>_backwardsAncestry\<close>) are total for every table, loops and
  missing entries included, and all three are related to one list, \<open>chain\<close>. A Go map is a finite
  map \<^typ>\<open>('a, 'b) fmap\<close>.
\<close>

type_synonym infos = "(publicKey, routerInfo) fmap"

definition zeroKey :: publicKey where
  "zeroKey = replicate publicKeySize 0"

section \<open>The walks\<close>

lemma walk_measure:
  assumes "fmlookup infos next = Some info" "next \<notin> A"
  shows "card (fmdom' infos - insert next A) < card (fmdom' infos - A)"
proof (rule psubset_card_mono)
  have "next \<in> fmdom' infos" using assms(1) by (auto intro: fmdom'I)
  then show "fmdom' infos - insert next A \<subset> fmdom' infos - A" using assms(2) by auto
qed simp

text \<open>The loop of \<^verbatim>\<open>_getRootAndDists\<close>, with its variables \<^verbatim>\<open>root\<close>, \<^verbatim>\<open>dists\<close>, \<^verbatim>\<open>dist\<close> and \<^verbatim>\<open>next\<close>.\<close>

function rootAndDists_loop :: "infos \<Rightarrow> publicKey \<Rightarrow> (publicKey, u64) fmap \<Rightarrow> u64 \<Rightarrow> publicKey
    \<Rightarrow> publicKey \<times> (publicKey, u64) fmap" where
  "rootAndDists_loop infos root dists dist next =
     (case fmlookup dists next of
        Some _ \<Rightarrow> (root, dists)
      | None \<Rightarrow>
          (case fmlookup infos next of
             Some info \<Rightarrow> rootAndDists_loop infos next (fmupd next dist dists) (dist + 1) (info_parent info)
           | None \<Rightarrow> (root, dists)))"
  by pat_completeness auto
termination
  by (relation "measure (\<lambda>(infos, root, dists, dist, next). card (fmdom' infos - fmdom' dists))")
    (auto simp: walk_measure fmdom'_notI)

declare rootAndDists_loop.simps [simp del]

definition getRootAndDists :: "infos \<Rightarrow> publicKey \<Rightarrow> publicKey \<times> (publicKey, u64) fmap" where
  "getRootAndDists infos dest = rootAndDists_loop infos zeroKey fmempty 0 dest"

text \<open>
  The loop of \<^verbatim>\<open>_getRootAndPath\<close>; \<open>None\<close> is the early return \<^verbatim>\<open>dest, nil\<close> on a loop or a dead end.
\<close>

function rootAndPath_loop :: "infos \<Rightarrow> u64 list \<Rightarrow> publicKey fset \<Rightarrow> publicKey \<Rightarrow> (publicKey \<times> u64 list) option" where
  "rootAndPath_loop infos ports visited next =
     (if next |\<in>| visited then None
      else case fmlookup infos next of
             Some info \<Rightarrow>
               if next = info_parent info then Some (next, ports)
               else rootAndPath_loop infos (ports @ [info_port info]) (finsert next visited) (info_parent info)
           | None \<Rightarrow> None)"
  by pat_completeness auto
termination
  by (relation "measure (\<lambda>(infos, ports, visited, next). card (fmdom' infos - fset visited))")
    (auto simp: walk_measure)

declare rootAndPath_loop.simps [simp del]

definition getRootAndPath :: "infos \<Rightarrow> publicKey \<Rightarrow> publicKey \<times> u64 list" where
  "getRootAndPath infos dest =
     (case rootAndPath_loop infos [] {||} dest of
        None \<Rightarrow> (dest, [])
      | Some (root, ports) \<Rightarrow> (root, rev ports))"

function backwardsAncestry :: "infos \<Rightarrow> publicKey list \<Rightarrow> publicKey \<Rightarrow> publicKey list" where
  "backwardsAncestry infos anc here =
     (if here \<in> set anc then anc
      else case fmlookup infos here of
             Some info \<Rightarrow> backwardsAncestry infos (anc @ [here]) (info_parent info)
           | None \<Rightarrow> anc)"
  by pat_completeness auto
termination
  by (relation "measure (\<lambda>(infos, anc, here). card (fmdom' infos - set anc))")
    (auto simp: walk_measure)

declare backwardsAncestry.simps [simp del]

definition getAncestry :: "infos \<Rightarrow> publicKey \<Rightarrow> publicKey list" where
  "getAncestry infos key = rev (backwardsAncestry infos [] key)"

section \<open>The chain of ancestors\<close>

text \<open>
  \<open>chain infos A k\<close>: \<open>k\<close>, its parent, its parent's parent and so on, as far as they are in the table
  and have not been met (in \<open>A\<close>) before.
\<close>

function chain :: "infos \<Rightarrow> publicKey fset \<Rightarrow> publicKey \<Rightarrow> publicKey list" where
  "chain infos A k =
     (if k |\<in>| A then []
      else case fmlookup infos k of
             None \<Rightarrow> []
           | Some info \<Rightarrow> k # chain infos (finsert k A) (info_parent info))"
  by pat_completeness auto
termination
  by (relation "measure (\<lambda>(infos, A, k). card (fmdom' infos - fset A))") (auto simp: walk_measure)

declare chain.simps [simp del]

lemma chain_stop [simp]:
  "k |\<in>| A \<Longrightarrow> chain infos A k = []" "fmlookup infos k = None \<Longrightarrow> chain infos A k = []"
  by (simp_all add: chain.simps)

lemma chain_Cons [simp]:
  "k |\<notin>| A \<Longrightarrow> fmlookup infos k = Some info \<Longrightarrow>
   chain infos A k = k # chain infos (finsert k A) (info_parent info)"
  by (subst chain.simps) simp

lemma chain_induct [case_names seen missing step]:
  assumes "\<And>A k. k |\<in>| A \<Longrightarrow> P A k" and "\<And>A k. k |\<notin>| A \<Longrightarrow> fmlookup infos k = None \<Longrightarrow> P A k"
    and "\<And>A k info. k |\<notin>| A \<Longrightarrow> fmlookup infos k = Some info \<Longrightarrow> P (finsert k A) (info_parent info) \<Longrightarrow> P A k"
  shows "P A k"
proof (induction "card (fmdom' infos - fset A)" arbitrary: A k rule: less_induct)
  case (less A k)
  show ?case
  proof (cases "k |\<in>| A")
    case False
    show ?thesis
    proof (cases "fmlookup infos k")
      case (Some info)
      have "card (fmdom' infos - fset (finsert k A)) < card (fmdom' infos - fset A)"
        using walk_measure [OF Some, of "fset A"] False by simp
      then have "P (finsert k A) (info_parent info)" by (rule less)
      with False Some show ?thesis by (rule assms(3))
    qed (rule assms(2) [OF False])
  qed (rule assms(1))
qed

lemma chain_set: "x \<in> set (chain infos A k) \<Longrightarrow> x |\<notin>| A \<and> x \<in> fmdom' infos"
  by (induction A k rule: chain_induct [of _ infos]) (auto intro: fmdom'I)

lemma chain_distinct: "distinct (chain infos A k)"
  by (induction A k rule: chain_induct [of _ infos]) (auto dest: chain_set)

lemma backwardsAncestry_chain: "backwardsAncestry infos anc k = anc @ chain infos (fset_of_list anc) k"
proof (induction "fset_of_list anc" k arbitrary: anc rule: chain_induct [of _ infos])
  case (step k info)
  then have "backwardsAncestry infos anc k = backwardsAncestry infos (anc @ [k]) (info_parent info)"
    by (subst backwardsAncestry.simps) (simp add: fset_of_list_elem)
  also have "\<dots> = anc @ k # chain infos (finsert k (fset_of_list anc)) (info_parent info)"
    using step(3) [of "anc @ [k]"] by (simp add: funion_commute)
  finally show ?case using step(1,2) by simp
qed (subst backwardsAncestry.simps, simp add: fset_of_list_elem)+

text \<open>The ancestry ends with the key itself and never repeats a key.\<close>

lemma getAncestry_chain: "getAncestry infos k = rev (chain infos {||} k)"
  by (simp add: getAncestry_def backwardsAncestry_chain)

section \<open>The walks in terms of the chain\<close>

fun numbered :: "(publicKey, u64) fmap \<Rightarrow> u64 \<Rightarrow> publicKey list \<Rightarrow> (publicKey, u64) fmap" where
  "numbered dists d [] = dists"
| "numbered dists d (k # ks) = numbered (fmupd k d dists) (d + 1) ks"

lemma numbered_other: "k \<notin> set ks \<Longrightarrow> fmlookup (numbered dists d ks) k = fmlookup dists k"
  by (induction ks arbitrary: dists d) auto

lemma numbered_nth: "distinct ks \<Longrightarrow> i < length ks \<Longrightarrow> fmlookup (numbered dists d ks) (ks ! i) = Some (d + of_nat i)"
proof (induction ks arbitrary: dists d i)
  case (Cons k ks)
  then show ?case by (cases i) (auto simp: numbered_other algebra_simps)
qed simp

lemma rootAndDists_loop_chain:
  "rootAndDists_loop infos root dists d k =
     (last (root # chain infos (fmdom dists) k), numbered dists d (chain infos (fmdom dists) k))"
proof (induction "fmdom dists" k arbitrary: dists d root rule: chain_induct [of _ infos])
  case (seen k)
  then show ?case by (subst rootAndDists_loop.simps) (auto simp: fmlookup_dom_iff split: option.splits)
next
  case (missing k)
  then show ?case by (subst rootAndDists_loop.simps) (auto simp: fmlookup_dom_iff split: option.splits)
next
  case (step k info)
  then have "fmlookup dists k = None" by (simp add: fmdom_notD)
  then have "rootAndDists_loop infos root dists d k
      = rootAndDists_loop infos k (fmupd k d dists) (d + 1) (info_parent info)"
    using step(2) by (subst rootAndDists_loop.simps) simp
  then show ?case using step(1,2) step(3) [of "fmupd k d dists" k "d + 1"] by simp
qed

lemma getRootAndDists_chain:
  "getRootAndDists infos k = (last (zeroKey # chain infos {||} k), numbered fmempty 0 (chain infos {||} k))"
  by (simp add: getRootAndDists_def rootAndDists_loop_chain)

lemma getRootAndDists_dom: "fmlookup (snd (getRootAndDists infos k)) x \<noteq> None \<longleftrightarrow> x \<in> set (chain infos {||} k)"
proof (cases "x \<in> set (chain infos {||} k)")
  case True
  then show ?thesis
    using numbered_nth [OF chain_distinct] by (fastforce simp: getRootAndDists_chain in_set_conv_nth)
qed (simp add: getRootAndDists_chain numbered_other)

section \<open>Paths to a root\<close>

text \<open>
  \<open>tpath infos k root ports\<close>: following parents from \<open>k\<close> ends at \<open>root\<close>, a node that is its own
  parent, and \<open>ports\<close> are the ports from the root down to \<open>k\<close>.
\<close>

inductive tpath :: "infos \<Rightarrow> publicKey \<Rightarrow> publicKey \<Rightarrow> u64 list \<Rightarrow> bool" for infos where
  tpath_root: "fmlookup infos k = Some info \<Longrightarrow> info_parent info = k \<Longrightarrow> tpath infos k k []"
| tpath_step: "fmlookup infos k = Some info \<Longrightarrow> info_parent info \<noteq> k \<Longrightarrow>
    tpath infos (info_parent info) root ports \<Longrightarrow> tpath infos k root (ports @ [info_port info])"

inductive_cases tpath_E: "tpath infos k root ports"

lemma tpath_det: "tpath infos k root ports \<Longrightarrow> tpath infos k root' ports' \<Longrightarrow> root' = root \<and> ports' = ports"
proof (induction arbitrary: root' ports' rule: tpath.induct)
  case (tpath_root k info)
  then show ?case by (auto elim: tpath_E)
next
  case (tpath_step k info root ports)
  from tpath_step.prems show ?case
  proof (cases rule: tpath.cases)
    case (tpath_step info' ports')
    then show ?thesis using tpath_step.IH tpath_step.hyps by auto
  qed (use tpath_step.hyps in auto)
qed

text \<open>A node met earlier on a walk is farther from the root than the node at hand.\<close>

definition farther :: "infos \<Rightarrow> publicKey fset \<Rightarrow> publicKey \<Rightarrow> nat \<Rightarrow> bool" where
  "farther infos A root n \<longleftrightarrow> (\<forall>x. x |\<in>| A \<longrightarrow> (\<exists>ps. tpath infos x root ps \<and> n < length ps))"

lemma farther_notin: "tpath infos k root ports \<Longrightarrow> farther infos A root (length ports) \<Longrightarrow> k |\<notin>| A"
  by (auto simp: farther_def dest: tpath_det)

lemma farther_step:
  assumes "tpath infos k root (ports @ [p])" "farther infos A root (Suc (length ports))"
  shows "farther infos (finsert k A) root (length ports)"
  using assms by (auto simp: farther_def intro: Suc_lessD)

lemma tpath_loop:
  "tpath infos k root ports \<Longrightarrow> farther infos A root (length ports) \<Longrightarrow>
   rootAndPath_loop infos acc A k = Some (root, acc @ rev ports)"
proof (induction arbitrary: A acc rule: tpath.induct)
  case (tpath_root k info)
  then have "k |\<notin>| A" using farther_notin tpath.tpath_root by fastforce
  then show ?case using tpath_root by (subst rootAndPath_loop.simps) simp
next
  case (tpath_step k info root ports)
  then have t: "tpath infos k root (ports @ [info_port info])" by (intro tpath.tpath_step)
  then have "k |\<notin>| A" using farther_notin tpath_step.prems by blast
  moreover have "farther infos (finsert k A) root (length ports)"
    using farther_step [OF t] tpath_step.prems by simp
  ultimately show ?case
    using tpath_step.IH [of "finsert k A" "acc @ [info_port info]"] tpath_step.hyps
    by (subst rootAndPath_loop.simps) auto
qed

lemma loop_tpath:
  "rootAndPath_loop infos acc A k = Some (root, acc') \<Longrightarrow> \<exists>ports. tpath infos k root ports \<and> acc' = acc @ rev ports"
proof (induction A k arbitrary: acc rule: chain_induct [of _ infos])
  case (step A k info)
  show ?case
  proof (cases "info_parent info = k")
    case True
    then show ?thesis
      using step(1,2,4) by (subst (asm) rootAndPath_loop.simps) (auto intro: tpath.tpath_root)
  next
    case False
    then have "rootAndPath_loop infos (acc @ [info_port info]) (finsert k A) (info_parent info) = Some (root, acc')"
      using step(1,2,4) by (subst (asm) rootAndPath_loop.simps) auto
    then obtain ports where "tpath infos (info_parent info) root ports" "acc' = acc @ [info_port info] @ rev ports"
      using step(3) [of "acc @ [info_port info]"] by auto
    then show ?thesis
      using tpath.tpath_step [OF step(2) False] by (intro exI [of _ "ports @ [info_port info]"]) auto
  qed
qed (subst (asm) rootAndPath_loop.simps, simp)+

lemma getRootAndPath_tpath: "tpath infos k root ports \<Longrightarrow> getRootAndPath infos k = (root, ports)"
  using tpath_loop [of infos k root ports "{||}" "[]"] by (simp add: getRootAndPath_def farther_def)

lemma getRootAndPath_no_tpath: "(\<nexists>root ports. tpath infos k root ports) \<Longrightarrow> getRootAndPath infos k = (k, [])"
  using loop_tpath [of infos "[]" "{||}" k]
  by (cases "rootAndPath_loop infos [] {||} k") (auto simp: getRootAndPath_def)

lemma tpath_chain:
  "tpath infos k root ports \<Longrightarrow> farther infos A root (length ports) \<Longrightarrow>
   \<exists>ns. chain infos A k = ns @ [root] \<and> length ns = length ports"
proof (induction arbitrary: A rule: tpath.induct)
  case (tpath_root k info)
  then have "k |\<notin>| A" using farther_notin tpath.tpath_root by fastforce
  then show ?case using tpath_root by simp
next
  case (tpath_step k info root ports)
  then have t: "tpath infos k root (ports @ [info_port info])" by (intro tpath.tpath_step)
  then have "k |\<notin>| A" using farther_notin tpath_step.prems by blast
  moreover obtain ns where "chain infos (finsert k A) (info_parent info) = ns @ [root]" "length ns = length ports"
    using tpath_step.IH farther_step [OF t] tpath_step.prems by auto
  ultimately show ?case
    using tpath_step.hyps(1) by (intro exI [of _ "k # ns"]) simp
qed

lemma tpath_dists:
  assumes "tpath infos k root ports"
  shows "fst (getRootAndDists infos k) = root"
    and "fmlookup (snd (getRootAndDists infos k)) root = Some (of_nat (length ports))"
proof -
  obtain ns where ns: "chain infos {||} k = ns @ [root]" "length ns = length ports"
    using tpath_chain [OF assms, of "{||}"] by (auto simp: farther_def)
  show "fst (getRootAndDists infos k) = root"
    by (simp add: getRootAndDists_chain ns)
  show "fmlookup (snd (getRootAndDists infos k)) root = Some (of_nat (length ports))"
    using numbered_nth [OF chain_distinct [of infos "{||}" k], of "length ns" fmempty 0] ns
      nth_append_length [of ns root "[]"] by (simp add: getRootAndDists_chain)
qed

section \<open>Distance in tree space\<close>

text \<open>\<^verbatim>\<open>_getDist\<close> once the path of the key is known: the loop over the common prefix.\<close>

fun dist_loop :: "u64 \<Rightarrow> u64 list \<Rightarrow> u64 list \<Rightarrow> u64" where
  "dist_loop dist (p # ps) (q # qs) = (if p = q then dist_loop (dist - 2) ps qs else dist)"
| "dist_loop dist _ _ = dist"

definition pathDist :: "u64 list \<Rightarrow> u64 list \<Rightarrow> u64" where
  "pathDist keyPath destPath = dist_loop (of_nat (length keyPath + length destPath)) keyPath destPath"

fun lcp :: "'a list \<Rightarrow> 'a list \<Rightarrow> nat" where
  "lcp (p # ps) (q # qs) = (if p = q then Suc (lcp ps qs) else 0)"
| "lcp _ _ = 0"

definition tdist :: "'a list \<Rightarrow> 'a list \<Rightarrow> nat" where
  "tdist ps qs = length ps + length qs - 2 * lcp ps qs"

lemma lcp_le: "lcp ps qs \<le> length ps" "lcp ps qs \<le> length qs"
  by (induction ps qs rule: lcp.induct) auto

lemma lcp_sym: "lcp ps qs = lcp qs ps"
  by (induction ps qs rule: lcp.induct) auto

lemma lcp_full: "lcp ps qs = length ps \<Longrightarrow> lcp ps qs = length qs \<Longrightarrow> ps = qs"
  by (induction ps qs rule: lcp.induct) (auto split: if_splits)

lemma lcp_self [simp]: "lcp ps ps = length ps"
  by (induction ps) auto

lemma lcp_between: "min (lcp ps qs) (lcp qs rs) \<le> lcp ps rs"
proof (induction ps qs arbitrary: rs rule: lcp.induct)
  case (1 p ps q qs)
  show ?case
  proof (cases rs)
    case (Cons r rs')
    then show ?thesis using 1 [of rs'] by auto
  qed simp
qed auto

lemma dist_loop_lcp: "dist_loop d ps qs = d - of_nat (2 * lcp ps qs)"
  by (induction d ps qs rule: dist_loop.induct) (auto simp: algebra_simps)

text \<open>As long as the lengths fit in 64 bits, the computed distance is the number of tree edges.\<close>

lemma unat_pathDist:
  assumes "length ps + length qs < 2 ^ 64"
  shows "unat (pathDist ps qs) = tdist ps qs"
proof -
  have le: "2 * lcp ps qs \<le> length ps + length qs" using lcp_le [of ps qs] by simp
  have "pathDist ps qs = of_nat (length ps + length qs) - of_nat (2 * lcp ps qs)"
    by (simp add: pathDist_def dist_loop_lcp)
  also have "\<dots> = of_nat (length ps + length qs - 2 * lcp ps qs)"
    using le by (simp only: of_nat_diff)
  finally show ?thesis
    using assms by (simp add: tdist_def unat_of_nat)
qed

lemma tdist_0_iff: "tdist ps qs = 0 \<longleftrightarrow> ps = qs"
proof
  assume "tdist ps qs = 0"
  then have "length ps + length qs \<le> 2 * lcp ps qs" by (simp add: tdist_def)
  then show "ps = qs" using lcp_le [of ps qs] by (intro lcp_full) auto
qed (simp add: tdist_def)

lemma tdist_sym: "tdist ps qs = tdist qs ps"
  by (simp add: tdist_def lcp_sym [of ps qs])

lemma tdist_triangle: "tdist ps rs \<le> tdist ps qs + tdist qs rs"
  using lcp_between [of ps qs rs] lcp_le [of ps qs] lcp_le [of qs rs] lcp_le [of ps rs]
  by (auto simp: tdist_def min_def split: if_splits)

text \<open>Going to the parent changes the distance by one, either way.\<close>

lemma lcp_snoc:
  "lcp (ps @ [p]) qs = (if lcp ps qs = length ps \<and> length ps < length qs \<and> qs ! length ps = p
                        then Suc (length ps) else lcp ps qs)"
proof (induction ps arbitrary: qs)
  case Nil
  then show ?case by (cases qs) auto
next
  case (Cons a ps)
  then show ?case by (cases qs) auto
qed

lemma tdist_parent:
  "tdist (ps @ [p]) qs = (if lcp ps qs = length ps \<and> length ps < length qs \<and> qs ! length ps = p
                          then tdist ps qs - 1 else tdist ps qs + 1)"
  using lcp_le [of ps qs] by (auto simp: tdist_def lcp_snoc)

end
