(* ===== verification/Bloom.thy ===== *)
theory Bloom
  imports Messages
begin

text \<open>
  The bloom filters of \<^verbatim>\<open>network/bloomfilter.go\<close>: the compressed wire format of a filter's backing
  array, and the filter operations of the \<^verbatim>\<open>bits-and-blooms\<close> package, which are a parameter
  \<open>bfilter\<close> with its documented behaviour in \<open>bfilter_laws\<close>. A filter is represented by its backing
  array of 64-bit words.
\<close>

definition bloomFilterF :: nat where "bloomFilterF = 16"
definition bloomFilterU :: nat where "bloomFilterU = bloomFilterF * 8"
definition bloomFilterB :: nat where "bloomFilterB = bloomFilterU * 8"
definition bloomFilterM :: nat where "bloomFilterM = bloomFilterB * 8"
definition bloomFilterK :: nat where "bloomFilterK = 8"

lemma bloom_sizes [simp]: "bloomFilterF = 16" "bloomFilterU = 128"
  by (simp_all add: bloomFilterF_def bloomFilterU_def)

type_synonym bloom = "u64 list"

abbreviation wf_bloom :: "bloom \<Rightarrow> bool" where
  "wf_bloom b \<equiv> length b = bloomFilterU"

section \<open>The wire format\<close>

text \<open>\<^verbatim>\<open>0x80 >> (idx % 8)\<close>, the flag of a word in its byte.\<close>

definition flag_mask :: "nat \<Rightarrow> byte" where
  "flag_mask idx = drop_bit (idx mod 8) 0x80"

definition bloom_size :: "bloom \<Rightarrow> nat" where
  "bloom_size us = foldl (\<lambda>n u. if u \<noteq> 0 \<and> u \<noteq> - 1 then n + 8 else n) (bloomFilterF + bloomFilterF) us"

text \<open>The first loop of \<^verbatim>\<open>encode\<close>; writing a flag out of range of its array panics.\<close>

fun bloom_flags :: "nat \<Rightarrow> u64 list \<Rightarrow> bytes \<Rightarrow> bytes \<Rightarrow> u64 list \<Rightarrow> (bytes \<times> bytes \<times> u64 list) go" where
  "bloom_flags idx [] flags0 flags1 keep = Ok (flags0, flags1, keep)"
| "bloom_flags idx (u # us) flags0 flags1 keep =
     (if u = 0 then
        go_bind (go_at flags0 (idx div 8)) (\<lambda>f.
          bloom_flags (idx + 1) us (flags0[idx div 8 := f OR flag_mask idx]) flags1 keep)
      else if u = - 1 then
        go_bind (go_at flags1 (idx div 8)) (\<lambda>f.
          bloom_flags (idx + 1) us flags0 (flags1[idx div 8 := f OR flag_mask idx]) keep)
      else bloom_flags (idx + 1) us flags0 flags1 (keep @ [u]))"

definition bloom_encode :: "bloom \<Rightarrow> bytes \<Rightarrow> bytes go" where
  "bloom_encode b out =
     go_bind (bloom_flags 0 b (replicate bloomFilterF 0) (replicate bloomFilterF 0) [])
       (\<lambda>(flags0, flags1, keep).
          checked_append out (foldl (\<lambda>out u. out @ be64 u) (out @ flags0 @ flags1) keep) (bloom_size b))"

text \<open>The loop of \<^verbatim>\<open>decode\<close> from index \<open>idx\<close> on.\<close>

function bloom_words :: "nat \<Rightarrow> bytes \<Rightarrow> bytes \<Rightarrow> bytes \<Rightarrow> u64 list \<Rightarrow> (u64 list \<times> bytes) option" where
  "bloom_words idx flags0 flags1 data us =
     (if idx < bloomFilterU then
        let flag0 = flags0 ! (idx div 8) AND flag_mask idx;
            flag1 = flags1 ! (idx div 8) AND flag_mask idx
        in if flag0 \<noteq> 0 \<and> flag1 \<noteq> 0 then None
           else if flag0 \<noteq> 0 then bloom_words (idx + 1) flags0 flags1 data (us @ [0])
           else if flag1 \<noteq> 0 then bloom_words (idx + 1) flags0 flags1 data (us @ [- 1])
           else if 8 \<le> length data then
             bloom_words (idx + 1) flags0 flags1 (drop 8 data) (us @ [unbe 0 (take 8 data)])
           else None
      else Some (us, data))"
  by pat_completeness auto
termination
  by (relation "measure (\<lambda>(idx, _). bloomFilterU - idx)") auto

declare bloom_words.simps [simp del]

definition bloom_decode :: "bytes \<Rightarrow> iw_error + bloom" where
  "bloom_decode data = decoded (do {
     (flags0, data) \<leftarrow> wireChopSlice bloomFilterF data;
     (flags1, data) \<leftarrow> wireChopSlice bloomFilterF data;
     (us, data) \<leftarrow> bloom_words 0 flags0 flags1 data [];
     if data \<noteq> [] then None else Some us })"

section \<open>Round trip\<close>

definition flagged :: "bytes \<Rightarrow> nat \<Rightarrow> bool" where
  "flagged flags k \<longleftrightarrow> flags ! (k div 8) AND flag_mask k \<noteq> 0"

lemma flag_mask_bit: "bit (flag_mask k) n \<longleftrightarrow> n = 7 - k mod 8"
proof -
  have b: "bit (2 ^ 7 :: byte) m \<longleftrightarrow> m = 7" for m
    by (simp only: bit_exp_iff possible_bit_word) auto
  have m: "k mod 8 < 8" by simp
  have "flag_mask k = drop_bit (k mod 8) (2 ^ 7)" by (simp add: flag_mask_def)
  then have "bit (flag_mask k) n \<longleftrightarrow> k mod 8 + n = 7"
    by (simp only: bit_drop_bit_eq comp_apply b)
  then show ?thesis using m by linarith
qed

lemma flag_mask_and: "b AND flag_mask k \<noteq> 0 \<longleftrightarrow> bit b (7 - k mod 8)"
proof -
  have "b AND flag_mask k \<noteq> 0 \<longleftrightarrow> (\<exists>n. bit (b AND flag_mask k) n)"
    by (metis bit_0_eq bit_eqI bot_apply bot_bool_def)
  then show ?thesis by (simp add: bit_and_iff flag_mask_bit)
qed

lemma flagged_set:
  assumes "i div 8 < length flags" "k div 8 < length flags"
  shows "flagged (flags[i div 8 := flags ! (i div 8) OR flag_mask i]) k \<longleftrightarrow> k = i \<or> flagged flags k"
proof -
  have inj: "k = i" if "k div 8 = i div 8" "7 - k mod 8 = 7 - i mod 8"
  proof -
    have "k mod 8 < 8" "i mod 8 < 8" by simp_all
    then have "k mod 8 = i mod 8" using that(2) by linarith
    then show ?thesis using that(1) by (metis div_mult_mod_eq)
  qed
  show ?thesis
  proof (cases "k div 8 = i div 8")
    case True
    then have "flagged (flags[i div 8 := flags ! (i div 8) OR flag_mask i]) k
        \<longleftrightarrow> bit (flags ! (i div 8)) (7 - k mod 8) \<or> 7 - k mod 8 = 7 - i mod 8"
      using assms by (simp only: flagged_def flag_mask_and nth_list_update_eq bit_or_iff flag_mask_bit)
    moreover have "flagged flags k \<longleftrightarrow> bit (flags ! (i div 8)) (7 - k mod 8)"
      using True by (simp only: flagged_def flag_mask_and)
    ultimately show ?thesis using inj True by blast
  next
    case False
    then have "flagged (flags[i div 8 := flags ! (i div 8) OR flag_mask i]) k \<longleftrightarrow> flagged flags k"
      by (simp add: flagged_def)
    then show ?thesis using False by blast
  qed
qed

lemma flagged_zero: "k div 8 < n \<Longrightarrow> \<not> flagged (replicate n 0) k"
  by (simp add: flagged_def)

lemma bloom_flags_spec:
  assumes "idx + length us \<le> 128" "length f0 = 16" "length f1 = 16"
  shows "\<exists>f0' f1'. bloom_flags idx us f0 f1 keep = Ok (f0', f1', keep @ filter (\<lambda>u. u \<noteq> 0 \<and> u \<noteq> - 1) us)
     \<and> length f0' = 16 \<and> length f1' = 16
     \<and> (\<forall>k<128. flagged f0' k \<longleftrightarrow> flagged f0 k \<or> (idx \<le> k \<and> k < idx + length us \<and> us ! (k - idx) = 0))
     \<and> (\<forall>k<128. flagged f1' k \<longleftrightarrow> flagged f1 k \<or> (idx \<le> k \<and> k < idx + length us \<and> us ! (k - idx) = - 1))"
  using assms
proof (induction us arbitrary: idx f0 f1 keep)
  case Nil
  then show ?case by auto
next
  case (Cons u us)
  have i: "idx div 8 < 16" using Cons.prems by simp
  let ?f0 = "if u = 0 then f0[idx div 8 := f0 ! (idx div 8) OR flag_mask idx] else f0"
  let ?f1 = "if u = - 1 then f1[idx div 8 := f1 ! (idx div 8) OR flag_mask idx] else f1"
  let ?keep = "if u \<noteq> 0 \<and> u \<noteq> - 1 then keep @ [u] else keep"
  have step: "bloom_flags idx (u # us) f0 f1 keep = bloom_flags (idx + 1) us ?f0 ?f1 ?keep"
    using i Cons.prems by simp
  have F0: "flagged ?f0 k \<longleftrightarrow> flagged f0 k \<or> (k = idx \<and> u = 0)" if "k < 128" for k
    using flagged_set [of idx f0 k] that i Cons.prems(2) by (cases "u = 0") auto
  have F1: "flagged ?f1 k \<longleftrightarrow> flagged f1 k \<or> (k = idx \<and> u = - 1)" if "k < 128" for k
    using flagged_set [of idx f1 k] that i Cons.prems(3) by (cases "u = - 1") auto
  have shift: "(idx + 1 \<le> k \<and> k < idx + 1 + length us \<and> us ! (k - (idx + 1)) = w) \<or> (k = idx \<and> u = w)
      \<longleftrightarrow> idx \<le> k \<and> k < idx + length (u # us) \<and> (u # us) ! (k - idx) = w" for k w
  proof (cases "k = idx")
    case False
    then have "(u # us) ! (k - idx) = us ! (k - (idx + 1))" if "idx \<le> k" using that by (simp add: nth_Cons')
    then show ?thesis using False by auto
  qed simp
  have pre: "idx + 1 + length us \<le> 128" "length ?f0 = 16" "length ?f1 = 16"
    using Cons.prems by auto
  obtain f0' f1' where IH: "bloom_flags (idx + 1) us ?f0 ?f1 ?keep
        = Ok (f0', f1', ?keep @ filter (\<lambda>u. u \<noteq> 0 \<and> u \<noteq> - 1) us)" "length f0' = 16" "length f1' = 16"
      "\<forall>k<128. flagged f0' k \<longleftrightarrow> flagged ?f0 k \<or> (idx + 1 \<le> k \<and> k < idx + 1 + length us \<and> us ! (k - (idx + 1)) = 0)"
      "\<forall>k<128. flagged f1' k \<longleftrightarrow> flagged ?f1 k \<or> (idx + 1 \<le> k \<and> k < idx + 1 + length us \<and> us ! (k - (idx + 1)) = - 1)"
    using Cons.IH [OF pre, of ?keep] by blast
  have G0: "\<forall>k<128. flagged f0' k \<longleftrightarrow> flagged f0 k \<or> (idx \<le> k \<and> k < idx + length (u # us) \<and> (u # us) ! (k - idx) = 0)"
    using IH(4) F0 shift [of _ 0] by metis
  have G1: "\<forall>k<128. flagged f1' k \<longleftrightarrow> flagged f1 k \<or> (idx \<le> k \<and> k < idx + length (u # us) \<and> (u # us) ! (k - idx) = - 1)"
    using IH(5) F1 shift [of _ "- 1"] by metis
  have "?keep @ filter (\<lambda>u. u \<noteq> 0 \<and> u \<noteq> - 1) us = keep @ filter (\<lambda>u. u \<noteq> 0 \<and> u \<noteq> - 1) (u # us)" by simp
  then show ?case
    unfolding step using IH(1-3) G0 G1 by (intro exI [of _ f0'] exI [of _ f1']) (simp only: simp_thms)
qed

lemma bloom_words_spec:
  assumes "idx + length rest = 128" "length f0 = 16" "length f1 = 16"
    and "\<forall>k<128. idx \<le> k \<longrightarrow> (flagged f0 k \<longleftrightarrow> rest ! (k - idx) = 0) \<and> (flagged f1 k \<longleftrightarrow> rest ! (k - idx) = - 1)"
  shows "bloom_words idx f0 f1 (concat (map be64 (filter (\<lambda>u. u \<noteq> 0 \<and> u \<noteq> - 1) rest))) us = Some (us @ rest, [])"
  using assms
proof (induction rest arbitrary: idx us)
  case Nil
  then show ?case by (simp add: bloom_words.simps)
next
  case (Cons u rest)
  have i: "idx < bloomFilterU" using Cons.prems by simp
  have fl: "flagged f0 idx \<longleftrightarrow> u = 0" "flagged f1 idx \<longleftrightarrow> u = - 1"
    using Cons.prems(1) Cons.prems(4) [rule_format, of idx] by simp_all
  have tl: "\<forall>k<128. idx + 1 \<le> k \<longrightarrow> (flagged f0 k \<longleftrightarrow> rest ! (k - (idx + 1)) = 0)
      \<and> (flagged f1 k \<longleftrightarrow> rest ! (k - (idx + 1)) = - 1)"
  proof (intro allI impI)
    fix k assume k: "k < 128" "idx + 1 \<le> k"
    then have "(u # rest) ! (k - idx) = rest ! (k - (idx + 1))" by (simp add: nth_Cons')
    then show "(flagged f0 k \<longleftrightarrow> rest ! (k - (idx + 1)) = 0) \<and> (flagged f1 k \<longleftrightarrow> rest ! (k - (idx + 1)) = - 1)"
      using Cons.prems(4) [rule_format, of k] k by simp
  qed
  have IH: "bloom_words (idx + 1) f0 f1 (concat (map be64 (filter (\<lambda>u. u \<noteq> 0 \<and> u \<noteq> - 1) rest))) us' = Some (us' @ rest, [])" for us'
    using Cons.IH [OF _ Cons.prems(2,3) tl] Cons.prems(1) by simp
  show ?case
    using fl IH i by (subst bloom_words.simps) (auto simp: flagged_def Let_def)
qed

lemma bloom_words_length:
  "bloom_words idx f0 f1 data us = Some (us', data') \<Longrightarrow> length us = idx \<Longrightarrow> idx \<le> 128 \<Longrightarrow> length us' = 128"
proof (induction "128 - idx" arbitrary: idx data us rule: less_induct)
  case less
  show ?case
  proof (cases "idx < 128")
    case True
    then obtain w data1 where "bloom_words (idx + 1) f0 f1 data1 (us @ [w]) = Some (us', data')"
      using less.prems(1) by (subst (asm) bloom_words.simps) (auto simp: Let_def split: if_splits)
    then show ?thesis using less.hyps [of "idx + 1"] less.prems(2) True by simp
  next
    case False
    then show ?thesis using less.prems by (subst (asm) bloom_words.simps) simp
  qed
qed

lemma bloom_size_eq: "bloom_size us = 32 + 8 * length (filter (\<lambda>u. u \<noteq> 0 \<and> u \<noteq> - 1) us)"
proof -
  have "foldl (\<lambda>n u. if u \<noteq> 0 \<and> u \<noteq> - 1 then n + 8 else n) m us
      = m + 8 * length (filter (\<lambda>u. u \<noteq> 0 \<and> u \<noteq> - 1) us)" for m :: nat
    by (induction us arbitrary: m) auto
  then show ?thesis by (simp add: bloom_size_def)
qed

lemma foldl_be64: "foldl (\<lambda>out u. out @ be64 u) out keep = out @ concat (map be64 keep)"
  by (induction keep arbitrary: out) auto

lemma length_concat_be64: "length (concat (map be64 us)) = 8 * length us"
  by (induction us) auto

interpretation bloom: wire_codec bloom_size bloom_encode bloom_decode wf_bloom
proof (unfold_locales, goal_cases)
  case (1 us)
  let ?kept = "filter (\<lambda>u. u \<noteq> 0 \<and> u \<noteq> - 1) us"
  obtain f0 f1 where f: "bloom_flags 0 us (replicate 16 0) (replicate 16 0) [] = Ok (f0, f1, ?kept)"
      "length f0 = 16" "length f1 = 16"
      "\<forall>k<128. flagged f0 k \<longleftrightarrow> us ! k = 0" "\<forall>k<128. flagged f1 k \<longleftrightarrow> us ! k = - 1"
    using bloom_flags_spec [of 0 us "replicate 16 0" "replicate 16 0" "[]"] 1
    by (auto simp: flagged_zero)
  have "bloom_words 0 f0 f1 (concat (map be64 ?kept)) [] = Some (us, [])"
    using bloom_words_spec [of 0 us f0 f1 "[]"] 1 f by simp
  then show ?case
    using f 1 by (intro exI [of _ "f0 @ f1 @ concat (map be64 ?kept)"])
      (simp add: bloom_encode_def bloom_decode_def foldl_be64 bloom_size_eq length_concat_be64
        checked_append_def)
next
  case (2 bs us)
  then show ?case
    by (auto simp: bloom_decode_def split: bind_splits if_splits; auto dest: bloom_words_length)
qed

lemma bloom_size_bounds: "wf_bloom b \<Longrightarrow> 32 \<le> bloom_size b \<and> bloom_size b \<le> 1056"
  using length_filter_le [of "\<lambda>u. u \<noteq> 0 \<and> u \<noteq> - 1" b] by (simp add: bloom_size_eq)

section \<open>The filter package\<close>

record bfilter =
  bf_add :: "bloom \<Rightarrow> bytes \<Rightarrow> bloom"
  bf_merge :: "bloom \<Rightarrow> bloom \<Rightarrow> bloom"
  bf_test :: "bloom \<Rightarrow> bytes \<Rightarrow> bool"

text \<open>
  The documented behaviour: a filter keeps its size, a key that was added is found, and adding a key
  or merging another filter in never loses a key.
\<close>

definition bfilter_laws :: "bfilter \<Rightarrow> bool" where
  "bfilter_laws bf \<longleftrightarrow>
     (\<forall>f k. wf_bloom f \<longrightarrow> wf_bloom (bf_add bf f k) \<and> bf_test bf (bf_add bf f k) k)
   \<and> (\<forall>f g k. wf_bloom f \<and> wf_bloom g \<longrightarrow> wf_bloom (bf_merge bf f g)
        \<and> (bf_test bf f k \<or> bf_test bf g k \<longrightarrow> bf_test bf (bf_merge bf f g) k))"

definition newBloom :: bloom where
  "newBloom = replicate bloomFilterU 0"

definition addKey :: "bfilter \<Rightarrow> bloom \<Rightarrow> publicKey \<Rightarrow> bloom" where
  "addKey bf b key = bf_add bf b key"

definition addFilter :: "bfilter \<Rightarrow> bloom \<Rightarrow> bloom \<Rightarrow> bloom" where
  "addFilter bf b f = bf_merge bf b f"

lemma wf_newBloom [simp]: "wf_bloom newBloom"
  by (simp add: newBloom_def)

lemma addKey_laws:
  "bfilter_laws bf \<Longrightarrow> wf_bloom b \<Longrightarrow> wf_bloom (addKey bf b k) \<and> bf_test bf (addKey bf b k) k"
  by (simp add: bfilter_laws_def addKey_def)

lemma addFilter_laws:
  assumes "bfilter_laws bf" "wf_bloom b" "wf_bloom f"
  shows "wf_bloom (addFilter bf b f)" "bf_test bf b k \<Longrightarrow> bf_test bf (addFilter bf b f) k"
    "bf_test bf f k \<Longrightarrow> bf_test bf (addFilter bf b f) k"
  using assms by (simp_all add: bfilter_laws_def addFilter_def)

text \<open>A filter with one hash, the first byte of the key, that obeys the laws.\<close>

definition sample_slot :: "bytes \<Rightarrow> nat" where
  "sample_slot k = (case k of [] \<Rightarrow> 0 | b # _ \<Rightarrow> unat b mod 64)"

definition sample_bf :: bfilter where
  "sample_bf = \<lparr>bf_add = (\<lambda>f k. f[0 := set_bit (sample_slot k) (f ! 0)]),
     bf_merge = map2 (OR), bf_test = (\<lambda>f k. bit (f ! 0) (sample_slot k))\<rparr>"

lemma sample_slot_less: "sample_slot k < 64"
  by (simp add: sample_slot_def split: list.splits)

lemma sample_bf_laws: "bfilter_laws sample_bf"
  using sample_slot_less by (auto simp: bfilter_laws_def sample_bf_def bit_set_bit_iff bit_or_iff)

end
