(* ===== verification/Router.thy ===== *)
theory Router
  imports Tree Bloom "HOL-Library.Signed_Division" "HOL-Library.List_Lexorder"
    "HOL-Library.Product_Lexorder"
begin

text \<open>
  The router actor of \<^verbatim>\<open>network/router.go\<close> and the bloom filter table it owns
  (\<^verbatim>\<open>network/bloomfilter.go\<close>): its state, one definition per handler, and the list of messages each
  handler sends. The order in which Go visits a map is an argument (\<open>orders\<close>), one order per loop of
  the code, so a theorem for all orders covers every run. Random nonces and measured round-trip
  times are arguments as well. A timer is a number, and its firing an event.
\<close>

section \<open>State\<close>

text \<open>A \<^verbatim>\<open>*peer\<close> as the router sees it; \<open>p_order\<close> is unique and stands for the identity of the object.\<close>

record peer =
  p_key :: publicKey
  p_port :: u64
  p_prio :: byte
  p_order :: u64

definition peer_tuple :: "'a peer_scheme \<Rightarrow> publicKey \<times> u64 \<times> byte \<times> u64 \<times> 'a" where
  "peer_tuple p = (p_key p, p_port p, p_prio p, p_order p, peer.more p)"

instantiation peer_ext :: (linorder) linorder
begin

definition less_eq_peer_ext :: "'a peer_scheme \<Rightarrow> 'a peer_scheme \<Rightarrow> bool" where
  "less_eq_peer_ext p q \<longleftrightarrow> peer_tuple p \<le> peer_tuple q"

definition less_peer_ext :: "'a peer_scheme \<Rightarrow> 'a peer_scheme \<Rightarrow> bool" where
  "less_peer_ext p q \<longleftrightarrow> peer_tuple p < peer_tuple q"

instance
proof
  fix p q r :: "'a peer_scheme"
  show "p < q \<longleftrightarrow> p \<le> q \<and> \<not> q \<le> p" "p \<le> p" "p \<le> q \<or> q \<le> p"
    by (auto simp: less_eq_peer_ext_def less_peer_ext_def)
  show "p \<le> q \<Longrightarrow> q \<le> r \<Longrightarrow> p \<le> r"
    unfolding less_eq_peer_ext_def by (rule order_trans)
  assume "p \<le> q" "q \<le> p"
  then have "peer_tuple p = peer_tuple q"
    unfolding less_eq_peer_ext_def by (rule order_antisym)
  then show "p = q" by (simp add: peer_tuple_def)
qed

end

record bloomInfo =
  bi_send :: bloom
  bi_recv :: bloom
  bi_seq :: u16
  bi_onTree :: bool
  bi_zDirty :: bool

record router =
  r_peers :: "(publicKey, peer fset) fmap"
  r_sent :: "(publicKey, publicKey fset) fmap"
  r_ports :: "(u64, publicKey) fmap"
  r_infos :: infos
  r_timers :: "(publicKey, nat) fmap"
  r_ancs :: "(publicKey, publicKey list) fmap"
  r_cache :: "(publicKey, u64 list) fmap"
  r_lags :: "(peer, int) fmap"
  r_requests :: "(publicKey, routerSigReq) fmap"
  r_responses :: "(publicKey, routerSigRes) fmap"
  r_responded :: "peer fset"
  r_resSeqs :: "(publicKey, u64) fmap"
  r_resSeqCtr :: u64
  r_refresh :: bool
  r_doRoot1 :: bool
  r_doRoot2 :: bool
  r_mainTimer :: bool
  r_blooms :: "(publicKey, bloomInfo) fmap"
  r_nextTimer :: nat

text \<open>What the node is configured with: its key pair, the primitives, and \<^verbatim>\<open>bloomTransform\<close>.\<close>

record env =
  e_ed :: ed25519
  e_crypto :: crypto
  e_bf :: bfilter
  e_transform :: "bytes \<Rightarrow> bytes"

abbreviation self_key :: "env \<Rightarrow> publicKey" where
  "self_key e \<equiv> c_publicKey (e_crypto e)"

text \<open>The loops over maps, and the order each of them takes.\<close>

datatype map_loop = LAddPeer | LRemovePeer | LSendReqs | LUpdateAncestries | LFix | LSendAnnounces | LLookup
  | LFixOnTree | LGetBloomFor | LSendAllBlooms | LSendMulticast

record orders =
  o_keys :: "map_loop \<Rightarrow> publicKey fset \<Rightarrow> publicKey list"
  o_peers :: "map_loop \<Rightarrow> peer fset \<Rightarrow> peer list"

definition orders_ok :: "orders \<Rightarrow> bool" where
  "orders_ok ord \<longleftrightarrow> (\<forall>l S. distinct (o_keys ord l S) \<and> set (o_keys ord l S) = fset S)
     \<and> (\<forall>l S. distinct (o_peers ord l S) \<and> set (o_peers ord l S) = fset S)"

text \<open>The ascending order is one of them.\<close>

definition sorted_orders :: orders where
  "sorted_orders = \<lparr>o_keys = (\<lambda>_. sorted_list_of_fset), o_peers = (\<lambda>_. sorted_list_of_fset)\<rparr>"

lemma sorted_orders_ok: "orders_ok sorted_orders"
  by (simp add: orders_ok_def sorted_orders_def sorted_list_of_fset.rep_eq)

text \<open>What a handler sends, and to which peer; \<open>MQueued\<close> goes through the peer's packet queue.\<close>

datatype msg = MSigReq routerSigReq | MSigRes routerSigRes | MAnnounce routerAnnounce | MBloom bloom
  | MQueued pqPacket

type_synonym outs = "(peer \<times> msg) list"

text \<open>Reading a Go map gives the zero value where the key is missing.\<close>

definition zeroReq :: routerSigReq where
  "zeroReq = \<lparr>req_seq = 0, req_nonce = 0\<rparr>"

definition zeroInfo :: routerInfo where
  "zeroInfo = \<lparr>info_parent = zeroKey,
     info_res = \<lparr>res_req = zeroReq, res_port = 0, res_psig = replicate signatureSize 0\<rparr>,
     info_sig = replicate signatureSize 0\<rparr>"

definition get :: "'b \<Rightarrow> ('a, 'b) fmap \<Rightarrow> 'a \<Rightarrow> 'b" where
  "get zero m k = (case fmlookup m k of None \<Rightarrow> zero | Some v \<Rightarrow> v)"

abbreviation peers_of :: "router \<Rightarrow> publicKey \<Rightarrow> peer fset" where
  "peers_of r k \<equiv> get {||} (r_peers r) k"

abbreviation self_info :: "env \<Rightarrow> router \<Rightarrow> routerInfo" where
  "self_info e r \<equiv> get zeroInfo (r_infos r) (self_key e)"

text \<open>\<^verbatim>\<open>init\<close>; the first maintenance runs right after it.\<close>

definition router_init :: router where
  "router_init = \<lparr>r_peers = fmempty, r_sent = fmempty, r_ports = fmempty, r_infos = fmempty,
     r_timers = fmempty, r_ancs = fmempty, r_cache = fmempty, r_lags = fmempty, r_requests = fmempty,
     r_responses = fmempty, r_responded = {||}, r_resSeqs = fmempty, r_resSeqCtr = 0, r_refresh = False,
     r_doRoot1 = False, r_doRoot2 = True, r_mainTimer = True, r_blooms = fmempty, r_nextTimer = 0\<rparr>"

section \<open>Bloom filter table\<close>

definition isOnTree :: "router \<Rightarrow> publicKey \<Rightarrow> bool" where
  "isOnTree r key = (case fmlookup (r_blooms r) key of None \<Rightarrow> False | Some bi \<Rightarrow> bi_onTree bi)"

definition xKey :: "env \<Rightarrow> publicKey \<Rightarrow> publicKey" where
  "xKey e key = array_of publicKeySize (e_transform e key)"

definition addInfo :: "router \<Rightarrow> publicKey \<Rightarrow> router" where
  "addInfo r key = r\<lparr>r_blooms := fmupd key
     \<lparr>bi_send = newBloom, bi_recv = newBloom, bi_seq = 0, bi_onTree = False, bi_zDirty = False\<rparr> (r_blooms r)\<rparr>"

definition removeInfo :: "router \<Rightarrow> publicKey \<Rightarrow> router" where
  "removeInfo r key = r\<lparr>r_blooms := fmdrop key (r_blooms r)\<rparr>"

definition handleBloom :: "router \<Rightarrow> peer \<Rightarrow> bloom \<Rightarrow> router" where
  "handleBloom r fromPeer b =
     (case fmlookup (r_blooms r) (p_key fromPeer) of
        None \<Rightarrow> r
      | Some pbi \<Rightarrow> r\<lparr>r_blooms := fmupd (p_key fromPeer) (pbi\<lparr>bi_recv := b\<rparr>) (r_blooms r)\<rparr>)"

text \<open>\<^verbatim>\<open>_sendBloom\<close>: the filter of a missing entry is nil, which the encoder dereferences.\<close>

definition sendBloom :: "router \<Rightarrow> peer \<Rightarrow> outs go" where
  "sendBloom r p =
     (case fmlookup (r_blooms r) (p_key p) of
        None \<Rightarrow> Panic
      | Some pbi \<Rightarrow> Ok [(p, MBloom (bi_send pbi))])"

text \<open>One iteration of \<^verbatim>\<open>_fixOnTree\<close> for the entry of key \<open>pk\<close>.\<close>

definition fixOnTree_entry :: "env \<Rightarrow> orders \<Rightarrow> router \<Rightarrow> publicKey \<Rightarrow> bloomInfo \<Rightarrow> bloomInfo \<times> outs" where
  "fixOnTree_entry e ord r pk pbi =
     (let wasOn = bi_onTree pbi;
          onTree = (if info_parent (self_info e r) = pk then True
                    else case fmlookup (r_infos r) pk of
                           Some info \<Rightarrow> info_parent info = self_key e
                         | None \<Rightarrow> False);
          pbi = pbi\<lparr>bi_onTree := onTree\<rparr>
      in if wasOn \<and> \<not> onTree then
           (pbi\<lparr>bi_send := newBloom\<rparr>, map (\<lambda>p. (p, MBloom newBloom)) (o_peers ord LFixOnTree (peers_of r pk)))
         else (pbi, []))"

definition fixOnTree :: "env \<Rightarrow> orders \<Rightarrow> router \<Rightarrow> (router \<times> outs) go" where
  "fixOnTree e ord r =
     (if self_key e |\<in>| fmdom (r_infos r) then
        Ok (fold (\<lambda>pk (r, outs).
              case fmlookup (r_blooms r) pk of
                None \<Rightarrow> (r, outs)
              | Some pbi \<Rightarrow>
                  let (pbi, out) = fixOnTree_entry e ord r pk pbi
                  in (r\<lparr>r_blooms := fmupd pk pbi (r_blooms r)\<rparr>, outs @ out))
            (o_keys ord LFixOnTree (fmdom (r_blooms r))) (r, []))
      else Panic)"

definition getBloomFor :: "env \<Rightarrow> orders \<Rightarrow> router \<Rightarrow> publicKey \<Rightarrow> bool \<Rightarrow> (router \<times> bloom \<times> bool) go" where
  "getBloomFor e ord r key keepOnes =
     (case fmlookup (r_blooms r) key of
        None \<Rightarrow> Panic
      | Some pbi \<Rightarrow>
          let b = addKey (e_bf e) newBloom (xKey e (self_key e));
              b = fold (\<lambda>k b. case fmlookup (r_blooms r) k of
                                None \<Rightarrow> b
                              | Some kbi \<Rightarrow> if bi_onTree kbi \<and> k \<noteq> key then addFilter (e_bf e) b (bi_recv kbi) else b)
                    (o_keys ord LGetBloomFor (fmdom (r_blooms r))) b;
              (b, pbi) = (if keepOnes then
                            if \<not> bi_zDirty pbi then
                              let c = b; b = addFilter (e_bf e) b (bi_send pbi)
                              in (b, if b \<noteq> c then pbi\<lparr>bi_zDirty := True\<rparr> else pbi)
                            else (addFilter (e_bf e) b (bi_send pbi), pbi)
                          else (b, pbi\<lparr>bi_zDirty := False\<rparr>))
          in if b = bi_send pbi then Ok (r, bi_send pbi, False)
             else Ok (r\<lparr>r_blooms := fmupd key (pbi\<lparr>bi_send := b\<rparr>) (r_blooms r)\<rparr>, b, True))"

text \<open>One iteration of \<^verbatim>\<open>_sendAllBlooms\<close>.\<close>

definition sendAllBlooms_step :: "env \<Rightarrow> orders \<Rightarrow> publicKey \<Rightarrow> router \<Rightarrow> (router \<times> outs) go" where
  "sendAllBlooms_step e ord k r =
     (case fmlookup (r_blooms r) k of
        None \<Rightarrow> Ok (r, [])
      | Some pbi \<Rightarrow>
          if \<not> bi_onTree pbi then Ok (r, [])
          else go_bind (getBloomFor e ord r k (\<not> bi_zDirty pbi)) (\<lambda>(r, b, isNew).
            case fmlookup (r_blooms r) k of
              None \<Rightarrow> Panic
            | Some pbi \<Rightarrow>
                let pbi = pbi\<lparr>bi_seq := bi_seq pbi + 1\<rparr>
                in if isNew \<or> 3600 \<le> bi_seq pbi then
                     (case fmlookup (r_peers r) k of
                        None \<Rightarrow> Panic
                      | Some ps \<Rightarrow> Ok (r\<lparr>r_blooms := fmupd k (pbi\<lparr>bi_seq := 0\<rparr>) (r_blooms r)\<rparr>,
                                      map (\<lambda>p. (p, MBloom b)) (o_peers ord LSendAllBlooms ps)))
                   else Ok (r\<lparr>r_blooms := fmupd k pbi (r_blooms r)\<rparr>, [])))"

text \<open>Running a handler that may panic over a list, collecting what it sends.\<close>

fun each :: "('a \<Rightarrow> router \<Rightarrow> (router \<times> outs) go) \<Rightarrow> 'a list \<Rightarrow> router \<Rightarrow> (router \<times> outs) go" where
  "each f [] r = Ok (r, [])"
| "each f (x # xs) r = go_bind (f x r) (\<lambda>(r, out). go_bind (each f xs r) (\<lambda>(r, outs). Ok (r, out @ outs)))"

definition sendAllBlooms :: "env \<Rightarrow> orders \<Rightarrow> router \<Rightarrow> (router \<times> outs) go" where
  "sendAllBlooms e ord r = each (sendAllBlooms_step e ord) (o_keys ord LSendAllBlooms (fmdom (r_blooms r))) r"

text \<open>The peer with the lowest priority number, the first of them in the order of the loop.\<close>

definition bestPrio :: "peer list \<Rightarrow> peer option" where
  "bestPrio ps = fold (\<lambda>p best. case best of None \<Rightarrow> Some p
     | Some q \<Rightarrow> if p_prio p < p_prio q then Some p else Some q) ps None"

definition sendMulticast :: "env \<Rightarrow> orders \<Rightarrow> router \<Rightarrow> pqPacket \<Rightarrow> publicKey \<Rightarrow> publicKey \<Rightarrow> (router \<times> outs) go" where
  "sendMulticast e ord r packet fromKey toKey =
     each (\<lambda>k r.
       case fmlookup (r_blooms r) k of
         None \<Rightarrow> Ok (r, [])
       | Some pbi \<Rightarrow>
           if \<not> bi_onTree pbi \<or> k = fromKey \<or> \<not> bf_test (e_bf e) (bi_recv pbi) (xKey e toKey) then Ok (r, [])
           else case bestPrio (o_peers ord LSendMulticast (peers_of r k)) of
                  None \<Rightarrow> Panic
                | Some p \<Rightarrow> Ok (r, [(p, MQueued packet)]))
       (o_keys ord LSendMulticast (fmdom (r_blooms r))) r"

section \<open>Announcement table\<close>

definition resetCache :: "router \<Rightarrow> router" where
  "resetCache r = r\<lparr>r_cache := fmempty\<rparr>"

text \<open>The switch of \<^verbatim>\<open>_update\<close>: whether an announcement replaces the known one.\<close>

definition update_ok :: "routerInfo \<Rightarrow> routerAnnounce \<Rightarrow> bool" where
  "update_ok info ann =
     (if info_seq info > ann_seq ann then False
      else if info_seq info < ann_seq ann then True
      else if key_less (info_parent info) (ann_parent ann) then False
      else if key_less (ann_parent ann) (info_parent info) then True
      else if ann_nonce ann < info_nonce info then True
      else False)"

definition ann_info :: "routerAnnounce \<Rightarrow> routerInfo" where
  "ann_info ann = \<lparr>info_parent = ann_parent ann, info_res = ann_res ann, info_sig = ann_sig ann\<rparr>"

definition update :: "router \<Rightarrow> routerAnnounce \<Rightarrow> router \<times> bool" where
  "update r ann =
     (let key = ann_key ann in
      if (case fmlookup (r_infos r) key of None \<Rightarrow> False | Some info \<Rightarrow> \<not> update_ok info ann) then (r, False)
      else let r = r\<lparr>r_sent := fmmap (\<lambda>sent. sent |-| {|key|}) (r_sent r)\<rparr>;
               r = resetCache r;
               timer = r_nextTimer r;
               r = r\<lparr>r_nextTimer := timer + 1, r_timers := fmupd key timer (r_timers r)\<rparr>
           in (r\<lparr>r_infos := fmupd key (ann_info ann) (r_infos r)\<rparr>, True))"

text \<open>
  The two timer functions \<^verbatim>\<open>_update\<close> starts: for the node's own key the refresh, for any other key the
  expiry. A timer that was replaced does nothing.
\<close>

definition timerFired :: "env \<Rightarrow> router \<Rightarrow> publicKey \<Rightarrow> nat \<Rightarrow> router" where
  "timerFired e r key timer =
     (if fmlookup (r_timers r) key \<noteq> Some timer then r
      else if key = self_key e then r\<lparr>r_refresh := True\<rparr>
      else resetCache (r\<lparr>r_infos := fmdrop key (r_infos r), r_timers := fmdrop key (r_timers r),
                         r_sent := fmmap (\<lambda>sent. sent |-| {|key|}) (r_sent r)\<rparr>))"

definition newReq :: "env \<Rightarrow> router \<Rightarrow> u64 \<Rightarrow> routerSigReq" where
  "newReq e r nonce = \<lparr>req_seq = info_seq (self_info e r) + 1, req_nonce = nonce\<rparr>"

definition becomeRoot :: "env \<Rightarrow> router \<Rightarrow> u64 \<Rightarrow> (router \<times> bool) go" where
  "becomeRoot e r nonce =
     (let self = self_key e;
          res0 = \<lparr>res_req = newReq e r nonce, res_port = 0, res_psig = replicate signatureSize 0\<rparr>;
          res = res0\<lparr>res_psig := key_sign (e_ed e) (c_privateKey (e_crypto e)) (routerSigRes_bytesForSig res0 self self)\<rparr>;
          ann = \<lparr>ann_key = self, ann_parent = self, ann_res = res, ann_sig = res_psig res\<rparr>
      in if \<not> routerAnnounce_check (e_ed e) ann then Panic else Ok (update r ann))"

definition useResponse :: "env \<Rightarrow> router \<Rightarrow> publicKey \<Rightarrow> routerSigRes \<Rightarrow> router \<times> bool" where
  "useResponse e r peerKey res =
     (let bs = routerSigRes_bytesForSig res (self_key e) peerKey;
          info = \<lparr>info_parent = peerKey, info_res = res,
                  info_sig = key_sign (e_ed e) (c_privateKey (e_crypto e)) bs\<rparr>
      in update r (getAnnounce info (self_key e)))"

definition handleRequest :: "env \<Rightarrow> peer \<Rightarrow> routerSigReq \<Rightarrow> outs" where
  "handleRequest e p req =
     (let res = \<lparr>res_req = req, res_port = p_port p, res_psig = replicate signatureSize 0\<rparr>
      in [(p, MSigRes (res\<lparr>res_psig := key_sign (e_ed e) (c_privateKey (e_crypto e))
             (routerSigRes_bytesForSig res (p_key p) (self_key e))\<rparr>))])"

section \<open>Latency\<close>

text \<open>Durations are 64-bit signed numbers of nanoseconds; division truncates.\<close>

definition i64 :: "int \<Rightarrow> int" where
  "i64 x = sint (word_of_int x :: u64)"

definition routerUnknownLatency :: int where
  "routerUnknownLatency = 0xffffffff"

definition getCost :: "router \<Rightarrow> peer \<Rightarrow> u64" where
  "getCost r p = (let c = word_of_int (get 0 (r_lags r) p sdiv 1000000) in if c = 0 then 1 else c)"

definition handleResponse :: "router \<Rightarrow> peer \<Rightarrow> routerSigRes \<Rightarrow> int \<Rightarrow> router" where
  "handleResponse r p res rtt =
     (let r = (if fmlookup (r_responses r) (p_key p) = None \<and> get zeroReq (r_requests r) (p_key p) = res_req res
               then r\<lparr>r_resSeqCtr := r_resSeqCtr r + 1,
                      r_resSeqs := fmupd (p_key p) (r_resSeqCtr r + 1) (r_resSeqs r),
                      r_responses := fmupd (p_key p) res (r_responses r)\<rparr>
               else r)
      in if p |\<notin>| r_responded r \<and> get zeroReq (r_requests r) (p_key p) = res_req res
         then let lag = get 0 (r_lags r) p;
                  lag' = (if lag = routerUnknownLatency then i64 (rtt * 2)
                          else i64 (i64 (lag * 7) sdiv 8 + min rtt (i64 (lag * 2)) sdiv 8))
              in r\<lparr>r_responded := finsert p (r_responded r), r_lags := fmupd p lag' (r_lags r)\<rparr>
         else r)"

section \<open>Peers\<close>

definition sentAnnounces :: "router \<Rightarrow> peer \<Rightarrow> publicKey list \<Rightarrow> outs go" where
  "sentAnnounces r p ks = foldr (\<lambda>k rest. case fmlookup (r_infos r) k of
       Some info \<Rightarrow> go_bind rest (\<lambda>outs. Ok ((p, MAnnounce (getAnnounce info k)) # outs))
     | None \<Rightarrow> Panic) ks (Ok [])"

definition addPeer :: "env \<Rightarrow> orders \<Rightarrow> router \<Rightarrow> peer \<Rightarrow> u64 \<Rightarrow> (router \<times> outs) go" where
  "addPeer e ord r p nonce =
     (let k = p_key p in
      go_bind
        (if k |\<notin>| fmdom (r_peers r)
         then Ok (addInfo (r\<lparr>r_peers := fmupd k {||} (r_peers r), r_sent := fmupd k {||} (r_sent r),
                             r_ports := fmupd (p_port p) k (r_ports r)\<rparr>) k, [])
         else go_bind (sentAnnounces r p (o_keys ord LAddPeer (get {||} (r_sent r) k)))
                (\<lambda>outs. Ok (r, outs))) (\<lambda>(r, outs).
      let r = r\<lparr>r_peers := fmupd k (finsert p (peers_of r k)) (r_peers r),
                r_lags := fmupd p routerUnknownLatency (r_lags r)\<rparr>;
          r = (if k |\<notin>| fmdom (r_requests r)
               then r\<lparr>r_requests := fmupd k (newReq e r nonce) (r_requests r)\<rparr> else r);
          req = get zeroReq (r_requests r) k;
          r = r\<lparr>r_responded := r_responded r |-| {|p|}\<rparr>
      in go_bind (sendBloom r p) (\<lambda>out. Ok (r, outs @ (p, MSigReq req) # out))))"

definition removePeer :: "orders \<Rightarrow> router \<Rightarrow> peer \<Rightarrow> (router \<times> outs) go" where
  "removePeer ord r p =
     (let k = p_key p;
          ps = peers_of r k |-| {|p|};
          r = r\<lparr>r_peers := (if k |\<in>| fmdom (r_peers r) then fmupd k ps (r_peers r) else r_peers r),
                r_lags := fmdrop p (r_lags r), r_responded := r_responded r |-| {|p|}\<rparr>
      in if ps = {||} then
           Ok (removeInfo (r\<lparr>r_peers := fmdrop k (r_peers r), r_sent := fmdrop k (r_sent r),
                 r_ports := fmdrop (p_port p) (r_ports r), r_requests := fmdrop k (r_requests r),
                 r_responses := fmdrop k (r_responses r), r_resSeqs := fmdrop k (r_resSeqs r),
                 r_ancs := fmdrop k (r_ancs r), r_cache := fmdrop k (r_cache r)\<rparr>) k, [])
         else each (\<lambda>p r. go_bind (sendBloom r p) (\<lambda>out. Ok (r, out))) (o_peers ord LRemovePeer ps) r)"

definition clearReqs :: "router \<Rightarrow> router" where
  "clearReqs r = r\<lparr>r_requests := fmempty, r_responses := fmempty, r_resSeqs := fmempty, r_resSeqCtr := 0\<rparr>"

text \<open>\<^verbatim>\<open>_sendReqs\<close>; \<open>nonces\<close> gives the random nonce of each request.\<close>

definition sendReqs :: "env \<Rightarrow> orders \<Rightarrow> (publicKey \<Rightarrow> u64) \<Rightarrow> router \<Rightarrow> router \<times> outs" where
  "sendReqs e ord nonces r =
     fold (\<lambda>pk (r, outs).
             let req = newReq e r (nonces pk);
                 ps = peers_of r pk
             in (r\<lparr>r_requests := fmupd pk req (r_requests r), r_responded := r_responded r |-| ps\<rparr>,
                 outs @ map (\<lambda>p. (p, MSigReq req)) (o_peers ord LSendReqs ps)))
       (o_keys ord LSendReqs (fmdom (r_peers r))) (clearReqs r, [])"

definition updateAncestries :: "orders \<Rightarrow> router \<Rightarrow> router" where
  "updateAncestries ord r =
     fold (\<lambda>pkey r.
             let anc = getAncestry (r_infos r) pkey
             in if anc \<noteq> get [] (r_ancs r) pkey then r\<lparr>r_ancs := fmupd pkey anc (r_ancs r)\<rparr> else r)
       (o_keys ord LUpdateAncestries (fmdom (r_peers r))) r"

section \<open>Choosing a parent\<close>

text \<open>The cost of a parent: its distance from the root times the cheapest link to it.\<close>

definition linkCost :: "orders \<Rightarrow> router \<Rightarrow> u64 \<Rightarrow> publicKey \<Rightarrow> u64" where
  "linkCost ord r d pk =
     fold (\<lambda>p cost. let c = d * getCost r p in if c < cost then c else cost) (o_peers ord LFix (peers_of r pk)) (- 1)"

record best =
  best_root :: publicKey
  best_parent :: publicKey
  best_cost :: u64

definition fix_start :: "env \<Rightarrow> orders \<Rightarrow> router \<Rightarrow> best" where
  "fix_start e ord r =
     (let self = self_info e r;
          none = \<lparr>best_root = self_key e, best_parent = self_key e, best_cost = - 1\<rparr>
      in if info_parent self |\<in>| fmdom (r_peers r) then
           let (root, dists) = getRootAndDists (r_infos r) (self_key e)
           in if key_less root (best_root none)
              then \<lparr>best_root = root, best_parent = info_parent self,
                    best_cost = linkCost ord r (get 0 dists root) (info_parent self)\<rparr>
              else none
         else none)"

definition fix_consider :: "env \<Rightarrow> orders \<Rightarrow> router \<Rightarrow> publicKey \<Rightarrow> best \<Rightarrow> best" where
  "fix_consider e ord r pk best =
     (if pk |\<notin>| fmdom (r_infos r) then best
      else let (pRoot, pDists) = getRootAndDists (r_infos r) pk
           in if self_key e |\<in>| fmdom pDists then best
              else let cost = linkCost ord r (get 0 pDists pRoot) pk;
                       cand = \<lparr>best_root = pRoot, best_parent = pk, best_cost = cost\<rparr>
                   in if key_less pRoot (best_root best) \<or> pRoot = best_root best then
                        let best = (if key_less pRoot (best_root best) then cand else best)
                        in if (r_refresh r \<and> cost * 2 < best_cost best)
                              \<or> (best_parent best \<noteq> info_parent (self_info e r) \<and> cost < best_cost best)
                           then cand else best
                      else best)"

definition fix_best :: "env \<Rightarrow> orders \<Rightarrow> router \<Rightarrow> best" where
  "fix_best e ord r =
     fold (fix_consider e ord r) (o_keys ord LFix (fmdom (r_responses r))) (fix_start e ord r)"

text \<open>\<^verbatim>\<open>_fix\<close>; \<open>rootNonce\<close> is the nonce \<^verbatim>\<open>_becomeRoot\<close> draws.\<close>

definition fix_self :: "env \<Rightarrow> orders \<Rightarrow> u64 \<Rightarrow> (publicKey \<Rightarrow> u64) \<Rightarrow> router \<Rightarrow> (router \<times> outs) go" where
  "fix_self e ord rootNonce nonces r =
     (let best = fix_best e ord r;
          parent = best_parent best;
          settled = (\<lambda>r. Ok (sendReqs e ord nonces (r\<lparr>r_refresh := False, r_doRoot1 := False, r_doRoot2 := False\<rparr>)));
          otherwise = (if r_doRoot2 r then
                         go_bind (becomeRoot e r rootNonce) (\<lambda>(r, ok). if \<not> ok then Panic else settled r)
                       else if \<not> r_doRoot1 r then Ok (r\<lparr>r_doRoot1 := True\<rparr>, [])
                       else Ok (r, []))
      in if r_refresh r \<or> r_doRoot1 r \<or> r_doRoot2 r \<or> info_parent (self_info e r) \<noteq> parent then
           (case fmlookup (r_responses r) parent of
              Some res \<Rightarrow>
                if best_root best \<noteq> self_key e then
                  let (r', ok) = useResponse e r parent res in if ok then settled r' else otherwise
                else otherwise
            | None \<Rightarrow> otherwise)
         else Ok (r, []))"

section \<open>Announcements\<close>

text \<open>The keys of a list that have not been sent, in order, each marked as sent when it is met.\<close>

fun unsent :: "publicKey list \<Rightarrow> publicKey fset \<Rightarrow> publicKey list \<times> publicKey fset" where
  "unsent [] sent = ([], sent)"
| "unsent (k # ks) sent =
     (if k |\<in>| sent then unsent ks sent
      else let (toSend, sent) = unsent ks (finsert k sent) in (k # toSend, sent))"

definition announcements :: "router \<Rightarrow> publicKey list \<Rightarrow> routerAnnounce list go" where
  "announcements r ks = foldr (\<lambda>k rest. case fmlookup (r_infos r) k of
       Some info \<Rightarrow> go_bind rest (\<lambda>anns. Ok (getAnnounce info k # anns))
     | None \<Rightarrow> Panic) ks (Ok [])"

definition sendAnnounces_step :: "orders \<Rightarrow> publicKey list \<Rightarrow> publicKey \<Rightarrow> router \<Rightarrow> (router \<times> outs) go" where
  "sendAnnounces_step ord selfAnc peerKey r =
     (let (toSend1, sent) = unsent selfAnc (get {||} (r_sent r) peerKey);
          (toSend2, sent) = unsent (getAncestry (r_infos r) peerKey) sent
      in go_bind (announcements r (toSend1 @ toSend2)) (\<lambda>anns.
           Ok (r\<lparr>r_sent := fmupd peerKey sent (r_sent r)\<rparr>,
               concat (map (\<lambda>p. map (\<lambda>ann. (p, MAnnounce ann)) anns)
                 (o_peers ord LSendAnnounces (peers_of r peerKey))))))"

definition sendAnnounces :: "env \<Rightarrow> orders \<Rightarrow> router \<Rightarrow> (router \<times> outs) go" where
  "sendAnnounces e ord r =
     each (sendAnnounces_step ord (getAncestry (r_infos r) (self_key e)))
       (o_keys ord LSendAnnounces (fmdom (r_sent r))) r"

definition mark_sent :: "router \<Rightarrow> publicKey \<Rightarrow> publicKey \<Rightarrow> router go" where
  "mark_sent r to key =
     (case fmlookup (r_sent r) to of
        None \<Rightarrow> Panic
      | Some sent \<Rightarrow> Ok (r\<lparr>r_sent := fmupd to (finsert key sent) (r_sent r)\<rparr>))"

definition handleAnnounce :: "env \<Rightarrow> router \<Rightarrow> peer \<Rightarrow> routerAnnounce \<Rightarrow> (router \<times> outs) go" where
  "handleAnnounce e r p ann =
     (let (r', ok) = update r ann in
      if ok then
        let r' = (if ann_key ann = self_key e then r'\<lparr>r_refresh := True\<rparr> else r')
        in go_bind (mark_sent r' (p_key p) (ann_key ann)) (\<lambda>r'. Ok (r', []))
      else
        let oldInfo = get zeroInfo (r_infos r) (ann_key ann)
        in go_bind (mark_sent r (p_key p) (ann_key ann)) (\<lambda>r'.
             Ok (r', if ann_info ann \<noteq> oldInfo then [(p, MAnnounce (getAnnounce oldInfo (ann_key ann)))] else [])))"

section \<open>Maintenance\<close>

definition blooms_doMaintenance :: "env \<Rightarrow> orders \<Rightarrow> router \<Rightarrow> (router \<times> outs) go" where
  "blooms_doMaintenance e ord r =
     go_bind (fixOnTree e ord r) (\<lambda>(r, out1).
     go_bind (sendAllBlooms e ord r) (\<lambda>(r, out2). Ok (r, out1 @ out2)))"

definition doMaintenance :: "env \<Rightarrow> orders \<Rightarrow> u64 \<Rightarrow> (publicKey \<Rightarrow> u64) \<Rightarrow> router \<Rightarrow> (router \<times> outs) go" where
  "doMaintenance e ord rootNonce nonces r =
     (if \<not> r_mainTimer r then Ok (r, [])
      else let r = r\<lparr>r_doRoot2 := r_doRoot2 r \<or> r_doRoot1 r\<rparr>;
               r = updateAncestries ord (resetCache r)
           in go_bind (fix_self e ord rootNonce nonces r) (\<lambda>(r, out1).
              go_bind (sendAnnounces e ord r) (\<lambda>(r, out2).
              go_bind (blooms_doMaintenance e ord r) (\<lambda>(r, out3).
              Ok (r, out1 @ out2 @ out3)))))"

definition shutdown :: "router \<Rightarrow> router" where
  "shutdown r = r\<lparr>r_mainTimer := False\<rparr>"

section \<open>Greedy lookup\<close>

text \<open>\<^verbatim>\<open>_getDist\<close> with the cache of paths, which it fills.\<close>

definition getDist :: "router \<Rightarrow> u64 list \<Rightarrow> publicKey \<Rightarrow> u64 \<times> router" where
  "getDist r destPath key =
     (case fmlookup (r_cache r) key of
        Some keyPath \<Rightarrow> (pathDist keyPath destPath, r)
      | None \<Rightarrow>
          let keyPath = snd (getRootAndPath (r_infos r) key)
          in (pathDist keyPath destPath, r\<lparr>r_cache := fmupd key keyPath (r_cache r)\<rparr>))"

fun lookup_candidate :: "orders \<Rightarrow> u64 list \<Rightarrow> u64 \<Rightarrow> publicKey \<Rightarrow> peer list \<times> router \<Rightarrow> peer list \<times> router" where
  "lookup_candidate ord path bestDist k (cands, r) =
     (let (dist, r') = getDist r path k
      in if dist < bestDist then (cands @ o_peers ord LLookup (peers_of r k), r') else (cands, r'))"

definition lookup_candidates :: "orders \<Rightarrow> router \<Rightarrow> u64 list \<Rightarrow> u64 \<Rightarrow> peer list \<times> router" where
  "lookup_candidates ord r path bestDist =
     fold (lookup_candidate ord path bestDist) (o_keys ord LLookup (fmdom (r_peers r))) ([], r)"

text \<open>The switch that compares a candidate with the best one so far, given as peer, cost and distance.\<close>

definition lookup_accept :: "peer \<Rightarrow> u64 \<Rightarrow> u64 \<Rightarrow> (peer \<times> u64 \<times> u64) option \<Rightarrow> bool" where
  "lookup_accept p cost dist best =
     (case best of
        None \<Rightarrow> True
      | Some (bestPeer, bestCost, bestDist) \<Rightarrow>
          if p_key p = p_key bestPeer \<and> p_prio p < p_prio bestPeer then True
          else if p_key p = p_key bestPeer \<and> p_prio p > p_prio bestPeer then False
          else if cost * dist < bestCost * bestDist then True
          else if cost * dist > bestCost * bestDist then False
          else if dist < bestDist then True
          else if dist > bestDist then False
          else if cost < bestCost then True
          else if cost > bestCost then False
          else p_order p < p_order bestPeer)"

fun lookup_compare :: "u64 list \<Rightarrow> peer \<Rightarrow> (peer \<times> u64 \<times> u64) option \<times> router
    \<Rightarrow> (peer \<times> u64 \<times> u64) option \<times> router" where
  "lookup_compare path p (best, r) =
     (let (dist, r') = getDist r path (p_key p); cost = getCost r p
      in (if lookup_accept p cost dist best then Some (p, cost, dist) else best, r'))"

definition lookup_select :: "router \<Rightarrow> u64 list \<Rightarrow> peer list \<Rightarrow> (peer \<times> u64 \<times> u64) option \<times> router" where
  "lookup_select r path cands = fold (lookup_compare path) cands (None, r)"

text \<open>\<^verbatim>\<open>_lookup\<close>; the watermark is \<open>None\<close> for a nil pointer, and the new watermark is returned.\<close>

definition lookup :: "env \<Rightarrow> orders \<Rightarrow> router \<Rightarrow> u64 list \<Rightarrow> u64 option \<Rightarrow> peer option \<times> u64 option \<times> router" where
  "lookup e ord r path watermark =
     (let select = (\<lambda>bestDist wm r.
            let (cands, r) = lookup_candidates ord r path bestDist;
                (best, r) = lookup_select r path cands
            in (map_option fst best, wm, r))
      in case watermark of
           None \<Rightarrow> select (- 1) None r
         | Some wm \<Rightarrow>
             let (dist, r) = getDist r path (self_key e)
             in if dist < wm then select dist (Some dist) r else (None, Some wm, r))"

end
