(* ===== verification/Heap.thy ===== *)
theory Heap
  imports Prelude "HOL-Library.Multiset"
begin

text \<open>
  Go's \<^verbatim>\<open>container/heap\<close> as the packet queue uses it: \<^verbatim>\<open>up\<close>, \<^verbatim>\<open>down\<close>, \<^verbatim>\<open>Fix\<close> and the part of
  \<^verbatim>\<open>Remove\<close> before \<^verbatim>\<open>Pop\<close>, over a slice and a comparison \<open>lt\<close> that may panic (an index out of
  range inside \<^verbatim>\<open>Less\<close>). The lemmas say that on elements where the comparison is the order of a
  key \<open>f\<close>, no comparison panics, the elements are permuted and the heap order is restored.
\<close>

text \<open>The simultaneous assignment of \<^verbatim>\<open>Swap\<close>: both elements are read before either is written.\<close>

definition heap_Swap :: "'a list \<Rightarrow> nat \<Rightarrow> nat \<Rightarrow> 'a list" where
  "heap_Swap h a b = (let at_a = h ! a; at_b = h ! b in (h[b := at_a])[a := at_b])"

lemma Swap_length [simp]: "length (heap_Swap h a b) = length h"
  by (simp add: heap_Swap_def Let_def)

lemma Swap_mset [simp]:
  assumes "a < length h" and "b < length h"
  shows "mset (heap_Swap h a b) = mset h"
  using assms by (simp add: heap_Swap_def mset_swap)

lemma Swap_nth:
  assumes "a < length h" and "b < length h"
  shows "heap_Swap h a b ! k = (if k = a then h ! b else if k = b then h ! a else h ! k)"
  using assms unfolding heap_Swap_def Let_def by (auto simp: nth_list_update)

function heap_up :: "('a \<Rightarrow> 'a \<Rightarrow> bool go) \<Rightarrow> 'a list \<Rightarrow> nat \<Rightarrow> 'a list go" where
  "heap_up lt xs j =
     (let i = (j - 1) div 2 in
      if i = j then Ok xs
      else case lt (xs ! j) (xs ! i) of
             Panic \<Rightarrow> Panic
           | Ok b \<Rightarrow> if b then heap_up lt (heap_Swap xs i j) i else Ok xs)"
  by pat_completeness auto
termination
  by (relation "measure (\<lambda>(lt, xs, j). j)") auto

declare heap_up.simps [simp del]

text \<open>\<^verbatim>\<open>down\<close> returns the slice and the final index; Go's result is \<^verbatim>\<open>i > i0\<close>.\<close>

function heap_down :: "('a \<Rightarrow> 'a \<Rightarrow> bool go) \<Rightarrow> 'a list \<Rightarrow> nat \<Rightarrow> nat \<Rightarrow> ('a list \<times> nat) go" where
  "heap_down lt xs i n =
     (let j1 = 2 * i + 1; j2 = j1 + 1 in
      if n \<le> j1 then Ok (xs, i)
      else case (if j2 < n then lt (xs ! j2) (xs ! j1) else Ok False) of
             Panic \<Rightarrow> Panic
           | Ok right \<Rightarrow>
               let j = (if right then j2 else j1) in
               (case lt (xs ! j) (xs ! i) of
                  Panic \<Rightarrow> Panic
                | Ok b \<Rightarrow> if b then heap_down lt (heap_Swap xs i j) j n else Ok (xs, i)))"
  by pat_completeness auto
termination
  by (relation "measure (\<lambda>(lt, xs, i, n). n - i)") (auto split: if_splits)

declare heap_down.simps [simp del]

definition heap_Fix :: "('a \<Rightarrow> 'a \<Rightarrow> bool go) \<Rightarrow> 'a list \<Rightarrow> nat \<Rightarrow> 'a list go" where
  "heap_Fix lt xs i =
     go_bind (heap_down lt xs i (length xs)) (\<lambda>(xs', j).
       if j > i then Ok xs' else heap_up lt xs' i)"

text \<open>\<^verbatim>\<open>Remove\<close> up to its call of \<^verbatim>\<open>Pop\<close>: the element to remove ends up last.\<close>

definition heap_Remove :: "('a \<Rightarrow> 'a \<Rightarrow> bool go) \<Rightarrow> 'a list \<Rightarrow> nat \<Rightarrow> 'a list go" where
  "heap_Remove lt xs i =
     (let n = length xs - 1 in
      if n \<noteq> i then
        go_bind (heap_down lt (heap_Swap xs i n) i n) (\<lambda>(xs', j).
          if j > i then Ok xs' else heap_up lt xs' i)
      else Ok xs)"

section \<open>Heap order\<close>

definition par :: "nat \<Rightarrow> nat" where
  "par k = (k - 1) div 2"

lemma par_less [simp]: "0 < k \<Longrightarrow> par k < k"
  by (auto simp: par_def)

lemma par_less_bound: "k < n \<Longrightarrow> par k < n"
  by (auto simp: par_def)

lemma par_eq_iff [simp]: "par k = k \<longleftrightarrow> k = 0"
  using par_less [of k] by (auto simp: par_def)

lemma eq_par_iff [simp]: "k = par k \<longleftrightarrow> k = 0"
  using par_eq_iff [of k] by metis

lemma par_child: "0 < k \<Longrightarrow> par k = i \<longleftrightarrow> k = 2 * i + 1 \<or> k = 2 * i + 2"
  by (auto simp: par_def)

definition edge :: "('a \<Rightarrow> 'k::linorder) \<Rightarrow> 'a list \<Rightarrow> nat \<Rightarrow> bool" where
  "edge f xs k \<longleftrightarrow> f (xs ! par k) \<le> f (xs ! k)"

definition is_heap :: "('a \<Rightarrow> 'k::linorder) \<Rightarrow> nat \<Rightarrow> 'a list \<Rightarrow> bool" where
  "is_heap f n xs \<longleftrightarrow> (\<forall>k. 0 < k \<and> k < n \<longrightarrow> edge f xs k)"

text \<open>The comparison is the order of the key on the elements of the first \<open>n\<close> places.\<close>

definition lt_ok :: "('a \<Rightarrow> 'a \<Rightarrow> bool go) \<Rightarrow> ('a \<Rightarrow> 'k::linorder) \<Rightarrow> 'a set \<Rightarrow> bool" where
  "lt_ok lt f A \<longleftrightarrow> (\<forall>a\<in>A. \<forall>b\<in>A. lt a b = Ok (f a < f b))"

lemma lt_okD: "lt_ok lt f A \<Longrightarrow> a \<in> A \<Longrightarrow> b \<in> A \<Longrightarrow> lt a b = Ok (f a < f b)"
  by (simp add: lt_ok_def)

lemma is_heap_root: "is_heap f n xs \<Longrightarrow> k < n \<Longrightarrow> f (xs ! 0) \<le> f (xs ! k)"
proof (induction k rule: less_induct)
  case (less k)
  show ?case
  proof (cases "k = 0")
    case False
    then have "par k < k" by simp
    with less have "f (xs ! 0) \<le> f (xs ! par k)" by simp
    moreover have "f (xs ! par k) \<le> f (xs ! k)"
      using less.prems False by (auto simp: is_heap_def edge_def)
    ultimately show ?thesis by (rule order_trans)
  qed simp
qed

lemma is_heap_mono: "is_heap f n xs \<Longrightarrow> m \<le> n \<Longrightarrow> is_heap f m xs"
  by (auto simp: is_heap_def)

lemma is_heap_butlast:
  "is_heap f (length xs - 1) xs \<Longrightarrow> is_heap f (length (butlast xs)) (butlast xs)"
  by (auto simp: is_heap_def edge_def nth_butlast par_less_bound)

lemma is_heap_snoc:
  assumes "is_heap f (length xs) xs" and "\<And>y. y \<in> set xs \<Longrightarrow> f y \<le> f x"
  shows "is_heap f (length (xs @ [x])) (xs @ [x])"
  unfolding is_heap_def
proof (intro allI impI)
  fix k assume k: "0 < k \<and> k < length (xs @ [x])"
  have p: "par k < length xs" using k by (auto simp: par_def)
  show "edge f (xs @ [x]) k"
  proof (cases "k = length xs")
    case True
    with p assms(2) show ?thesis by (simp add: edge_def nth_append)
  next
    case False
    with k p assms(1) show ?thesis by (auto simp: edge_def is_heap_def nth_append)
  qed
qed

section \<open>Correctness of up and down\<close>

lemma heap_up_correct:
  assumes "j < n" "n \<le> length xs" "lt_ok lt f A" "\<forall>k<n. xs ! k \<in> A"
    and edges: "\<forall>k. 0 < k \<and> k < n \<and> k \<noteq> j \<longrightarrow> edge f xs k"
    and grand: "\<forall>k. 0 < k \<and> k < n \<and> par k = j \<and> 0 < j \<longrightarrow> f (xs ! par j) \<le> f (xs ! k)"
  shows "\<exists>ys. heap_up lt xs j = Ok ys \<and> mset ys = mset xs \<and> is_heap f n ys
      \<and> (\<forall>k\<ge>n. ys ! k = xs ! k)"
  using assms
proof (induction j arbitrary: xs rule: less_induct)
  case (less j)
  show ?case
  proof (cases "j = 0")
    case True
    then show ?thesis
      using less.prems by (subst heap_up.simps) (auto simp: is_heap_def)
  next
    case False
    let ?i = "par j"
    have i: "?i < j" using False by simp
    have lt: "lt (xs ! j) (xs ! ?i) = Ok (f (xs ! j) < f (xs ! ?i))"
      using less.prems i by (intro lt_okD [OF less.prems(3)]) auto
    show ?thesis
    proof (cases "f (xs ! j) < f (xs ! ?i)")
      case False
      then have "is_heap f n xs"
        using less.prems(5) by (auto simp: is_heap_def edge_def)
      then show ?thesis
        using False lt i by (subst heap_up.simps) (simp add: par_def Let_def)
    next
      case True
      let ?ys = "heap_Swap xs ?i j"
      have len: "?i < length xs" "j < length xs" using less.prems i by auto
      note nth = Swap_nth [OF len]
      have rec: "heap_up lt xs j = heap_up lt ?ys ?i"
        using True lt i by (subst heap_up.simps) (simp add: par_def Let_def)
      have 1: "\<forall>k<n. ?ys ! k \<in> A"
        using less.prems i by (auto simp: nth)
      have 2: "\<forall>k. 0 < k \<and> k < n \<and> k \<noteq> ?i \<longrightarrow> edge f ?ys k"
      proof (intro allI impI)
        fix k assume k: "0 < k \<and> k < n \<and> k \<noteq> ?i"
        consider "k = j" | "k \<noteq> j" "par k = j" | "k \<noteq> j" "par k = ?i" | "k \<noteq> j" "par k \<noteq> j" "par k \<noteq> ?i"
          by blast
        then show "edge f ?ys k"
        proof cases
          case 1
          then show ?thesis using True i by (simp add: edge_def nth)
        next
          case 2
          then show ?thesis using less.prems(6) k i \<open>j \<noteq> 0\<close> by (simp add: edge_def nth)
        next
          case 3
          then have "f (xs ! ?i) \<le> f (xs ! k)" using less.prems(5) k by (auto simp: edge_def)
          then show ?thesis using 3 True k by (simp add: edge_def nth)
        next
          case 4
          then show ?thesis using less.prems(5) k by (auto simp: edge_def nth)
        qed
      qed
      have 3: "\<forall>k. 0 < k \<and> k < n \<and> par k = ?i \<and> 0 < ?i \<longrightarrow> f (?ys ! par ?i) \<le> f (?ys ! k)"
      proof (intro allI impI)
        fix k assume k: "0 < k \<and> k < n \<and> par k = ?i \<and> 0 < ?i"
        have pi: "par ?i < ?i" using k by simp
        have e: "f (xs ! par ?i) \<le> f (xs ! ?i)"
          using less.prems(1,5) k i by (auto simp: edge_def)
        show "f (?ys ! par ?i) \<le> f (?ys ! k)"
        proof (cases "k = j")
          case True
          then show ?thesis using e pi i by (simp add: nth)
        next
          case False
          then have "f (xs ! ?i) \<le> f (xs ! k)" using less.prems(5) k by (auto simp: edge_def)
          moreover have "k \<noteq> ?i" using k par_less [of k] by auto
          ultimately show ?thesis using e pi i False by (simp add: nth)
        qed
      qed
      have "\<exists>zs. heap_up lt ?ys ?i = Ok zs \<and> mset zs = mset ?ys \<and> is_heap f n zs
          \<and> (\<forall>k\<ge>n. zs ! k = ?ys ! k)"
        using less.prems(1,2) i by (intro less.IH [OF i _ _ less.prems(3) 1 2 3]) auto
      then show ?thesis
        using rec len i less.prems(1) by (auto simp: nth)
    qed
  qed
qed

lemma heap_down_correct:
  assumes "i < n" "n \<le> length xs" "lt_ok lt f A" "\<forall>k<n. xs ! k \<in> A" "i0 \<le> i"
    and edges: "\<forall>k. 0 < k \<and> k < n \<and> par k \<noteq> i \<and> \<not> (k = i0 \<and> i = i0) \<longrightarrow> edge f xs k"
    and grand: "\<forall>k. 0 < k \<and> k < n \<and> par k = i \<and> 0 < i \<longrightarrow> f (xs ! par i) \<le> f (xs ! k)"
  shows "\<exists>ys j. heap_down lt xs i n = Ok (ys, j) \<and> mset ys = mset xs \<and> i \<le> j \<and> j < n
      \<and> (\<forall>k. 0 < k \<and> k < n \<and> \<not> (k = i0 \<and> j = i0) \<longrightarrow> edge f ys k)
      \<and> (\<forall>k\<ge>n. ys ! k = xs ! k) \<and> (j = i \<longrightarrow> ys = xs)"
  using assms
proof (induction "n - i" arbitrary: xs i rule: less_induct)
  case less
  show ?case
  proof (cases "n \<le> 2 * i + 1")
    case True
    then have "\<forall>k. 0 < k \<and> k < n \<longrightarrow> par k \<noteq> i" by (auto simp: par_child)
    then show ?thesis
      using True less.prems by (subst heap_down.simps) auto
  next
    case False
    define j where "j = (if 2 * i + 2 < n \<and> f (xs ! (2 * i + 2)) < f (xs ! (2 * i + 1))
                         then 2 * i + 2 else 2 * i + 1)"
    have j: "i < j" "j < n" "par j = i" using False by (auto simp: j_def par_child)
    have jmin: "f (xs ! j) \<le> f (xs ! k)" if "0 < k" "k < n" "par k = i" for k
      using that by (auto simp: j_def par_child)
    have ltA: "lt (xs ! a) (xs ! b) = Ok (f (xs ! a) < f (xs ! b))" if "a < n" "b < n" for a b
      using less.prems(4) that by (intro lt_okD [OF less.prems(3)]) auto
    have step: "heap_down lt xs i n =
        (if f (xs ! j) < f (xs ! i) then heap_down lt (heap_Swap xs i j) j n else Ok (xs, i))"
      using False less.prems(1) by (subst heap_down.simps) (simp add: Let_def ltA j_def)
    show ?thesis
    proof (cases "f (xs ! j) < f (xs ! i)")
      case False
      then have "edge f xs k" if "0 < k" "k < n" "par k = i" for k
        using jmin [OF that] that by (simp add: edge_def)
      then show ?thesis
        using False step less.prems by auto
    next
      case True
      let ?ys = "heap_Swap xs i j"
      have len: "i < length xs" "j < length xs" using less.prems j by auto
      note nth = Swap_nth [OF len]
      have 1: "\<forall>k<n. ?ys ! k \<in> A"
        using less.prems j by (auto simp: nth)
      have 2: "\<forall>k. 0 < k \<and> k < n \<and> par k \<noteq> j \<and> \<not> (k = i0 \<and> j = i0) \<longrightarrow> edge f ?ys k"
      proof (intro allI impI)
        fix k assume k: "0 < k \<and> k < n \<and> par k \<noteq> j \<and> \<not> (k = i0 \<and> j = i0)"
        consider "k = i" | "k = j" | "k \<noteq> i" "k \<noteq> j" "par k = i" | "k \<noteq> i" "k \<noteq> j" "par k \<noteq> i"
          by blast
        then show "edge f ?ys k"
        proof cases
          case 1
          then have "par i < i" using k by simp
          then show ?thesis
            using 1 k j less.prems(7) by (auto simp: edge_def nth)
        next
          case 2
          then show ?thesis using True j by (simp add: edge_def nth)
        next
          case 3
          then show ?thesis using jmin k j by (simp add: edge_def nth)
        next
          case 4
          then show ?thesis using less.prems(6) k by (auto simp: edge_def nth)
        qed
      qed
      have 3: "\<forall>k. 0 < k \<and> k < n \<and> par k = j \<and> 0 < j \<longrightarrow> f (?ys ! par j) \<le> f (?ys ! k)"
      proof (intro allI impI)
        fix k assume k: "0 < k \<and> k < n \<and> par k = j \<and> 0 < j"
        then have "j < k" using par_less [of k] by auto
        moreover have "f (xs ! j) \<le> f (xs ! k)"
          using less.prems(5,6) k j \<open>j < k\<close> by (auto simp: edge_def)
        ultimately show "f (?ys ! par j) \<le> f (?ys ! k)" using j by (simp add: nth)
      qed
      have "\<exists>zs j'. heap_down lt ?ys j n = Ok (zs, j') \<and> mset zs = mset ?ys \<and> j \<le> j' \<and> j' < n
          \<and> (\<forall>k. 0 < k \<and> k < n \<and> \<not> (k = i0 \<and> j' = i0) \<longrightarrow> edge f zs k)
          \<and> (\<forall>k\<ge>n. zs ! k = ?ys ! k) \<and> (j' = j \<longrightarrow> zs = ?ys)"
        using less.prems(1,2,5) j by (intro less.hyps [OF _ _ _ less.prems(3) 1 _ 2 3]) auto
      then show ?thesis
        using step True len j by (auto simp: nth)
    qed
  qed
qed

section \<open>Correctness of Fix and Remove\<close>

text \<open>The heap order holds everywhere but around place \<open>i\<close>.\<close>

definition hole :: "('a \<Rightarrow> 'k::linorder) \<Rightarrow> nat \<Rightarrow> nat \<Rightarrow> 'a list \<Rightarrow> bool" where
  "hole f i n xs \<longleftrightarrow>
     (\<forall>k. 0 < k \<and> k < n \<and> k \<noteq> i \<and> par k \<noteq> i \<longrightarrow> edge f xs k)
   \<and> (\<forall>k. 0 < k \<and> k < n \<and> par k = i \<and> 0 < i \<longrightarrow> f (xs ! par i) \<le> f (xs ! k))"

lemma hole_update:
  assumes "is_heap f n ys" "n \<le> length ys" "i < n" "\<And>k. k < n \<Longrightarrow> k \<noteq> i \<Longrightarrow> xs ! k = ys ! k"
  shows "hole f i n xs"
  unfolding hole_def
proof (intro conjI allI impI)
  fix k assume k: "0 < k \<and> k < n \<and> k \<noteq> i \<and> par k \<noteq> i"
  then have "par k < n" by (simp add: par_less_bound)
  with k assms show "edge f xs k" by (auto simp: is_heap_def edge_def)
next
  fix k assume k: "0 < k \<and> k < n \<and> par k = i \<and> 0 < i"
  then have "par i < i" "i < k" using par_less [of i] par_less [of k] by auto
  moreover have "f (ys ! par i) \<le> f (ys ! i)" "f (ys ! i) \<le> f (ys ! k)"
    using assms(1,3) k by (auto simp: is_heap_def edge_def)
  ultimately show "f (xs ! par i) \<le> f (xs ! k)"
    using assms(3) assms(4) [of "par i"] assms(4) [of k] k by (auto simp: par_less_bound)
qed

lemma heap_restore:
  assumes "i < n" "n \<le> length xs" "lt_ok lt f A" "\<forall>k<n. xs ! k \<in> A" "hole f i n xs"
  shows "\<exists>zs. go_bind (heap_down lt xs i n) (\<lambda>(ys, j). if j > i then Ok ys else heap_up lt ys i) = Ok zs
      \<and> mset zs = mset xs \<and> is_heap f n zs \<and> (\<forall>k\<ge>n. zs ! k = xs ! k)"
proof -
  obtain ys j where down: "heap_down lt xs i n = Ok (ys, j)" "mset ys = mset xs" "i \<le> j" "j < n"
      "\<forall>k. 0 < k \<and> k < n \<and> \<not> (k = i \<and> j = i) \<longrightarrow> edge f ys k"
      "\<forall>k\<ge>n. ys ! k = xs ! k" "j = i \<longrightarrow> ys = xs"
    using heap_down_correct [of i n xs lt f A i] assms by (auto simp: hole_def)
  show ?thesis
  proof (cases "j = i")
    case False
    then show ?thesis using down by (auto simp: is_heap_def)
  next
    case True
    then show ?thesis
      using heap_up_correct [of i n xs lt f A] down assms by (auto simp: hole_def)
  qed
qed

lemma heap_Fix_correct:
  assumes "is_heap f (length ys) ys" "i < length ys" "lt_ok lt f (set (ys[i := x]))"
  shows "\<exists>zs. heap_Fix lt (ys[i := x]) i = Ok zs \<and> mset zs = mset (ys[i := x])
      \<and> is_heap f (length zs) zs"
proof -
  have "hole f i (length ys) (ys[i := x])"
    using assms by (intro hole_update) auto
  then obtain zs where "heap_Fix lt (ys[i := x]) i = Ok zs" "mset zs = mset (ys[i := x])"
      "is_heap f (length ys) zs"
    using heap_restore [of i "length ys" "ys[i := x]" lt f "set (ys[i := x])"] assms
    by (auto simp: heap_Fix_def)
  moreover from this(2) have "length zs = length ys"
    by (metis size_mset length_list_update)
  ultimately show ?thesis by auto
qed

text \<open>After \<^verbatim>\<open>Remove\<close> the removed element is last and the others form a heap.\<close>

lemma heap_Remove_correct:
  assumes "is_heap f (length ys) ys" "i < length ys"
    and "lt_ok lt f A" "\<forall>k<length ys. k \<noteq> i \<longrightarrow> ys ! k \<in> A"
  shows "\<exists>zs. heap_Remove lt (ys[i := x]) i = Ok (zs @ [x]) \<and> add_mset (ys ! i) (mset zs) = mset ys
      \<and> is_heap f (length zs) zs"
proof (cases "length ys - 1 = i")
  case True
  then have "ys = butlast ys @ [ys ! i]"
    using assms(2) by (metis append_butlast_last_id last_conv_nth length_0_conv less_nat_zero_code)
  moreover from this have "ys[i := x] = butlast ys @ [x]"
    using True by (metis length_butlast list_update_length)
  moreover have "is_heap f (length (butlast ys)) (butlast ys)"
    using is_heap_mono [OF assms(1)] by (intro is_heap_butlast) simp
  ultimately show ?thesis
    using True assms(2) by (intro exI [of _ "butlast ys"])
      (auto simp: heap_Remove_def, metis add_mset_add_single mset.simps(1,2) mset_append)
next
  case False
  define n where "n = length ys - 1"
  define xs where "xs = heap_Swap (ys[i := x]) i n"
  have n: "i < n" "n < length ys" "length xs = length ys" "length ys = Suc n"
    using False assms(2) by (auto simp: n_def xs_def)
  have nth: "xs ! k = (if k = i then ys ! n else if k = n then x else ys ! k)" for k
    using n by (simp add: xs_def Swap_nth)
  have "hole f i n xs"
    using n assms(1) is_heap_mono [of f "length ys" ys n] by (intro hole_update [of f n ys]) (auto simp: nth)
  moreover have "\<forall>k<n. xs ! k \<in> A"
    using n assms(4) by (auto simp: nth)
  ultimately obtain zs where zs: "heap_Remove lt (ys[i := x]) i = Ok zs" "mset zs = mset xs"
      "is_heap f n zs" "\<forall>k\<ge>n. zs ! k = xs ! k"
    using heap_restore [of i n xs lt f A] n assms(3)
    by (auto simp: heap_Remove_def xs_def [symmetric] n_def [symmetric])
  have len: "length zs = Suc n" using zs(2) n by (metis size_mset)
  then have "zs = butlast zs @ [x]"
    using zs(4) n by (metis append_butlast_last_id diff_Suc_1 last_conv_nth length_0_conv nat.distinct(1) nth
        order_refl less_irrefl)
  moreover have "is_heap f (length (butlast zs)) (butlast zs)"
    using zs(3) len by (intro is_heap_butlast) simp
  moreover have "add_mset (ys ! i) (mset (butlast zs)) = mset ys"
  proof -
    have "add_mset x (mset (butlast zs)) = mset (ys[i := x])"
      using calculation(1) zs(2) n by (simp add: xs_def)
        (metis add_mset_add_single mset.simps(1,2) mset_append)
    then show ?thesis
      using n by (simp add: mset_update)
  qed
  ultimately show ?thesis using zs(1) by metis
qed

section \<open>Keyed heaps\<close>

text \<open>
  The lists of the packet queue have elements with distinct keys: \<open>kmap\<close> is the table from keys to
  elements, which a permutation of the list does not change.
\<close>

definition kmap :: "('a \<Rightarrow> 'i) \<Rightarrow> 'a list \<Rightarrow> 'i \<Rightarrow> 'a option" where
  "kmap key xs = map_of (map (\<lambda>x. (key x, x)) xs)"

lemma kmap_simps [simp]:
  "kmap key [] = Map.empty"
  "kmap key (x # xs) = (kmap key xs)(key x \<mapsto> x)"
  by (simp_all add: kmap_def)

lemma kmap_eq_Some:
  "distinct (map key xs) \<Longrightarrow> kmap key xs i = Some x \<longleftrightarrow> x \<in> set xs \<and> key x = i"
  by (auto simp: kmap_def comp_def dest: map_of_SomeD)

lemma kmap_SomeD: "kmap key xs i = Some x \<Longrightarrow> x \<in> set xs \<and> key x = i"
  by (auto simp: kmap_def dest: map_of_SomeD)

lemma kmap_eq_None: "kmap key xs i = None \<longleftrightarrow> i \<notin> key ` set xs"
  by (simp add: kmap_def map_of_eq_None_iff image_image)

lemma distinct_key_mset:
  "mset xs = mset ys \<Longrightarrow> distinct (map key xs) \<longleftrightarrow> distinct (map key ys)"
  by (rule mset_eq_imp_distinct_iff) (simp add: mset_map)

lemma kmap_mset:
  assumes "mset xs = mset ys" "distinct (map key xs)"
  shows "kmap key xs = kmap key ys"
proof
  fix i
  have s: "set xs = set ys" and d: "distinct (map key ys)"
    using assms mset_eq_setD distinct_key_mset by blast+
  have "kmap key xs i = Some x \<longleftrightarrow> kmap key ys i = Some x" for x
    using s by (simp add: kmap_eq_Some [OF d] kmap_eq_Some [OF assms(2)])
  then show "kmap key xs i = kmap key ys i"
    by (metis not_None_eq)
qed

lemma kmap_snoc: "key x \<notin> key ` set xs \<Longrightarrow> kmap key (xs @ [x]) = (kmap key xs)(key x \<mapsto> x)"
  by (induction xs) (auto simp: fun_upd_twist)

lemma distinct_key_update:
  "distinct (map key xs) \<Longrightarrow> key x = key (xs ! i) \<Longrightarrow> map key (xs[i := x]) = map key xs"
  by (metis list_update_id map_update)

lemma kmap_update:
  assumes "distinct (map key xs)" "i < length xs" "key x = key (xs ! i)"
  shows "kmap key (xs[i := x]) = (kmap key xs)(key x \<mapsto> x)"
  using assms
proof (induction xs arbitrary: i)
  case (Cons y ys)
  show ?case
  proof (cases i)
    case (Suc j)
    then have "key y \<noteq> key x" using Cons.prems by auto
    then show ?thesis using Cons Suc by (auto simp: fun_eq_iff)
  qed (use Cons.prems in \<open>auto simp: fun_eq_iff\<close>)
qed simp

lemma kmap_remove:
  assumes "distinct (map key xs)" "add_mset x (mset ys) = mset xs"
  shows "distinct (map key ys)" "kmap key ys = (kmap key xs)(key x := None)"
proof -
  have eq: "mset (x # ys) = mset xs" using assms(2) by simp
  then have d: "distinct (map key (x # ys))"
    using assms(1) distinct_key_mset by blast
  then show "distinct (map key ys)" by simp
  have "kmap key xs = (kmap key ys)(key x \<mapsto> x)"
    using kmap_mset [OF eq d] by simp
  moreover have "kmap key ys (key x) = None" using d by (simp add: kmap_eq_None)
  ultimately show "kmap key ys = (kmap key xs)(key x := None)" by auto
qed

text \<open>
  The contract of \<^verbatim>\<open>heap.Interface\<close> as the queue's two implementations meet it: on well-formed
  elements \<^verbatim>\<open>Less\<close> does not panic and compares ages. Its consequence is that \<^verbatim>\<open>Fix\<close> and \<^verbatim>\<open>Remove\<close>
  keep a bag of well-formed elements with distinct keys in heap order.
\<close>

definition bag_inv :: "('a \<Rightarrow> 'i) \<Rightarrow> ('a \<Rightarrow> 'k::linorder) \<Rightarrow> ('a \<Rightarrow> bool) \<Rightarrow> 'a list \<Rightarrow> bool" where
  "bag_inv key age ok xs \<longleftrightarrow>
     distinct (map key xs) \<and> (\<forall>x\<in>set xs. ok x) \<and> is_heap age (length xs) xs"

lemma bag_inv_Nil [simp]: "bag_inv key age ok []"
  by (simp add: bag_inv_def is_heap_def)

lemma bag_inv_nth: "bag_inv key age ok xs \<Longrightarrow> i < length xs \<Longrightarrow> ok (xs ! i)"
  by (simp add: bag_inv_def)

lemma bag_inv_oldest: "bag_inv key age ok xs \<Longrightarrow> x \<in> set xs \<Longrightarrow> age (hd xs) \<le> age x"
  using is_heap_root [of age "length xs" xs]
  by (metis bag_inv_def hd_conv_nth in_set_conv_nth length_pos_if_in_set list.size(3) less_irrefl)

lemma bag_inv_snoc:
  assumes "bag_inv key age ok xs" "ok x" "key x \<notin> key ` set xs" "\<And>y. y \<in> set xs \<Longrightarrow> age y \<le> age x"
  shows "bag_inv key age ok (xs @ [x])"
  using assms is_heap_snoc [of age xs x] by (auto simp: bag_inv_def)

lemma bag_inv_same_age:
  assumes "bag_inv key age ok xs" "i < length xs" "ok x" "key x = key (xs ! i)" "age x = age (xs ! i)"
  shows "bag_inv key age ok (xs[i := x])"
proof -
  have age: "age (xs[i := x] ! k) = age (xs ! k)" if "k < length xs" for k
    using assms(2,5) that by (simp add: nth_list_update)
  have "is_heap age (length xs) (xs[i := x])"
    using assms(1) by (auto simp: bag_inv_def is_heap_def edge_def age par_less_bound)
  moreover have "\<forall>y\<in>set (xs[i := x]). ok y"
    using assms set_update_subset_insert [of xs i x] by (auto simp: bag_inv_def)
  moreover have "distinct (map key (xs[i := x]))"
    using assms by (simp add: bag_inv_def distinct_key_update)
  ultimately show ?thesis by (simp add: bag_inv_def)
qed

locale heap_interface =
  fixes key :: "'a \<Rightarrow> 'i" and age :: "'a \<Rightarrow> 'k::linorder"
    and ok :: "'a \<Rightarrow> bool" and Less :: "'a \<Rightarrow> 'a \<Rightarrow> bool go"
  assumes Less_age: "ok a \<Longrightarrow> ok b \<Longrightarrow> Less a b = Ok (age a < age b)"
begin

lemma fix_bag:
  assumes "bag_inv key age ok xs" "i < length xs" "ok x" "key x = key (xs ! i)"
  shows "\<exists>ys. heap_Fix Less (xs[i := x]) i = Ok ys \<and> mset ys = mset (xs[i := x])
      \<and> bag_inv key age ok ys"
proof -
  have ok: "\<forall>y\<in>set (xs[i := x]). ok y"
    using assms set_update_subset_insert [of xs i x] by (auto simp: bag_inv_def)
  then have "lt_ok Less age (set (xs[i := x]))"
    by (simp add: lt_ok_def Less_age)
  then obtain ys where ys: "heap_Fix Less (xs[i := x]) i = Ok ys" "mset ys = mset (xs[i := x])"
      "is_heap age (length ys) ys"
    using heap_Fix_correct [of age xs i Less x] assms by (auto simp: bag_inv_def)
  have "set ys = set (xs[i := x])" using ys(2) by (rule mset_eq_setD)
  moreover have "distinct (map key ys)"
    using assms by (simp add: distinct_key_mset [OF ys(2)] bag_inv_def distinct_key_update)
  ultimately show ?thesis using ys ok by (auto simp: bag_inv_def)
qed

lemma remove_bag:
  assumes "bag_inv key age ok xs" "i < length xs"
  shows "\<exists>ys. heap_Remove Less (xs[i := x]) i = Ok (ys @ [x]) \<and> add_mset (xs ! i) (mset ys) = mset xs
      \<and> bag_inv key age ok ys"
proof -
  have "lt_ok Less age (set xs)"
    using assms by (simp add: lt_ok_def Less_age bag_inv_def)
  then obtain ys where ys: "heap_Remove Less (xs[i := x]) i = Ok (ys @ [x])"
      "add_mset (xs ! i) (mset ys) = mset xs" "is_heap age (length ys) ys"
    using heap_Remove_correct [of age xs i Less "set xs" x] assms by (auto simp: bag_inv_def)
  have "set ys \<subseteq> set xs"
    using mset_eq_setD [of "xs ! i # ys" xs] ys(2) by auto
  then show ?thesis
    using ys assms kmap_remove(1) [OF _ ys(2), of key] by (auto simp: bag_inv_def)
qed

end

end
