(* ===== verification/PacketQueue.thy ===== *)
theory PacketQueue
  imports Messages Heap "HOL-Library.Sublist" "HOL-Library.While_Combinator"
begin

text \<open>
  The packet queue of \<^verbatim>\<open>network/packetqueue.go\<close>: packets grouped by destination and source, the
  groups kept in two levels of heaps ordered by the age of their oldest packet. The theory has the
  four operations, the invariant they keep, and the abstraction to a table of streams, one list of
  packets per pair of destination and source, on which the operations are specified.
\<close>

section \<open>Data\<close>

record pqPacketInfo =
  pi_packet :: pqPacket
  pi_size :: u64
  pi_time :: nat

record pqSource =
  so_key :: publicKey
  so_infos :: "pqPacketInfo list"
  so_size :: u64

record pqDest =
  de_key :: publicKey
  de_sources :: "pqSource list"
  de_size :: u64

record packetQueue =
  q_dests :: "pqDest list"
  q_size :: u64

definition empty_queue :: packetQueue where
  "empty_queue = \<lparr>q_dests = [], q_size = 0\<rparr>"

section \<open>The heap interface of pqDest and packetQueue\<close>

definition source_head :: "pqSource \<Rightarrow> pqPacketInfo go" where
  "source_head s = go_at (so_infos s) 0"

definition dest_head :: "pqDest \<Rightarrow> pqPacketInfo go" where
  "dest_head d = go_bind (go_at (de_sources d) 0) source_head"

definition pqDest_Less :: "pqSource \<Rightarrow> pqSource \<Rightarrow> bool go" where
  "pqDest_Less a b =
     go_bind (source_head a) (\<lambda>x. go_bind (source_head b) (\<lambda>y. Ok (pi_time x < pi_time y)))"

definition packetQueue_Less :: "pqDest \<Rightarrow> pqDest \<Rightarrow> bool go" where
  "packetQueue_Less a b =
     go_bind (dest_head a) (\<lambda>x. go_bind (dest_head b) (\<lambda>y. Ok (pi_time x < pi_time y)))"

definition pqDest_Pop :: "pqDest \<Rightarrow> pqDest go" where
  "pqDest_Pop d =
     go_bind (go_at (de_sources d) (length (de_sources d) - 1)) (\<lambda>source.
       Ok (d\<lparr>de_sources := take (length (de_sources d) - 1) (de_sources d),
             de_size := de_size d - so_size source\<rparr>))"

definition packetQueue_Pop :: "packetQueue \<Rightarrow> packetQueue go" where
  "packetQueue_Pop q =
     go_bind (go_at (q_dests q) (length (q_dests q) - 1)) (\<lambda>dest.
       Ok (q\<lparr>q_dests := take (length (q_dests q) - 1) (q_dests q),
             q_size := q_size q - de_size dest\<rparr>))"

definition pqDest_Fix :: "pqDest \<Rightarrow> nat \<Rightarrow> pqDest go" where
  "pqDest_Fix d i =
     go_bind (heap_Fix pqDest_Less (de_sources d) i) (\<lambda>ss. Ok (d\<lparr>de_sources := ss\<rparr>))"

definition pqDest_Remove :: "pqDest \<Rightarrow> nat \<Rightarrow> pqDest go" where
  "pqDest_Remove d i =
     go_bind (heap_Remove pqDest_Less (de_sources d) i) (\<lambda>ss. pqDest_Pop (d\<lparr>de_sources := ss\<rparr>))"

definition packetQueue_Fix :: "packetQueue \<Rightarrow> nat \<Rightarrow> packetQueue go" where
  "packetQueue_Fix q i =
     go_bind (heap_Fix packetQueue_Less (q_dests q) i) (\<lambda>ds. Ok (q\<lparr>q_dests := ds\<rparr>))"

definition packetQueue_Remove :: "packetQueue \<Rightarrow> nat \<Rightarrow> packetQueue go" where
  "packetQueue_Remove q i =
     go_bind (heap_Remove packetQueue_Less (q_dests q) i)
       (\<lambda>ds. packetQueue_Pop (q\<lparr>q_dests := ds\<rparr>))"

section \<open>Operations\<close>

text \<open>The two search loops: the first index of a largest element, the first element with a key.\<close>

definition largest :: "('a \<Rightarrow> u64) \<Rightarrow> 'a list \<Rightarrow> nat" where
  "largest sz xs = foldl (\<lambda>m idx. if sz (xs ! m) < sz (xs ! idx) then idx else m) 0 [0..<length xs]"

fun find_idx :: "('a \<Rightarrow> bool) \<Rightarrow> 'a list \<Rightarrow> nat option" where
  "find_idx P [] = None"
| "find_idx P (x # xs) = (if P x then Some 0 else map_option Suc (find_idx P xs))"

text \<open>\<^verbatim>\<open>push\<close> in two parts: \<open>push_dest\<close> is the part that works on the destination's group.\<close>

definition push_dest :: "pqDest \<Rightarrow> publicKey \<Rightarrow> pqPacketInfo \<Rightarrow> pqDest" where
  "push_dest dest sKey info =
     (let sIdx = find_idx (\<lambda>s. so_key s = sKey) (de_sources dest);
          source = (case sIdx of Some i \<Rightarrow> de_sources dest ! i
                               | None \<Rightarrow> \<lparr>so_key = sKey, so_infos = [], so_size = 0\<rparr>);
          source = source\<lparr>so_infos := so_infos source @ [info],
                          so_size := so_size source + pi_size info\<rparr>
      in dest\<lparr>de_sources := (case sIdx of None \<Rightarrow> de_sources dest @ [source]
                                         | Some i \<Rightarrow> (de_sources dest)[i := source]),
              de_size := de_size dest + pi_size info\<rparr>)"

definition push :: "packetQueue \<Rightarrow> pqPacket \<Rightarrow> nat \<Rightarrow> packetQueue" where
  "push q packet now =
     (let sKey = packet_sourceKey packet; dKey = packet_destKey packet;
          info = \<lparr>pi_packet = packet, pi_size = of_nat (packet_size packet), pi_time = now\<rparr>;
          dIdx = find_idx (\<lambda>d. de_key d = dKey) (q_dests q);
          dest = (case dIdx of Some i \<Rightarrow> q_dests q ! i
                             | None \<Rightarrow> \<lparr>de_key = dKey, de_sources = [], de_size = 0\<rparr>);
          dest = push_dest dest sKey info
      in q\<lparr>q_dests := (case dIdx of None \<Rightarrow> q_dests q @ [dest]
                                   | Some i \<Rightarrow> (q_dests q)[i := dest]),
           q_size := q_size q + pi_size info\<rparr>)"

definition pop :: "packetQueue \<Rightarrow> (packetQueue \<times> pqPacketInfo option) go" where
  "pop q =
     (if 0 < q_size q then
        go_bind (go_at (q_dests q) 0) (\<lambda>dest.
        go_bind (go_at (de_sources dest) 0) (\<lambda>source.
        go_bind (go_at (so_infos source) 0) (\<lambda>info.
          let source = source\<lparr>so_size := so_size source - pi_size info\<rparr>;
              dest = dest\<lparr>de_size := de_size dest - pi_size info\<rparr>;
              q = q\<lparr>q_size := q_size q - pi_size info\<rparr>
          in go_bind
               (if length (so_infos source) > 1
                then pqDest_Fix (dest\<lparr>de_sources := (de_sources dest)
                       [0 := source\<lparr>so_infos := drop 1 (so_infos source)\<rparr>]\<rparr>) 0
                else pqDest_Remove (dest\<lparr>de_sources := (de_sources dest)[0 := source]\<rparr>) 0) (\<lambda>dest.
             go_bind
               (if length (de_sources dest) > 0
                then packetQueue_Fix (q\<lparr>q_dests := (q_dests q)[0 := dest]\<rparr>) 0
                else packetQueue_Remove (q\<lparr>q_dests := (q_dests q)[0 := dest]\<rparr>) 0) (\<lambda>q.
             Ok (q, Some info))))))
      else Ok (q, None))"

definition peek :: "packetQueue \<Rightarrow> pqPacketInfo option go" where
  "peek q =
     (if length (q_dests q) > 0 then
        go_bind (go_at (q_dests q) 0) (\<lambda>dest. go_bind (dest_head dest) (\<lambda>info. Ok (Some info)))
      else Ok None)"

text \<open>\<^verbatim>\<open>drop\<close>; the freed traffic goes back to the allocator's pool, which holds no queue state.\<close>

definition drop_pkt :: "packetQueue \<Rightarrow> (packetQueue \<times> bool) go" where
  "drop_pkt q =
     (if q_size q = 0 then Ok (q, False)
      else
        let dIdx = largest de_size (q_dests q) in
        go_bind (go_at (q_dests q) dIdx) (\<lambda>dest.
        let sIdx = largest so_size (de_sources dest) in
        go_bind (go_at (de_sources dest) sIdx) (\<lambda>source.
        go_bind (go_at (so_infos source) 0) (\<lambda>info.
          let source = source\<lparr>so_size := so_size source - pi_size info,
                              so_infos := drop 1 (so_infos source)\<rparr>;
              dest = dest\<lparr>de_sources := (de_sources dest)[sIdx := source]\<rparr>
          in go_bind (if 0 < so_size source then pqDest_Fix dest sIdx else pqDest_Remove dest sIdx)
               (\<lambda>dest.
             let dest = dest\<lparr>de_size := de_size dest - pi_size info\<rparr>;
                 q = q\<lparr>q_dests := (q_dests q)[dIdx := dest]\<rparr>
             in go_bind (if 0 < de_size dest then packetQueue_Fix q dIdx else packetQueue_Remove q dIdx)
                  (\<lambda>q. Ok (q\<lparr>q_size := q_size q - pi_size info\<rparr>, True)))))))"

section \<open>Invariant and abstraction\<close>

text \<open>
  Sizes are exact as numbers, so the counters of all levels never wrap; every group has a packet,
  the packets of a group are in order of arrival and belong to it, and both heaps are ordered by the
  age of the oldest packet.
\<close>

definition info_ok :: "pqPacketInfo \<Rightarrow> bool" where
  "info_ok i \<longleftrightarrow> unat (pi_size i) = packet_size (pi_packet i)"

definition source_ok :: "pqSource \<Rightarrow> bool" where
  "source_ok s \<longleftrightarrow> so_infos s \<noteq> [] \<and> sorted (map pi_time (so_infos s))
     \<and> (\<forall>i\<in>set (so_infos s). info_ok i \<and> packet_sourceKey (pi_packet i) = so_key s)
     \<and> unat (so_size s) = (\<Sum>i\<leftarrow>so_infos s. unat (pi_size i))"

definition source_age :: "pqSource \<Rightarrow> nat" where
  "source_age s = pi_time (hd (so_infos s))"

definition dest_ok :: "pqDest \<Rightarrow> bool" where
  "dest_ok d \<longleftrightarrow> de_sources d \<noteq> [] \<and> bag_inv so_key source_age source_ok (de_sources d)
     \<and> (\<forall>s\<in>set (de_sources d). \<forall>i\<in>set (so_infos s). packet_destKey (pi_packet i) = de_key d)
     \<and> unat (de_size d) = (\<Sum>s\<leftarrow>de_sources d. unat (so_size s))"

definition dest_age :: "pqDest \<Rightarrow> nat" where
  "dest_age d = source_age (hd (de_sources d))"

definition pq_inv :: "packetQueue \<Rightarrow> bool" where
  "pq_inv q \<longleftrightarrow> bag_inv de_key dest_age dest_ok (q_dests q)
     \<and> unat (q_size q) = (\<Sum>d\<leftarrow>q_dests q. unat (de_size d))"

text \<open>The abstraction: the packets waiting for a destination from a source, oldest first.\<close>

type_synonym streams = "publicKey \<Rightarrow> publicKey \<Rightarrow> pqPacketInfo list"

definition infos_of :: "pqSource list \<Rightarrow> publicKey \<Rightarrow> pqPacketInfo list" where
  "infos_of ss s = (case kmap so_key ss s of None \<Rightarrow> [] | Some x \<Rightarrow> so_infos x)"

definition streams :: "packetQueue \<Rightarrow> streams" where
  "streams q d = (case kmap de_key (q_dests q) d of
                    None \<Rightarrow> \<lambda>s. [] | Some x \<Rightarrow> infos_of (de_sources x))"

section \<open>The two heaps\<close>

lemma source_head_ok: "source_ok s \<Longrightarrow> source_head s = Ok (hd (so_infos s))"
  by (simp add: source_head_def source_ok_def hd_conv_nth)

lemma dest_head_ok: "dest_ok d \<Longrightarrow> dest_head d = Ok (hd (so_infos (hd (de_sources d))))"
  by (auto simp: dest_head_def dest_ok_def bag_inv_def hd_conv_nth source_head_ok)

interpretation source_heap: heap_interface so_key source_age source_ok pqDest_Less
  by unfold_locales (simp add: pqDest_Less_def source_head_ok source_age_def)

interpretation dest_heap: heap_interface de_key dest_age dest_ok packetQueue_Less
  by unfold_locales (simp add: packetQueue_Less_def dest_head_ok dest_age_def source_age_def)

section \<open>Sums of sizes\<close>

lemma sum_list_upd:
  fixes f :: "'a \<Rightarrow> nat"
  assumes "i < length xs"
  shows "(\<Sum>y\<leftarrow>xs[i := x]. f y) + f (xs ! i) = (\<Sum>y\<leftarrow>xs. f y) + f x"
  using assms by (induction xs arbitrary: i) (auto simp: less_Suc_eq_0_disj)

lemma sum_list_mset_eq:
  fixes f :: "'a \<Rightarrow> nat"
  shows "mset xs = mset ys \<Longrightarrow> (\<Sum>y\<leftarrow>xs. f y) = (\<Sum>y\<leftarrow>ys. f y)"
  by (metis mset_map sum_mset_sum_list)

lemma sum_list_removed:
  fixes f :: "'a \<Rightarrow> nat"
  shows "add_mset x (mset xs) = mset ys \<Longrightarrow> f x + (\<Sum>y\<leftarrow>xs. f y) = (\<Sum>y\<leftarrow>ys. f y)"
  using sum_list_mset_eq [of "x # xs" ys f] by simp

lemma sum_list_member_le:
  fixes f :: "'a \<Rightarrow> nat"
  shows "x \<in> set xs \<Longrightarrow> f x \<le> (\<Sum>y\<leftarrow>xs. f y)"
  by (induction xs) auto

lemma unat_minus_exact:
  fixes a b :: u64
  assumes "unat a = unat b + r"
  shows "unat (a - b) = r"
  using assms by (simp add: unat_sub word_le_nat_alt)

lemma info_size_pos: "info_ok i \<Longrightarrow> 0 < unat (pi_size i)"
  using packet_size_pos [of "pi_packet i"] by (simp add: info_ok_def)

lemma source_tail:
  assumes "source_ok s" "so_infos s = info # rest"
  defines "s' \<equiv> s\<lparr>so_size := so_size s - pi_size info, so_infos := rest\<rparr>"
  shows "rest \<noteq> [] \<Longrightarrow> source_ok s'"
    and "unat (so_size s') + unat (pi_size info) = unat (so_size s)"
    and "0 < so_size s' \<longleftrightarrow> rest \<noteq> []"
proof -
  have sz: "unat (so_size s') = (\<Sum>i\<leftarrow>rest. unat (pi_size i))"
    using assms by (simp add: source_ok_def unat_minus_exact)
  show "rest \<noteq> [] \<Longrightarrow> source_ok s'"
    using assms(1,2) sz by (auto simp: source_ok_def s'_def)
  show "unat (so_size s') + unat (pi_size info) = unat (so_size s)"
    using assms(1,2) sz by (simp add: source_ok_def)
  have "0 < (\<Sum>i\<leftarrow>rest. unat (pi_size i)) \<longleftrightarrow> rest \<noteq> []"
    using assms(1,2) by (cases rest) (auto simp: source_ok_def dest: info_size_pos)
  then show "0 < so_size s' \<longleftrightarrow> rest \<noteq> []"
    using sz by (simp add: word_less_nat_alt)
qed

section \<open>Taking the oldest packet of a stream\<close>

text \<open>
  \<open>dest_took\<close> and \<open>queue_took\<close> are what \<^verbatim>\<open>pop\<close> and \<^verbatim>\<open>drop\<close> have in common: the oldest packet of one
  stream is gone, nothing else changed, and the invariant holds unless the group became empty.
\<close>

definition dest_took :: "pqDest \<Rightarrow> publicKey \<Rightarrow> pqPacketInfo \<Rightarrow> pqDest \<Rightarrow> bool" where
  "dest_took d s info d' \<longleftrightarrow>
     (\<exists>rest. infos_of (de_sources d) s = info # rest
       \<and> infos_of (de_sources d') = (infos_of (de_sources d))(s := rest))
   \<and> de_key d' = de_key d \<and> (de_sources d' \<noteq> [] \<longrightarrow> dest_ok d')
   \<and> unat (de_size d') + unat (pi_size info) = unat (de_size d)
   \<and> (0 < de_size d' \<longleftrightarrow> de_sources d' \<noteq> [])"

lemma infos_of_update:
  assumes "distinct (map so_key ss)" "i < length ss" "so_key s' = so_key (ss ! i)"
    and "mset ss' = mset (ss[i := s'])"
  shows "infos_of ss' = (infos_of ss)(so_key (ss ! i) := so_infos s')"
proof -
  have "distinct (map so_key ss')"
    using assms by (simp add: distinct_key_mset [OF assms(4)] distinct_key_update)
  then have "kmap so_key ss' = (kmap so_key ss)(so_key (ss ! i) \<mapsto> s')"
    using kmap_mset [OF assms(4), of so_key] kmap_update [OF assms(1-3)] assms(3) by simp
  then show ?thesis by (auto simp: infos_of_def fun_eq_iff)
qed

lemma infos_of_remove:
  assumes "distinct (map so_key ss)" "add_mset s (mset ss') = mset ss"
  shows "infos_of ss' = (infos_of ss)(so_key s := [])"
  using kmap_remove(2) [OF assms] by (auto simp: infos_of_def fun_eq_iff)

lemma infos_of_nth:
  assumes "distinct (map so_key ss)" "i < length ss"
  shows "infos_of ss (so_key (ss ! i)) = so_infos (ss ! i)"
proof -
  have "kmap so_key ss (so_key (ss ! i)) = Some (ss ! i)"
    using assms by (simp add: kmap_eq_Some)
  then show ?thesis by (simp add: infos_of_def)
qed

lemma dest_ok_size_pos: "dest_ok d \<Longrightarrow> 0 < de_size d"
proof -
  assume d: "dest_ok d"
  then obtain s where s: "s \<in> set (de_sources d)" "source_ok s"
    by (auto simp: dest_ok_def bag_inv_def) (meson list.set_sel(1))
  then obtain info rest where i: "so_infos s = info # rest"
    by (auto simp: source_ok_def neq_Nil_conv)
  have "0 < unat (so_size s)"
    using s(2) i info_size_pos [of info] by (auto simp: source_ok_def)
  also have "\<dots> \<le> unat (de_size d)"
    using d s(1) sum_list_member_le [of s "de_sources d" "\<lambda>s. unat (so_size s)"] by (simp add: dest_ok_def)
  finally show "0 < de_size d" by (simp add: word_less_nat_alt)
qed

lemma dest_take_fix:
  assumes d: "dest_ok d" and i: "i < length (de_sources d)"
    and s: "so_infos (de_sources d ! i) = info # rest" and "rest \<noteq> []"
  defines "s' \<equiv> (de_sources d ! i)\<lparr>so_size := so_size (de_sources d ! i) - pi_size info, so_infos := rest\<rparr>"
  shows "\<exists>ss. (\<forall>z. pqDest_Fix (d\<lparr>de_sources := (de_sources d)[i := s'], de_size := z\<rparr>) i
                = Ok (d\<lparr>de_sources := ss, de_size := z\<rparr>)) \<and> ss \<noteq> []
      \<and> dest_took d (so_key (de_sources d ! i)) info (d\<lparr>de_sources := ss, de_size := de_size d - pi_size info\<rparr>)"
proof -
  let ?ss = "de_sources d" and ?s = "de_sources d ! i"
  have bag: "bag_inv so_key source_age source_ok ?ss" using d by (simp add: dest_ok_def)
  note ok = bag_inv_nth [OF bag i]
  note tail = source_tail [OF ok s, folded s'_def]
  have key: "so_key s' = so_key ?s" by (simp add: s'_def)
  obtain ss where ss: "heap_Fix pqDest_Less (?ss[i := s']) i = Ok ss" "mset ss = mset (?ss[i := s'])"
      "bag_inv so_key source_age source_ok ss"
    using source_heap.fix_bag [OF bag i tail(1) [OF \<open>rest \<noteq> []\<close>] key] by blast
  have len: "length ss = length ?ss" using ss(2) by (metis length_list_update size_mset)
  have "(\<Sum>s\<leftarrow>ss. unat (so_size s)) + unat (pi_size info) = unat (de_size d)"
    using sum_list_upd [OF i, of "\<lambda>s. unat (so_size s)" s'] tail(2) d
    by (simp add: sum_list_mset_eq [OF ss(2)] dest_ok_def)
  then have sz: "unat (de_size d - pi_size info) = (\<Sum>s\<leftarrow>ss. unat (so_size s))"
    by (intro unat_minus_exact) simp
  have "set ss \<subseteq> insert s' (set ?ss)"
    using mset_eq_setD [OF ss(2)] set_update_subset_insert by metis
  moreover have "set (so_infos s') \<subseteq> set (so_infos ?s)" "?s \<in> set ?ss"
    using s i by (auto simp: s'_def)
  ultimately have "\<forall>s\<in>set ss. \<forall>i\<in>set (so_infos s). packet_destKey (pi_packet i) = de_key d"
    using d by (fastforce simp: dest_ok_def)
  then have "dest_ok (d\<lparr>de_sources := ss, de_size := de_size d - pi_size info\<rparr>)"
    using ss(3) sz len i by (auto simp: dest_ok_def)
  moreover have "infos_of ss = (infos_of ?ss)(so_key ?s := rest)"
    using infos_of_update [OF _ i key ss(2)] bag by (simp add: bag_inv_def s'_def)
  moreover have "infos_of ?ss (so_key ?s) = info # rest"
    using infos_of_nth [OF _ i] bag s by (simp add: bag_inv_def)
  ultimately have "dest_took d (so_key ?s) info (d\<lparr>de_sources := ss, de_size := de_size d - pi_size info\<rparr>)"
    using \<open>_ = unat (de_size d)\<close> sz dest_ok_size_pos len i by (fastforce simp: dest_took_def)
  then show ?thesis
    using ss(1) len i by (intro exI [of _ ss]) (auto simp: pqDest_Fix_def)
qed

lemma dest_take_remove:
  assumes d: "dest_ok d" and i: "i < length (de_sources d)"
    and s: "so_infos (de_sources d ! i) = [info]" and "so_size s' = 0"
  shows "\<exists>ss. (\<forall>z. pqDest_Remove (d\<lparr>de_sources := (de_sources d)[i := s'], de_size := z\<rparr>) i
                = Ok (d\<lparr>de_sources := ss, de_size := z\<rparr>))
      \<and> dest_took d (so_key (de_sources d ! i)) info (d\<lparr>de_sources := ss, de_size := de_size d - pi_size info\<rparr>)"
proof -
  let ?ss = "de_sources d" and ?s = "de_sources d ! i"
  have bag: "bag_inv so_key source_age source_ok ?ss" using d by (simp add: dest_ok_def)
  note ok = bag_inv_nth [OF bag i]
  obtain ss where ss: "heap_Remove pqDest_Less (?ss[i := s']) i = Ok (ss @ [s'])"
      "add_mset ?s (mset ss) = mset ?ss" "bag_inv so_key source_age source_ok ss"
    using source_heap.remove_bag [OF bag i] by blast
  have "unat (pi_size info) = unat (so_size ?s)"
    using ok s by (simp add: source_ok_def)
  then have "unat (de_size d) = unat (pi_size info) + (\<Sum>s\<leftarrow>ss. unat (so_size s))"
    using sum_list_removed [OF ss(2), of "\<lambda>s. unat (so_size s)"] d by (simp add: dest_ok_def)
  then have sz: "unat (de_size d - pi_size info) = (\<Sum>s\<leftarrow>ss. unat (so_size s))"
    by (rule unat_minus_exact)
  have "set ss \<subseteq> set ?ss"
    using ss(2) by (metis set_mset_add_mset_insert set_mset_mset subset_insertI)
  then have "ss \<noteq> [] \<Longrightarrow> dest_ok (d\<lparr>de_sources := ss, de_size := de_size d - pi_size info\<rparr>)"
    using d ss(3) sz by (auto simp: dest_ok_def)
  moreover have "infos_of ss = (infos_of ?ss)(so_key ?s := [])"
    using infos_of_remove [OF _ ss(2)] bag by (simp add: bag_inv_def)
  moreover have "infos_of ?ss (so_key ?s) = [info]"
    using infos_of_nth [OF _ i] bag s by (simp add: bag_inv_def)
  moreover have "ss = [] \<Longrightarrow> de_size d - pi_size info = 0"
    using sz by (simp add: unat_eq_0)
  ultimately have "dest_took d (so_key ?s) info (d\<lparr>de_sources := ss, de_size := de_size d - pi_size info\<rparr>)"
    using \<open>unat (de_size d) = _\<close> sz dest_ok_size_pos [of "d\<lparr>de_sources := ss, de_size := de_size d - pi_size info\<rparr>"]
    by (auto simp: dest_took_def)
  then show ?thesis
    using ss(1) \<open>so_size s' = 0\<close>
    by (intro exI [of _ ss]) (auto simp: pqDest_Remove_def pqDest_Pop_def)
qed

definition queue_took :: "packetQueue \<Rightarrow> publicKey \<Rightarrow> publicKey \<Rightarrow> pqPacketInfo \<Rightarrow> packetQueue \<Rightarrow> bool" where
  "queue_took q d s info q' \<longleftrightarrow>
     (\<exists>rest. streams q d s = info # rest \<and> streams q' = (streams q)(d := (streams q d)(s := rest)))
   \<and> pq_inv q' \<and> unat (q_size q') + unat (pi_size info) = unat (q_size q)"

lemma streams_nth:
  assumes "bag_inv de_key dest_age dest_ok (q_dests q)" "i < length (q_dests q)"
  shows "streams q (de_key (q_dests q ! i)) = infos_of (de_sources (q_dests q ! i))"
proof -
  have "kmap de_key (q_dests q) (de_key (q_dests q ! i)) = Some (q_dests q ! i)"
    using assms by (simp add: kmap_eq_Some bag_inv_def)
  then show ?thesis by (simp add: streams_def)
qed

lemma infos_of_Nil [simp]: "infos_of [] = (\<lambda>s. [])"
  by (simp add: infos_of_def fun_eq_iff)

lemma queue_take_fix:
  assumes q: "pq_inv q" and i: "i < length (q_dests q)"
    and took: "dest_took (q_dests q ! i) s info d'" and "de_sources d' \<noteq> []"
  shows "\<exists>ds. (\<forall>z. packetQueue_Fix (q\<lparr>q_dests := (q_dests q)[i := d'], q_size := z\<rparr>) i
                = Ok (q\<lparr>q_dests := ds, q_size := z\<rparr>))
      \<and> queue_took q (de_key (q_dests q ! i)) s info (q\<lparr>q_dests := ds, q_size := q_size q - pi_size info\<rparr>)"
proof -
  let ?ds = "q_dests q" and ?d = "q_dests q ! i"
  have bag: "bag_inv de_key dest_age dest_ok ?ds" using q by (simp add: pq_inv_def)
  have key: "de_key d' = de_key ?d" and ok: "dest_ok d'"
    using took \<open>de_sources d' \<noteq> []\<close> by (auto simp: dest_took_def)
  obtain ds where ds: "heap_Fix packetQueue_Less (?ds[i := d']) i = Ok ds" "mset ds = mset (?ds[i := d'])"
      "bag_inv de_key dest_age dest_ok ds"
    using dest_heap.fix_bag [OF bag i ok key] by blast
  have sum: "unat (q_size q) = unat (pi_size info) + (\<Sum>d\<leftarrow>ds. unat (de_size d))"
    using sum_list_upd [OF i, of "\<lambda>d. unat (de_size d)" d'] took q
    by (simp add: sum_list_mset_eq [OF ds(2)] dest_took_def pq_inv_def)
  then have sz: "unat (q_size q - pi_size info) = (\<Sum>d\<leftarrow>ds. unat (de_size d))"
    by (rule unat_minus_exact)
  have "kmap de_key ds = kmap de_key (?ds[i := d'])"
    using ds(2,3) by (intro kmap_mset) (auto simp: bag_inv_def)
  also have "\<dots> = (kmap de_key ?ds)(de_key ?d \<mapsto> d')"
    using kmap_update [OF _ i key] bag key by (simp add: bag_inv_def)
  finally have "streams (q\<lparr>q_dests := ds, q_size := z\<rparr>) = (streams q)(de_key ?d := infos_of (de_sources d'))" for z
    by (auto simp: streams_def fun_eq_iff)
  then have "queue_took q (de_key ?d) s info (q\<lparr>q_dests := ds, q_size := q_size q - pi_size info\<rparr>)"
    using ds(3) sz sum streams_nth [OF bag i] took
    by (auto simp: queue_took_def dest_took_def pq_inv_def)
  then show ?thesis
    using ds(1) by (intro exI [of _ ds]) (simp add: packetQueue_Fix_def)
qed

lemma queue_take_remove:
  assumes q: "pq_inv q" and i: "i < length (q_dests q)"
    and took: "dest_took (q_dests q ! i) s info d'" and "de_sources d' = []"
  shows "\<exists>ds. (\<forall>z. packetQueue_Remove (q\<lparr>q_dests := (q_dests q)[i := d'], q_size := z\<rparr>) i
                = Ok (q\<lparr>q_dests := ds, q_size := z\<rparr>))
      \<and> queue_took q (de_key (q_dests q ! i)) s info (q\<lparr>q_dests := ds, q_size := q_size q - pi_size info\<rparr>)"
proof -
  let ?ds = "q_dests q" and ?d = "q_dests q ! i"
  have bag: "bag_inv de_key dest_age dest_ok ?ds" using q by (simp add: pq_inv_def)
  have zero: "de_size d' = 0"
    using took \<open>de_sources d' = []\<close> by (auto simp: dest_took_def word_gt_0)
  obtain ds where ds: "heap_Remove packetQueue_Less (?ds[i := d']) i = Ok (ds @ [d'])"
      "add_mset ?d (mset ds) = mset ?ds" "bag_inv de_key dest_age dest_ok ds"
    using dest_heap.remove_bag [OF bag i] by blast
  have sum: "unat (q_size q) = unat (pi_size info) + (\<Sum>d\<leftarrow>ds. unat (de_size d))"
    using sum_list_removed [OF ds(2), of "\<lambda>d. unat (de_size d)"] took q zero
    by (simp add: dest_took_def pq_inv_def)
  then have sz: "unat (q_size q - pi_size info) = (\<Sum>d\<leftarrow>ds. unat (de_size d))"
    by (rule unat_minus_exact)
  have "kmap de_key ds = (kmap de_key ?ds)(de_key ?d := None)"
    using kmap_remove(2) [OF _ ds(2), of de_key] bag by (simp add: bag_inv_def)
  then have "streams (q\<lparr>q_dests := ds, q_size := z\<rparr>) = (streams q)(de_key ?d := infos_of (de_sources d'))" for z
    using \<open>de_sources d' = []\<close> by (auto simp: streams_def fun_eq_iff)
  then have "queue_took q (de_key ?d) s info (q\<lparr>q_dests := ds, q_size := q_size q - pi_size info\<rparr>)"
    using ds(3) sz sum streams_nth [OF bag i] took
    by (auto simp: queue_took_def dest_took_def pq_inv_def)
  then show ?thesis
    using ds(1) zero by (intro exI [of _ ds]) (simp add: packetQueue_Remove_def packetQueue_Pop_def)
qed

section \<open>Correctness of pop and peek\<close>

lemma pq_inv_size_0: "pq_inv q \<Longrightarrow> q_size q = 0 \<longleftrightarrow> q_dests q = []"
proof
  assume q: "pq_inv q" and "q_size q = 0"
  then have "\<forall>d\<in>set (q_dests q). de_size d = 0"
    by (auto simp: pq_inv_def unat_eq_0)
  moreover have "\<forall>d\<in>set (q_dests q). 0 < de_size d"
    using q by (simp add: pq_inv_def bag_inv_def dest_ok_size_pos)
  ultimately show "q_dests q = []" by (cases "q_dests q") auto
qed (auto simp: pq_inv_def unat_eq_0)

lemma streams_memD:
  assumes "i \<in> set (streams q d s)"
  obtains dd ss where "dd \<in> set (q_dests q)" "ss \<in> set (de_sources dd)" "i \<in> set (so_infos ss)"
    "de_key dd = d" "so_key ss = s"
  using assms by (auto simp: streams_def infos_of_def split: option.splits
      dest!: kmap_SomeD kmap_SomeD [OF sym])

text \<open>The first packet of the first source of the first destination is a packet no other is older than.\<close>

lemma queue_oldest:
  assumes q: "pq_inv q" and "i \<in> set (streams q d s)"
  shows "pi_time (hd (so_infos (hd (de_sources (hd (q_dests q)))))) \<le> pi_time i"
proof -
  obtain dd ss where m: "dd \<in> set (q_dests q)" "ss \<in> set (de_sources dd)" "i \<in> set (so_infos ss)"
    using assms(2) by (rule streams_memD)
  have dd: "dest_ok dd" using q m by (simp add: pq_inv_def bag_inv_def)
  have ss: "source_ok ss" using dd m by (simp add: dest_ok_def bag_inv_def)
  have "dest_age (hd (q_dests q)) \<le> dest_age dd"
    using q m(1) by (simp add: pq_inv_def bag_inv_oldest [of de_key _ dest_ok])
  also have "\<dots> \<le> source_age ss"
    using dd m(2) by (simp add: dest_ok_def dest_age_def bag_inv_oldest [of so_key _ source_ok])
  also have "\<dots> \<le> pi_time i"
    using ss m(3) by (cases "so_infos ss") (auto simp: source_ok_def source_age_def)
  finally show ?thesis by (simp add: dest_age_def source_age_def)
qed

lemma update_order:
  "d\<lparr>de_size := z, de_sources := ss\<rparr> = d\<lparr>de_sources := ss, de_size := z\<rparr>"
  "q\<lparr>q_size := z, q_dests := ds\<rparr> = q\<lparr>q_dests := ds, q_size := z\<rparr>"
  "s\<lparr>so_size := z, so_infos := is\<rparr> = s\<lparr>so_infos := is, so_size := z\<rparr>"
  by simp_all

lemma pop_empty: "q_dests q = [] \<Longrightarrow> pq_inv q \<Longrightarrow> pop q = Ok (q, None)"
  by (simp add: pop_def pq_inv_size_0 [symmetric])

lemma pop_nonempty:
  assumes q: "pq_inv q" and "q_dests q \<noteq> []"
  defines "d \<equiv> hd (q_dests q)" and "s \<equiv> hd (de_sources (hd (q_dests q)))"
    and "info \<equiv> hd (so_infos (hd (de_sources (hd (q_dests q)))))"
  shows "\<exists>q'. pop q = Ok (q', Some info) \<and> queue_took q (de_key d) (so_key s) info q'"
proof -
  obtain ds where ds: "q_dests q = d # ds"
    using assms(2) by (cases "q_dests q") (auto simp: d_def)
  have d: "dest_ok d" using q by (simp add: pq_inv_def bag_inv_def ds)
  then obtain ss where ss: "de_sources d = s # ss"
    by (cases "de_sources d") (auto simp: dest_ok_def s_def d_def)
  have s: "source_ok s" using d by (simp add: dest_ok_def bag_inv_def ss)
  then obtain rest where rest: "so_infos s = info # rest"
    by (cases "so_infos s") (auto simp: source_ok_def info_def s_def)
  let ?s' = "s\<lparr>so_size := so_size s - pi_size info, so_infos := rest\<rparr>"
  let ?s0 = "s\<lparr>so_size := so_size s - pi_size info\<rparr>"
  let ?z = "de_size d - pi_size info"
  let ?step = "if rest \<noteq> [] then pqDest_Fix (d\<lparr>de_sources := ?s' # ss, de_size := ?z\<rparr>) 0
               else pqDest_Remove (d\<lparr>de_sources := ?s0 # ss, de_size := ?z\<rparr>) 0"
  have "\<exists>d'. ?step = Ok d' \<and> dest_took d (so_key s) info d'"
  proof (cases "rest = []")
    case True
    have "so_size s = pi_size info"
      using s rest True by (simp add: source_ok_def word_unat_eq_iff)
    then show ?thesis
      using dest_take_remove [OF d, of 0 info ?s0] ss rest True by auto
  next
    case False
    then show ?thesis
      using dest_take_fix [OF d, of 0 info rest] ss rest by auto
  qed
  then obtain d' where d': "?step = Ok d'" "dest_took d (so_key s) info d'" by blast
  let ?qs = "q\<lparr>q_dests := d' # ds, q_size := q_size q - pi_size info\<rparr>"
  have "\<exists>q'. (if de_sources d' \<noteq> [] then packetQueue_Fix ?qs 0 else packetQueue_Remove ?qs 0) = Ok q'
      \<and> queue_took q (de_key d) (so_key s) info q'"
    using queue_take_fix [OF q, of 0 "so_key s" info d'] queue_take_remove [OF q, of 0 "so_key s" info d']
      d'(2) ds by auto
  then obtain q' where q': "(if de_sources d' \<noteq> [] then packetQueue_Fix ?qs 0 else packetQueue_Remove ?qs 0) = Ok q'"
      "queue_took q (de_key d) (so_key s) info q'" by blast
  have "0 < q_size q" using pq_inv_size_0 [OF q] assms(2) by (simp add: word_gt_0)
  then have "pop q = Ok (q', Some info)"
    using d'(1) q'(1) ds ss rest
    by (cases "rest = []"; cases "de_sources d' = []") (simp_all add: pop_def Let_def update_order)
  with q'(2) show ?thesis by blast
qed

section \<open>Correctness of drop\<close>

lemma largest_foldl:
  fixes sz :: "'a \<Rightarrow> u64"
  assumes "0 < n" "n \<le> length xs"
  defines "m \<equiv> foldl (\<lambda>m idx. if sz (xs ! m) < sz (xs ! idx) then idx else m) 0 [0..<n]"
  shows "m < n \<and> (\<forall>k<n. sz (xs ! k) \<le> sz (xs ! m))"
  unfolding m_def using assms(1,2)
proof (induction n)
  case (Suc n)
  show ?case
  proof (cases "n = 0")
    case False
    with Suc show ?thesis
      by (auto simp: less_Suc_eq not_less intro: order_trans less_imp_le)
  qed simp
qed simp

lemma largest_less: "xs \<noteq> [] \<Longrightarrow> largest sz xs < length xs"
  using largest_foldl [of "length xs" xs sz] by (simp add: largest_def)

lemma largest_max: "x \<in> set xs \<Longrightarrow> sz x \<le> sz (xs ! largest sz xs)"
  using largest_foldl [of "length xs" xs sz]
  by (cases "xs = []") (auto simp: largest_def [symmetric] in_set_conv_nth)

lemma drop_empty: "q_dests q = [] \<Longrightarrow> pq_inv q \<Longrightarrow> drop_pkt q = Ok (q, False)"
  by (simp add: drop_pkt_def pq_inv_size_0 [symmetric])

lemma drop_nonempty:
  assumes q: "pq_inv q" and "q_dests q \<noteq> []"
  defines "d \<equiv> q_dests q ! largest de_size (q_dests q)"
  defines "s \<equiv> de_sources d ! largest so_size (de_sources d)"
  defines "info \<equiv> hd (so_infos s)"
  shows "\<exists>q'. drop_pkt q = Ok (q', True) \<and> queue_took q (de_key d) (so_key s) info q'"
proof -
  let ?i = "largest de_size (q_dests q)" and ?j = "largest so_size (de_sources d)"
  have i: "?i < length (q_dests q)" using assms(2) by (rule largest_less)
  have d: "dest_ok d" using q i by (simp add: pq_inv_def bag_inv_def d_def)
  then have j: "?j < length (de_sources d)" by (intro largest_less) (simp add: dest_ok_def)
  have s: "source_ok s" using d j by (simp add: dest_ok_def bag_inv_def s_def)
  then obtain rest where rest: "so_infos s = info # rest"
    by (cases "so_infos s") (auto simp: source_ok_def info_def)
  let ?s' = "s\<lparr>so_size := so_size s - pi_size info, so_infos := rest\<rparr>"
  let ?d0 = "d\<lparr>de_sources := (de_sources d)[?j := ?s']\<rparr>"
  have pos: "0 < so_size s - pi_size info \<longleftrightarrow> rest \<noteq> []" using source_tail(3) [OF s rest] by simp
  have "\<exists>ss. (if 0 < so_size s - pi_size info then pqDest_Fix ?d0 ?j else pqDest_Remove ?d0 ?j)
        = Ok (d\<lparr>de_sources := ss\<rparr>)
      \<and> dest_took d (so_key s) info (d\<lparr>de_sources := ss, de_size := de_size d - pi_size info\<rparr>)"
  proof (cases "rest = []")
    case True
    then have "so_size ?s' = 0" using pos by (simp add: word_gt_0)
    from dest_take_remove [OF d j _ this] obtain ss where
      "\<forall>z. pqDest_Remove (d\<lparr>de_sources := (de_sources d)[?j := ?s'], de_size := z\<rparr>) ?j = Ok (d\<lparr>de_sources := ss, de_size := z\<rparr>)"
      "dest_took d (so_key s) info (d\<lparr>de_sources := ss, de_size := de_size d - pi_size info\<rparr>)"
      using rest True by (auto simp: s_def)
    then show ?thesis using True pos by (auto dest!: spec [of _ "de_size d"])
  next
    case False
    from dest_take_fix [OF d j _ this] obtain ss where
      "\<forall>z. pqDest_Fix (d\<lparr>de_sources := (de_sources d)[?j := ?s'], de_size := z\<rparr>) ?j = Ok (d\<lparr>de_sources := ss, de_size := z\<rparr>)"
      "dest_took d (so_key s) info (d\<lparr>de_sources := ss, de_size := de_size d - pi_size info\<rparr>)"
      using rest by (auto simp: s_def)
    then show ?thesis using False pos by (auto dest!: spec [of _ "de_size d"])
  qed
  then obtain ss where ss: "(if 0 < so_size s - pi_size info then pqDest_Fix ?d0 ?j else pqDest_Remove ?d0 ?j)
        = Ok (d\<lparr>de_sources := ss\<rparr>)"
      "dest_took d (so_key s) info (d\<lparr>de_sources := ss, de_size := de_size d - pi_size info\<rparr>)" by blast
  let ?d' = "d\<lparr>de_sources := ss, de_size := de_size d - pi_size info\<rparr>"
  let ?q0 = "q\<lparr>q_dests := (q_dests q)[?i := ?d']\<rparr>"
  have pos': "0 < de_size ?d' \<longleftrightarrow> ss \<noteq> []" using ss(2) by (simp add: dest_took_def)
  have "\<exists>ds. (if 0 < de_size ?d' then packetQueue_Fix ?q0 ?i else packetQueue_Remove ?q0 ?i)
        = Ok (q\<lparr>q_dests := ds\<rparr>)
      \<and> queue_took q (de_key d) (so_key s) info (q\<lparr>q_dests := ds, q_size := q_size q - pi_size info\<rparr>)"
    using queue_take_fix [OF q i ss(2) [unfolded d_def]] queue_take_remove [OF q i ss(2) [unfolded d_def]] pos'
    by (cases "ss = []") (auto simp: d_def dest!: spec [of _ "q_size q"])
  then obtain ds where ds: "(if 0 < de_size ?d' then packetQueue_Fix ?q0 ?i else packetQueue_Remove ?q0 ?i)
        = Ok (q\<lparr>q_dests := ds\<rparr>)"
      "queue_took q (de_key d) (so_key s) info (q\<lparr>q_dests := ds, q_size := q_size q - pi_size info\<rparr>)" by blast
  have "drop_pkt q = Ok (q\<lparr>q_dests := ds, q_size := q_size q - pi_size info\<rparr>, True)"
    using ss(1) ds(1) i j rest pq_inv_size_0 [OF q] assms(2)
    by (simp add: drop_pkt_def Let_def d_def [symmetric] s_def [symmetric] split: if_splits)
  with ds(2) show ?thesis by blast
qed

section \<open>Correctness of push\<close>

lemma find_idx_Some: "find_idx P xs = Some i \<Longrightarrow> i < length xs \<and> P (xs ! i)"
  by (induction P xs arbitrary: i rule: find_idx.induct) (auto split: if_splits)

lemma find_idx_None: "find_idx P xs = None \<Longrightarrow> x \<in> set xs \<Longrightarrow> \<not> P x"
  by (induction P xs rule: find_idx.induct) (auto split: if_splits)

lemma find_idx_key_None: "find_idx (\<lambda>x. key x = k) xs = None \<Longrightarrow> k \<notin> key ` set xs"
  by (auto dest: find_idx_None)

lemma unat_plus_exact:
  fixes a b :: u64
  assumes "unat a + unat b < 2 ^ 64"
  shows "unat (a + b) = unat a + unat b"
  using assms by (simp add: unat_word_ariths)

lemma source_push:
  assumes "source_ok s" "info_ok info" "packet_sourceKey (pi_packet info) = so_key s"
    and "\<forall>i\<in>set (so_infos s). pi_time i \<le> pi_time info" "unat (so_size s) + unat (pi_size info) < 2 ^ 64"
  defines "s' \<equiv> s\<lparr>so_infos := so_infos s @ [info], so_size := so_size s + pi_size info\<rparr>"
  shows "source_ok s'" "source_age s' = source_age s"
    "unat (so_size s') = unat (so_size s) + unat (pi_size info)"
  using assms by (auto simp: source_ok_def source_age_def sorted_append unat_plus_exact)

text \<open>A group that is new or well-formed is well-formed after \<^verbatim>\<open>push\<close>.\<close>

definition dest_pre :: "pqDest \<Rightarrow> pqPacketInfo \<Rightarrow> bool" where
  "dest_pre d info \<longleftrightarrow> (dest_ok d \<or> de_sources d = [] \<and> de_size d = 0)
     \<and> info_ok info \<and> packet_destKey (pi_packet info) = de_key d
     \<and> (\<forall>s\<in>set (de_sources d). \<forall>i\<in>set (so_infos s). pi_time i \<le> pi_time info)
     \<and> unat (de_size d) + unat (pi_size info) < 2 ^ 64"

definition dest_pushed :: "pqDest \<Rightarrow> pqPacketInfo \<Rightarrow> pqDest \<Rightarrow> bool" where
  "dest_pushed d info d' \<longleftrightarrow> dest_ok d' \<and> de_key d' = de_key d
     \<and> (let s = packet_sourceKey (pi_packet info)
        in infos_of (de_sources d') = (infos_of (de_sources d))(s := infos_of (de_sources d) s @ [info]))
     \<and> unat (de_size d') = unat (de_size d) + unat (pi_size info)
     \<and> (de_sources d \<noteq> [] \<longrightarrow> dest_age d' = dest_age d)"

lemma dest_pre_facts:
  assumes "dest_pre d info"
  shows "bag_inv so_key source_age source_ok (de_sources d)"
    and "\<forall>s\<in>set (de_sources d). \<forall>i\<in>set (so_infos s). packet_destKey (pi_packet i) = de_key d"
    and "unat (de_size d) = (\<Sum>s\<leftarrow>de_sources d. unat (so_size s))"
    and "unat (de_size d + pi_size info) = unat (de_size d) + unat (pi_size info)"
  using assms by (auto simp: dest_pre_def dest_ok_def unat_plus_exact)

lemma push_dest_new:
  assumes pre: "dest_pre d info" and "packet_sourceKey (pi_packet info) = sKey"
    and new: "find_idx (\<lambda>s. so_key s = sKey) (de_sources d) = None"
  shows "dest_pushed d info (push_dest d sKey info)"
proof -
  let ?ss = "de_sources d"
  note facts = dest_pre_facts [OF pre]
  define s' where "s' = \<lparr>so_key = sKey, so_infos = [info], so_size = pi_size info\<rparr>"
  have d': "push_dest d sKey info = d\<lparr>de_sources := ?ss @ [s'], de_size := de_size d + pi_size info\<rparr>"
    using new by (simp add: push_dest_def s'_def)
  have ok: "source_ok s'" using assms(1,2) by (simp add: source_ok_def s'_def dest_pre_def)
  have fresh: "so_key s' \<notin> so_key ` set ?ss" using find_idx_key_None [OF new] by (simp add: s'_def)
  have "bag_inv so_key source_age source_ok (?ss @ [s'])"
  proof (rule bag_inv_snoc [OF facts(1) ok fresh])
    fix y assume "y \<in> set ?ss"
    then show "source_age y \<le> source_age s'"
      using facts(1) pre by (auto simp: bag_inv_def source_age_def source_ok_def s'_def dest_pre_def)
  qed
  then have "dest_ok (push_dest d sKey info)"
    using pre facts by (auto simp: dest_ok_def d' s'_def dest_pre_def)
  moreover have "infos_of (?ss @ [s']) = (infos_of ?ss)(sKey := infos_of ?ss sKey @ [info])"
  proof -
    have "kmap so_key ?ss sKey = None" using fresh by (simp add: kmap_eq_None s'_def)
    then show ?thesis using kmap_snoc [OF fresh] by (auto simp: infos_of_def fun_eq_iff s'_def)
  qed
  ultimately show ?thesis using facts(4) assms(2) by (auto simp: dest_pushed_def d' dest_age_def)
qed

lemma push_dest_old:
  assumes pre: "dest_pre d info" and src: "packet_sourceKey (pi_packet info) = sKey"
    and old: "find_idx (\<lambda>s. so_key s = sKey) (de_sources d) = Some j"
  shows "dest_pushed d info (push_dest d sKey info)"
proof -
  let ?ss = "de_sources d"
  note facts = dest_pre_facts [OF pre]
  have j: "j < length ?ss" and key: "so_key (?ss ! j) = sKey" using find_idx_Some [OF old] by auto
  define s' where "s' = (?ss ! j)\<lparr>so_infos := so_infos (?ss ! j) @ [info], so_size := so_size (?ss ! j) + pi_size info\<rparr>"
  have d': "push_dest d sKey info = d\<lparr>de_sources := ?ss[j := s'], de_size := de_size d + pi_size info\<rparr>"
    using old by (simp add: push_dest_def s'_def Let_def)
  have "unat (so_size (?ss ! j)) \<le> unat (de_size d)"
    using facts(3) sum_list_member_le [of "?ss ! j" ?ss "\<lambda>s. unat (so_size s)"] j by simp
  moreover have "\<forall>i\<in>set (so_infos (?ss ! j)). pi_time i \<le> pi_time info"
    using pre nth_mem [OF j] by (auto simp: dest_pre_def)
  ultimately have s': "source_ok s'" "source_age s' = source_age (?ss ! j)"
      "unat (so_size s') = unat (so_size (?ss ! j)) + unat (pi_size info)"
    using source_push [of "?ss ! j" info] bag_inv_nth [OF facts(1) j] pre src key j
    by (auto simp: s'_def dest_pre_def)
  have key': "so_key s' = so_key (?ss ! j)" by (simp add: s'_def)
  have bag': "bag_inv so_key source_age source_ok (?ss[j := s'])"
    using bag_inv_same_age [OF facts(1) j s'(1) key' s'(2)] .
  have "set (so_infos s') = insert info (set (so_infos (?ss ! j)))" by (auto simp: s'_def)
  then have "\<forall>s\<in>insert s' (set ?ss). \<forall>i\<in>set (so_infos s). packet_destKey (pi_packet i) = de_key d"
    using facts(2) pre nth_mem [OF j] by (simp add: dest_pre_def)
  then have "\<forall>s\<in>set (?ss[j := s']). \<forall>i\<in>set (so_infos s). packet_destKey (pi_packet i) = de_key d"
    using set_update_subset_insert [of ?ss j s'] by (meson subsetD)
  then have "dest_ok (push_dest d sKey info)"
    using bag' facts(3,4) sum_list_upd [OF j, of "\<lambda>s. unat (so_size s)" s'] s'(3) j
    by (auto simp: dest_ok_def d')
  moreover have "infos_of (?ss[j := s']) = (infos_of ?ss)(sKey := infos_of ?ss sKey @ [info])"
    using infos_of_update [OF _ j key', of "?ss[j := s']"] infos_of_nth [OF _ j] facts(1) key
    by (simp add: bag_inv_def s'_def)
  moreover have "source_age (hd (?ss[j := s'])) = source_age (hd ?ss)"
    using j s'(2) by (cases ?ss; cases j) auto
  ultimately show ?thesis using facts(4) src by (simp add: dest_pushed_def d' dest_age_def)
qed

lemma push_dest_pushed:
  "dest_pre d info \<Longrightarrow> dest_pushed d info (push_dest d (packet_sourceKey (pi_packet info)) info)"
  by (cases "find_idx (\<lambda>s. so_key s = packet_sourceKey (pi_packet info)) (de_sources d)")
    (auto intro: push_dest_new push_dest_old)

definition queue_pushed :: "packetQueue \<Rightarrow> pqPacketInfo \<Rightarrow> packetQueue \<Rightarrow> bool" where
  "queue_pushed q info q' \<longleftrightarrow> pq_inv q'
     \<and> (let d = packet_destKey (pi_packet info); s = packet_sourceKey (pi_packet info)
        in streams q' = (streams q)(d := (streams q d)(s := streams q d s @ [info])))
     \<and> unat (q_size q') = unat (q_size q) + unat (pi_size info)"

lemma streams_mem:
  assumes "pq_inv q" "dd \<in> set (q_dests q)" "ss \<in> set (de_sources dd)"
  shows "streams q (de_key dd) (so_key ss) = so_infos ss"
proof -
  have "kmap de_key (q_dests q) (de_key dd) = Some dd"
    using assms by (simp add: pq_inv_def bag_inv_def kmap_eq_Some)
  moreover have "distinct (map so_key (de_sources dd))"
    using assms by (simp add: pq_inv_def bag_inv_def dest_ok_def)
  then have "kmap so_key (de_sources dd) (so_key ss) = Some ss"
    using assms by (simp add: kmap_eq_Some)
  ultimately show ?thesis by (simp add: streams_def infos_of_def)
qed

abbreviation packet_info :: "pqPacket \<Rightarrow> nat \<Rightarrow> pqPacketInfo" where
  "packet_info packet now \<equiv>
     \<lparr>pi_packet = packet, pi_size = of_nat (packet_size packet), pi_time = now\<rparr>"

definition push_pre :: "packetQueue \<Rightarrow> pqPacket \<Rightarrow> nat \<Rightarrow> bool" where
  "push_pre q packet now \<longleftrightarrow> pq_inv q \<and> (\<forall>d s. \<forall>i\<in>set (streams q d s). pi_time i \<le> now)
     \<and> unat (q_size q) + packet_size packet < 2 ^ 64"

lemma push_pre_size:
  assumes "push_pre q packet now"
  shows "unat (of_nat (packet_size packet) :: u64) = packet_size packet"
    and "unat (q_size q + of_nat (packet_size packet)) = unat (q_size q) + packet_size packet"
proof -
  show sz: "unat (of_nat (packet_size packet) :: u64) = packet_size packet"
    using assms by (simp add: push_pre_def unat_of_nat)
  show "unat (q_size q + of_nat (packet_size packet)) = unat (q_size q) + packet_size packet"
    using assms sz unat_plus_exact [of "q_size q" "of_nat (packet_size packet)"] by (simp add: push_pre_def)
qed

lemma push_pre_dest:
  assumes pre: "push_pre q packet now" and key: "de_key d = packet_destKey packet"
    and d: "d \<in> set (q_dests q) \<or> de_sources d = [] \<and> de_size d = 0"
  shows "dest_pre d (packet_info packet now)"
proof -
  have q: "pq_inv q" using pre by (simp add: push_pre_def)
  then have "unat (de_size d) \<le> unat (q_size q)"
    using d sum_list_member_le [of d "q_dests q" "\<lambda>d. unat (de_size d)"] by (auto simp: pq_inv_def)
  moreover have "\<forall>s\<in>set (de_sources d). \<forall>i\<in>set (so_infos s). pi_time i \<le> now"
  proof (intro ballI)
    fix s i assume m: "s \<in> set (de_sources d)" "i \<in> set (so_infos s)"
    then have "streams q (de_key d) (so_key s) = so_infos s"
      using d streams_mem [OF q, of d s] by auto
    then show "pi_time i \<le> now" using m pre by (simp add: push_pre_def) metis
  qed
  ultimately show ?thesis
    using d key pre push_pre_size [OF pre]
    by (auto simp: dest_pre_def info_ok_def push_pre_def pq_inv_def bag_inv_def)
qed

lemma push_new:
  assumes pre: "push_pre q packet now"
    and None: "find_idx (\<lambda>d. de_key d = packet_destKey packet) (q_dests q) = None"
  shows "queue_pushed q (packet_info packet now) (push q packet now)"
proof -
  let ?ds = "q_dests q" and ?info = "packet_info packet now"
  have bag: "bag_inv de_key dest_age dest_ok ?ds" and q: "pq_inv q"
    using pre by (auto simp: push_pre_def pq_inv_def)
  define d where "d = \<lparr>de_key = packet_destKey packet, de_sources = [], de_size = 0 :: u64\<rparr>"
  define d' where "d' = push_dest d (packet_sourceKey packet) ?info"
  have eq: "push q packet now = q\<lparr>q_dests := ?ds @ [d'], q_size := q_size q + of_nat (packet_size packet)\<rparr>"
    using None by (simp add: push_def Let_def d'_def d_def)
  have P: "dest_pushed d ?info d'"
    using push_dest_pushed [OF push_pre_dest [OF pre, of d]] by (simp add: d_def d'_def)
  have fresh: "de_key d' \<notin> de_key ` set ?ds"
    using find_idx_key_None [OF None] P by (simp add: dest_pushed_def d_def)
  have age: "dest_age d' = now"
    by (simp add: d'_def d_def push_dest_def dest_age_def source_age_def)
  have "bag_inv de_key dest_age dest_ok (?ds @ [d'])"
  proof (rule bag_inv_snoc [OF bag _ fresh])
    show "dest_ok d'" using P by (simp add: dest_pushed_def)
    fix y assume y: "y \<in> set ?ds"
    then have "dest_ok y" using bag by (simp add: bag_inv_def)
    then have *: "hd (de_sources y) \<in> set (de_sources y)" "so_infos (hd (de_sources y)) \<noteq> []"
      by (auto simp: dest_ok_def bag_inv_def source_ok_def)
    then have "hd (so_infos (hd (de_sources y))) \<in> set (streams q (de_key y) (so_key (hd (de_sources y))))"
      by (simp add: streams_mem [OF q y])
    then have "dest_age y \<le> now"
      using pre unfolding dest_age_def source_age_def push_pre_def by blast
    then show "dest_age y \<le> dest_age d'" by (simp add: age)
  qed
  moreover have "kmap de_key ?ds (packet_destKey packet) = None"
    using fresh P by (simp add: kmap_eq_None dest_pushed_def d_def)
  moreover have "kmap de_key (?ds @ [d']) = (kmap de_key ?ds)(packet_destKey packet \<mapsto> d')"
    using kmap_snoc [OF fresh] P by (simp add: dest_pushed_def d_def)
  ultimately show ?thesis
    using P q push_pre_size [OF pre] unfolding eq
    by (auto simp: queue_pushed_def pq_inv_def dest_pushed_def streams_def Let_def d_def fun_eq_iff)
qed

lemma push_old:
  assumes pre: "push_pre q packet now"
    and Some: "find_idx (\<lambda>d. de_key d = packet_destKey packet) (q_dests q) = Some i"
  shows "queue_pushed q (packet_info packet now) (push q packet now)"
proof -
  let ?ds = "q_dests q" and ?info = "packet_info packet now"
  have bag: "bag_inv de_key dest_age dest_ok ?ds" and sum: "unat (q_size q) = (\<Sum>d\<leftarrow>?ds. unat (de_size d))"
    using pre by (auto simp: push_pre_def pq_inv_def)
  have i: "i < length ?ds" and key: "de_key (?ds ! i) = packet_destKey packet"
    using find_idx_Some [OF Some] by auto
  define d' where "d' = push_dest (?ds ! i) (packet_sourceKey packet) ?info"
  have eq: "push q packet now = q\<lparr>q_dests := ?ds[i := d'], q_size := q_size q + of_nat (packet_size packet)\<rparr>"
    using Some by (simp add: push_def Let_def d'_def)
  have P: "dest_pushed (?ds ! i) ?info d'"
    using push_dest_pushed [OF push_pre_dest [OF pre, of "?ds ! i"]] i key by (simp add: d'_def)
  have ok: "dest_ok d'" "de_key d' = de_key (?ds ! i)" "dest_age d' = dest_age (?ds ! i)"
    using P bag_inv_nth [OF bag i] by (auto simp: dest_pushed_def dest_ok_def)
  have "bag_inv de_key dest_age dest_ok (?ds[i := d'])"
    using bag_inv_same_age [OF bag i ok] .
  moreover have "kmap de_key (?ds[i := d']) = (kmap de_key ?ds)(packet_destKey packet \<mapsto> d')"
    using kmap_update [OF _ i ok(2)] bag ok(2) key by (simp add: bag_inv_def)
  moreover have "kmap de_key ?ds (packet_destKey packet) = Some (?ds ! i)"
    using bag i key by (simp add: kmap_eq_Some bag_inv_def)
  ultimately show ?thesis
    using P push_pre_size [OF pre] sum sum_list_upd [OF i, of "\<lambda>d. unat (de_size d)" d'] unfolding eq
    by (auto simp: queue_pushed_def pq_inv_def dest_pushed_def streams_def Let_def fun_eq_iff)
qed

lemma push_pushed: "push_pre q packet now \<Longrightarrow> queue_pushed q (packet_info packet now) (push q packet now)"
  by (cases "find_idx (\<lambda>d. de_key d = packet_destKey packet) (q_dests q)") (auto intro: push_new push_old)

section \<open>The contract the queue's clients rely on\<close>

text \<open>
  \<open>drop_excess\<close> is the loop with which both clients bound their queue;
  \<open>None\<close> would be a loop that does not end. \<open>run_ops\<close> runs a sequence of queue operations and
  collects the packets that \<^verbatim>\<open>pop\<close> returns.
\<close>

definition drop_excess :: "('q \<Rightarrow> ('q \<times> bool) go) \<Rightarrow> ('q \<Rightarrow> u64) \<Rightarrow> u64 \<Rightarrow> 'q \<Rightarrow> 'q go option" where
  "drop_excess drp sz lim q =
     while_option (\<lambda>r. case r of Ok q \<Rightarrow> lim < sz q | Panic \<Rightarrow> False)
       (\<lambda>r. go_bind r (\<lambda>q. go_bind (drp q) (\<lambda>(q', _). Ok q'))) (Ok q)"

datatype qop = QPush pqPacket nat | QPop | QDrop

fun run_ops :: "('q \<Rightarrow> pqPacket \<Rightarrow> nat \<Rightarrow> 'q) \<Rightarrow> ('q \<Rightarrow> ('q \<times> pqPacketInfo option) go)
    \<Rightarrow> ('q \<Rightarrow> ('q \<times> bool) go) \<Rightarrow> qop list \<Rightarrow> 'q \<Rightarrow> ('q \<times> pqPacketInfo list) go" where
  "run_ops psh pp drp [] q = Ok (q, [])"
| "run_ops psh pp drp (QPush p t # ops) q = run_ops psh pp drp ops (psh q p t)"
| "run_ops psh pp drp (QPop # ops) q =
     go_bind (pp q) (\<lambda>(q', r). go_bind (run_ops psh pp drp ops q') (\<lambda>(q'', out).
       Ok (q'', case r of None \<Rightarrow> out | Some i \<Rightarrow> i # out)))"
| "run_ops psh pp drp (QDrop # ops) q =
     go_bind (drp q) (\<lambda>(q', _). run_ops psh pp drp ops q')"

fun pushes :: "qop list \<Rightarrow> pqPacketInfo list" where
  "pushes [] = []"
| "pushes (QPush p t # ops) = packet_info p t # pushes ops"
| "pushes (QPop # ops) = pushes ops"
| "pushes (QDrop # ops) = pushes ops"

definition sel :: "publicKey \<Rightarrow> publicKey \<Rightarrow> pqPacketInfo list \<Rightarrow> pqPacketInfo list" where
  "sel d s = filter (\<lambda>i. packet_destKey (pi_packet i) = d \<and> packet_sourceKey (pi_packet i) = s)"

lemma sel_simps [simp]:
  "sel d s [] = []"
  "sel d s (i # is) = (if packet_destKey (pi_packet i) = d \<and> packet_sourceKey (pi_packet i) = s
                       then i # sel d s is else sel d s is)"
  by (simp_all add: sel_def)

definition upd :: "streams \<Rightarrow> publicKey \<Rightarrow> publicKey \<Rightarrow> pqPacketInfo list \<Rightarrow> streams" where
  "upd f d s is = f(d := (f d)(s := is))"

lemma upd_apply: "upd f d s is d' s' = (if d' = d \<and> s' = s then is else f d' s')"
  by (simp add: upd_def)

lemma upd_tail: "f d s = i # rest \<Longrightarrow> j \<in> set (upd f d s rest d' s') \<Longrightarrow> j \<in> set (f d' s')"
  by (auto simp: upd_apply split: if_splits)

text \<open>
  \<open>delivered f ops out g\<close>: from the streams \<open>f\<close>, the operations \<open>ops\<close> return the packets \<open>out\<close> and
  leave the streams \<open>g\<close>, so that every stream is served in order; without drops, nothing is lost.
\<close>

definition delivered :: "streams \<Rightarrow> qop list \<Rightarrow> pqPacketInfo list \<Rightarrow> streams \<Rightarrow> bool" where
  "delivered f ops out g \<longleftrightarrow>
     (\<forall>d s. subseq (sel d s out @ g d s) (f d s @ sel d s (pushes ops)))
   \<and> (QDrop \<notin> set ops \<longrightarrow> (\<forall>d s. sel d s out @ g d s = f d s @ sel d s (pushes ops)))"

lemma delivered_Nil: "delivered f [] [] f"
  by (simp add: delivered_def)

lemma delivered_push:
  assumes "delivered (upd f (packet_destKey p) (packet_sourceKey p)
      (f (packet_destKey p) (packet_sourceKey p) @ [packet_info p t])) ops out g"
  shows "delivered f (QPush p t # ops) out g"
proof -
  have "upd f (packet_destKey p) (packet_sourceKey p)
      (f (packet_destKey p) (packet_sourceKey p) @ [packet_info p t]) d s @ sel d s (pushes ops)
      = f d s @ sel d s (pushes (QPush p t # ops))" for d s
    by (simp add: upd_apply)
  then show ?thesis using assms by (simp add: delivered_def)
qed

lemma delivered_pop:
  assumes "f d s = i # rest" "packet_destKey (pi_packet i) = d" "packet_sourceKey (pi_packet i) = s"
    and "delivered (upd f d s rest) ops out g"
  shows "delivered f (QPop # ops) (i # out) g"
proof -
  have "f d' s' @ x = sel d' s' [i] @ upd f d s rest d' s' @ x" for d' s' x
    using assms(1-3) by (simp add: upd_apply)
  moreover have "sel d' s' (i # out) @ x = sel d' s' [i] @ sel d' s' out @ x" for d' s' x
    by simp
  ultimately show ?thesis
    using assms(4) unfolding delivered_def by (simp add: list_emb_append_mono del: sel_simps)
qed

lemma delivered_idle: "delivered f ops out g \<Longrightarrow> op = QPop \<or> op = QDrop \<Longrightarrow> delivered f (op # ops) out g"
  by (auto simp: delivered_def)

lemma delivered_drop:
  assumes "f d s = i # rest" "delivered (upd f d s rest) ops out g"
  shows "delivered f (QDrop # ops) out g"
proof -
  have "subseq (upd f d s rest d' s' @ x) (f d' s' @ x)" for d' s' x
    using assms(1) by (auto simp: upd_apply intro: list_emb_Cons)
  then have "subseq (sel d' s' out @ g d' s') (f d' s' @ sel d' s' (pushes ops))" for d' s'
    using assms(2) subseq_order.order_trans unfolding delivered_def by blast
  then show ?thesis by (simp add: delivered_def)
qed

locale stream_queue =
  fixes inv :: "'q \<Rightarrow> bool" and sz :: "'q \<Rightarrow> u64" and strm :: "'q \<Rightarrow> streams"
    and psh :: "'q \<Rightarrow> pqPacket \<Rightarrow> nat \<Rightarrow> 'q" and pp :: "'q \<Rightarrow> ('q \<times> pqPacketInfo option) go"
    and drp :: "'q \<Rightarrow> ('q \<times> bool) go"
  assumes strm_keys: "inv q \<Longrightarrow> i \<in> set (strm q d s)
      \<Longrightarrow> packet_destKey (pi_packet i) = d \<and> packet_sourceKey (pi_packet i) = s"
    and psh_law: "inv q \<Longrightarrow> \<forall>d s. \<forall>i\<in>set (strm q d s). pi_time i \<le> now
      \<Longrightarrow> unat (sz q) + packet_size p < 2 ^ 64
      \<Longrightarrow> inv (psh q p now) \<and> unat (sz (psh q p now)) = unat (sz q) + packet_size p
        \<and> strm (psh q p now) = upd (strm q) (packet_destKey p) (packet_sourceKey p)
            (strm q (packet_destKey p) (packet_sourceKey p) @ [packet_info p now])"
    and pp_law: "inv q \<Longrightarrow> pp q = Ok (q, None) \<and> strm q = (\<lambda>d s. [])
      \<or> (\<exists>q' d s i rest. pp q = Ok (q', Some i) \<and> inv q' \<and> unat (sz q') < unat (sz q)
            \<and> strm q d s = i # rest \<and> strm q' = upd (strm q) d s rest)"
    and drp_law: "inv q \<Longrightarrow> drp q = Ok (q, False) \<and> sz q = 0
      \<or> (\<exists>q' d s i rest. drp q = Ok (q', True) \<and> inv q' \<and> unat (sz q') < unat (sz q)
            \<and> strm q d s = i # rest \<and> strm q' = upd (strm q) d s rest)"
begin

text \<open>The bounding loop ends, with the bound met, having dropped only oldest packets of streams.\<close>

lemma excess_dropped:
  assumes "inv q"
  shows "\<exists>q'. drop_excess drp sz lim q = Some (Ok q') \<and> inv q' \<and> sz q' \<le> lim
      \<and> (\<forall>d s. suffix (strm q' d s) (strm q d s))"
proof -
  let ?P = "\<lambda>r. \<exists>q'. r = Ok q' \<and> inv q' \<and> (\<forall>d s. suffix (strm q' d s) (strm q d s))"
  let ?b = "\<lambda>r. case r of Ok q \<Rightarrow> lim < sz q | Panic \<Rightarrow> False"
  let ?c = "\<lambda>r. go_bind r (\<lambda>q. go_bind (drp q) (\<lambda>(q', _). Ok q'))"
  have step: "?P (?c r) \<and> unat (sz (the_ok (?c r))) < unat (sz (the_ok r))" if r: "?P r" "?b r" for r
  proof -
    obtain q1 where q1: "r = Ok q1" "inv q1" "\<forall>d s. suffix (strm q1 d s) (strm q d s)" "lim < sz q1"
      using r by auto
    then have "sz q1 \<noteq> 0" by auto
    then obtain q' d s i rest where q': "drp q1 = Ok (q', True)" "inv q'" "unat (sz q') < unat (sz q1)"
        "strm q1 d s = i # rest" "strm q' = upd (strm q1) d s rest"
      using drp_law [OF q1(2)] by auto
    have "suffix (strm q' d' s') (strm q1 d' s')" for d' s'
      using q'(4,5) by (auto simp: upd_apply suffix_ConsI)
    then show ?thesis
      using q1 q' suffix_order.order_trans by (auto simp: go_bind_def) blast
  qed
  have start: "?P (Ok q)" using assms by simp
  obtain r where r: "while_option ?b ?c (Ok q) = Some r"
    using measure_while_option_Some [of ?P ?b ?c "\<lambda>r. unat (sz (the_ok r))", OF step start] by blast
  have "?P r" using while_option_rule [of ?P ?b ?c, OF _ r start] step by blast
  moreover have "\<not> ?b r" using while_option_stop [OF r] .
  ultimately show ?thesis using r by (auto simp: drop_excess_def not_less)
qed

lemma ops_in_order:
  assumes "inv q" "\<forall>d s. \<forall>i\<in>set (strm q d s). pi_time i \<le> now"
    and "sorted (now # map pi_time (pushes ops))"
    and "unat (sz q) + (\<Sum>i\<leftarrow>pushes ops. packet_size (pi_packet i)) < 2 ^ 64"
  shows "\<exists>q' out. run_ops psh pp drp ops q = Ok (q', out) \<and> inv q' \<and> delivered (strm q) ops out (strm q')"
  using assms
proof (induction ops arbitrary: q now)
  case Nil
  then show ?case by (simp add: delivered_Nil)
next
  case (Cons op ops)
  have idle: "\<exists>q' out. run_ops psh pp drp ops q1 = Ok (q', out) \<and> inv q' \<and> delivered (strm q1) ops out (strm q')"
    if "op = QPop \<or> op = QDrop" "inv q1" "unat (sz q1) \<le> unat (sz q)"
      "\<And>d s j. j \<in> set (strm q1 d s) \<Longrightarrow> j \<in> set (strm q d s)" for q1
  proof (rule Cons.IH [OF that(2)])
    show "\<forall>d s. \<forall>i\<in>set (strm q1 d s). pi_time i \<le> now" using that(4) Cons.prems(2) by blast
    show "sorted (now # map pi_time (pushes ops))" using that(1) Cons.prems(3) by auto
    show "unat (sz q1) + (\<Sum>i\<leftarrow>pushes ops. packet_size (pi_packet i)) < 2 ^ 64"
      using that(1,3) Cons.prems(4) by auto
  qed
  show ?case
  proof (cases op)
    case (QPush p t)
    have t: "now \<le> t" "sorted (t # map pi_time (pushes ops))"
      and n: "unat (sz q) + packet_size p + (\<Sum>i\<leftarrow>pushes ops. packet_size (pi_packet i)) < 2 ^ 64"
      using Cons.prems(3,4) by (auto simp: QPush)
    have now: "\<forall>d s. \<forall>i\<in>set (strm q d s). pi_time i \<le> t"
      using Cons.prems(2) t(1) order_trans by blast
    have P: "inv (psh q p t)" "unat (sz (psh q p t)) = unat (sz q) + packet_size p"
        "strm (psh q p t) = upd (strm q) (packet_destKey p) (packet_sourceKey p)
          (strm q (packet_destKey p) (packet_sourceKey p) @ [packet_info p t])"
      using psh_law [OF Cons.prems(1) now, of p] n by auto
    have now': "\<forall>d s. \<forall>i\<in>set (strm (psh q p t) d s). pi_time i \<le> t"
      using now by (simp add: P(3) upd_apply)
    obtain q' out where "run_ops psh pp drp ops (psh q p t) = Ok (q', out)" "inv q'"
        "delivered (strm (psh q p t)) ops out (strm q')"
      using Cons.IH [OF P(1) now' t(2)] n P(2) by auto
    then show ?thesis using delivered_push by (simp add: QPush P(3))
  next
    case QPop
    consider (none) "pp q = Ok (q, None)" | (some) q' d s i rest where "pp q = Ok (q', Some i)" "inv q'"
        "unat (sz q') < unat (sz q)" "strm q d s = i # rest" "strm q' = upd (strm q) d s rest"
      using pp_law [OF Cons.prems(1)] by blast
    then show ?thesis
    proof cases
      case none
      then show ?thesis using idle [of q] Cons.prems(1) QPop delivered_idle by auto
    next
      case some
      have k: "packet_destKey (pi_packet i) = d" "packet_sourceKey (pi_packet i) = s"
        using strm_keys [OF Cons.prems(1), of i d s] some(4) by auto
      obtain q'' out where "run_ops psh pp drp ops q' = Ok (q'', out)" "inv q''"
          "delivered (strm q') ops out (strm q'')"
        using idle [of q'] some upd_tail [of "strm q", OF some(4)] QPop by auto
      then show ?thesis
        using delivered_pop [of "strm q", OF some(4) k] some(1,5) QPop by simp
    qed
  next
    case QDrop
    consider (none) "drp q = Ok (q, False)" | (some) q' d s i rest where "drp q = Ok (q', True)" "inv q'"
        "unat (sz q') < unat (sz q)" "strm q d s = i # rest" "strm q' = upd (strm q) d s rest"
      using drp_law [OF Cons.prems(1)] by blast
    then show ?thesis
    proof cases
      case none
      then show ?thesis using idle [of q] Cons.prems(1) QDrop delivered_idle by auto
    next
      case some
      obtain q'' out where "run_ops psh pp drp ops q' = Ok (q'', out)" "inv q''"
          "delivered (strm q') ops out (strm q'')"
        using idle [of q'] some upd_tail [of "strm q", OF some(4)] QDrop by auto
      then show ?thesis
        using delivered_drop [of "strm q", OF some(4)] some(1,5) QDrop by simp
    qed
  qed
qed

end

section \<open>The packet queue meets the contract\<close>

lemma streams_keys:
  assumes "pq_inv q" "i \<in> set (streams q d s)"
  shows "packet_destKey (pi_packet i) = d \<and> packet_sourceKey (pi_packet i) = s"
  using assms(2) by (rule streams_memD) (use assms(1) in \<open>auto simp: pq_inv_def bag_inv_def dest_ok_def source_ok_def\<close>)

lemma streams_empty: "q_dests q = [] \<Longrightarrow> streams q = (\<lambda>d s. [])"
  by (simp add: streams_def fun_eq_iff)

lemma queue_took_upd:
  assumes "queue_took q d s i q'" "pq_inv q"
  shows "\<exists>rest. streams q d s = i # rest \<and> streams q' = upd (streams q) d s rest"
    and "pq_inv q'" "unat (q_size q') < unat (q_size q)"
proof -
  show "\<exists>rest. streams q d s = i # rest \<and> streams q' = upd (streams q) d s rest" "pq_inv q'"
    using assms by (auto simp: queue_took_def upd_def)
  have "i \<in> set (streams q d s)" using assms by (auto simp: queue_took_def)
  then have "info_ok i"
    by (rule streams_memD) (use assms(2) in \<open>auto simp: pq_inv_def bag_inv_def dest_ok_def source_ok_def\<close>)
  then show "unat (q_size q') < unat (q_size q)"
    using info_size_pos [of i] assms(1) by (simp add: queue_took_def)
qed

interpretation pq: stream_queue pq_inv q_size streams push pop drop_pkt
proof unfold_locales
  show "packet_destKey (pi_packet i) = d \<and> packet_sourceKey (pi_packet i) = s"
    if "pq_inv q" "i \<in> set (streams q d s)" for q i d s
    using that by (rule streams_keys)
  show "pq_inv (push q p now) \<and> unat (q_size (push q p now)) = unat (q_size q) + packet_size p
      \<and> streams (push q p now) = upd (streams q) (packet_destKey p) (packet_sourceKey p)
          (streams q (packet_destKey p) (packet_sourceKey p) @ [packet_info p now])"
    if "pq_inv q" "\<forall>d s. \<forall>i\<in>set (streams q d s). pi_time i \<le> now" "unat (q_size q) + packet_size p < 2 ^ 64"
    for q now p
  proof -
    have pre: "push_pre q p now" using that by (simp add: push_pre_def)
    show ?thesis
      using push_pushed [OF pre] push_pre_size [OF pre] by (simp add: queue_pushed_def upd_def Let_def)
  qed
  show "pop q = Ok (q, None) \<and> streams q = (\<lambda>d s. [])
      \<or> (\<exists>q' d s i rest. pop q = Ok (q', Some i) \<and> pq_inv q' \<and> unat (q_size q') < unat (q_size q)
            \<and> streams q d s = i # rest \<and> streams q' = upd (streams q) d s rest)" if inv: "pq_inv q" for q
  proof (cases "q_dests q = []")
    case True
    then show ?thesis using pop_empty inv streams_empty by blast
  next
    case False
    then obtain q' d s i where "pop q = Ok (q', Some i)" "queue_took q d s i q'"
      using pop_nonempty [OF inv] by blast
    then show ?thesis
      using queue_took_upd [of q d s i q'] inv
      by (intro disjI2 exI [of _ q'] exI [of _ d] exI [of _ s] exI [of _ i]) simp
  qed
  show "drop_pkt q = Ok (q, False) \<and> q_size q = 0
      \<or> (\<exists>q' d s i rest. drop_pkt q = Ok (q', True) \<and> pq_inv q' \<and> unat (q_size q') < unat (q_size q)
            \<and> streams q d s = i # rest \<and> streams q' = upd (streams q) d s rest)" if inv: "pq_inv q" for q
  proof (cases "q_dests q = []")
    case True
    then show ?thesis using drop_empty inv pq_inv_size_0 by blast
  next
    case False
    then obtain q' d s i where "drop_pkt q = Ok (q', True)" "queue_took q d s i q'"
      using drop_nonempty [OF inv] by blast
    then show ?thesis
      using queue_took_upd [of q d s i q'] inv
      by (intro disjI2 exI [of _ q'] exI [of _ d] exI [of _ s] exI [of _ i]) simp
  qed
qed

lemma empty_queue_inv [simp]: "pq_inv empty_queue" "q_size empty_queue = 0" "streams empty_queue = (\<lambda>d s. [])"
  by (simp_all add: pq_inv_def empty_queue_def streams_empty)

section \<open>Properties\<close>

definition sample_packet :: "byte \<Rightarrow> byte \<Rightarrow> nat \<Rightarrow> pqPacket" where
  "sample_packet s d n = PTraffic \<lparr>tr_path = [], tr_from = [], tr_source = replicate 32 s,
     tr_dest = replicate 32 d, tr_watermark = 0, tr_payload = replicate n 0\<rparr>"

lemma sample_packet_simps [simp]:
  "packet_size (sample_packet s d n) = n + 67"
  "packet_sourceKey (sample_packet s d n) = replicate 32 s"
  "packet_destKey (sample_packet s d n) = replicate 32 d"
  by (simp_all add: sample_packet_def traffic_size_def wireSizePath_def wireSizeUint_def
      wireAppendUint_def AppendUvarint.simps key_sizes)

definition sample_queue :: packetQueue where
  "sample_queue = push (push empty_queue (sample_packet 1 2 10) 5) (sample_packet 3 2 20) 7"

lemma sample_queue_inv:
  "pq_inv sample_queue"
  "streams sample_queue = upd (upd (\<lambda>d s. []) (replicate 32 2) (replicate 32 1) [packet_info (sample_packet 1 2 10) 5])
     (replicate 32 2) (replicate 32 3) [packet_info (sample_packet 3 2 20) 7]"
proof -
  let ?q1 = "push empty_queue (sample_packet 1 2 10) 5"
  have 1: "pq_inv ?q1" "unat (q_size ?q1) = 77" "streams ?q1 = upd (\<lambda>d s. []) (replicate 32 2) (replicate 32 1)
      [packet_info (sample_packet 1 2 10) 5]"
    using pq.psh_law [of empty_queue 5 "sample_packet 1 2 10"] by simp_all
  have "\<forall>d s. \<forall>i\<in>set (streams ?q1 d s). pi_time i \<le> 7" by (simp add: 1 upd_apply)
  then have "pq_inv (push ?q1 (sample_packet 3 2 20) 7) \<and> streams (push ?q1 (sample_packet 3 2 20) 7) =
      upd (streams ?q1) (replicate 32 2) (replicate 32 3) (streams ?q1 (replicate 32 2) (replicate 32 3) @ [packet_info (sample_packet 3 2 20) 7])"
    using pq.psh_law [OF 1(1), of 7 "sample_packet 3 2 20"] 1(2) by simp
  then show "pq_inv sample_queue"
    "streams sample_queue = upd (upd (\<lambda>d s. []) (replicate 32 2) (replicate 32 1) [packet_info (sample_packet 1 2 10) 5])
      (replicate 32 2) (replicate 32 3) [packet_info (sample_packet 3 2 20) 7]"
    by (simp_all add: sample_queue_def 1(3) upd_apply)
qed

text \<open>
  C1. Whatever sequence of pushes, pops and drops a queue goes through, with a clock that does not go
  back and less than \<open>2 ^ 64\<close> bytes pushed in total, no operation panics and the packets of every
  stream (a pair of destination and source) come out in the order they went in: what was popped,
  followed by what still waits, is a subsequence of what was pushed, and all of it when nothing was
  dropped.
\<close>

theorem packetQueue_in_order:
  assumes "sorted (map pi_time (pushes ops))"
    and "(\<Sum>i\<leftarrow>pushes ops. packet_size (pi_packet i)) < 2 ^ 64"
  shows "\<exists>q out. run_ops push pop drop_pkt ops empty_queue = Ok (q, out) \<and> pq_inv q
      \<and> (\<forall>d s. subseq (sel d s out @ streams q d s) (sel d s (pushes ops)))
      \<and> (QDrop \<notin> set ops \<longrightarrow> (\<forall>d s. sel d s out @ streams q d s = sel d s (pushes ops)))"
  using pq.ops_in_order [of empty_queue 0 ops] assms by (auto simp: delivered_def)

theorem packetQueue_in_order_witness:
  "\<exists>q out. run_ops push pop drop_pkt [QPush (sample_packet 1 2 3) 1, QPush (sample_packet 1 2 4) 2, QPop]
        empty_queue = Ok (q, out)
      \<and> sel (replicate 32 2) (replicate 32 1) out @ streams q (replicate 32 2) (replicate 32 1)
        = [packet_info (sample_packet 1 2 3) 1, packet_info (sample_packet 1 2 4) 2]"
  using packetQueue_in_order [of "[QPush (sample_packet 1 2 3) 1, QPush (sample_packet 1 2 4) 2, QPop]"]
  by auto

text \<open>
  C2. \<^verbatim>\<open>pop\<close> on a well-formed queue does not panic: it reports that the queue is empty exactly when it
  has no packet, and otherwise returns the head of a stream, a packet that no waiting packet is
  older than, and leaves everything else in place.
\<close>

theorem pop_oldest:
  assumes "pq_inv q"
  shows "pop q = Ok (q, None) \<and> streams q = (\<lambda>d s. [])
    \<or> (\<exists>q' i d s rest. pop q = Ok (q', Some i) \<and> pq_inv q'
        \<and> streams q d s = i # rest \<and> streams q' = upd (streams q) d s rest
        \<and> (\<forall>d' s'. \<forall>j\<in>set (streams q d' s'). pi_time i \<le> pi_time j))"
proof (cases "q_dests q = []")
  case True
  then show ?thesis using pop_empty assms streams_empty by blast
next
  case False
  then obtain q' where
    "pop q = Ok (q', Some (hd (so_infos (hd (de_sources (hd (q_dests q)))))))"
    "queue_took q (de_key (hd (q_dests q))) (so_key (hd (de_sources (hd (q_dests q)))))
       (hd (so_infos (hd (de_sources (hd (q_dests q)))))) q'"
    using pop_nonempty [OF assms] by blast
  then show ?thesis
    using queue_took_upd(1,2) assms queue_oldest [OF assms] by (intro disjI2) metis
qed

theorem pop_oldest_witness:
  "pq_inv sample_queue \<and> (\<exists>q' i d s rest. pop sample_queue = Ok (q', Some i) \<and> pq_inv q'
        \<and> streams sample_queue d s = i # rest \<and> streams q' = upd (streams sample_queue) d s rest
        \<and> (\<forall>d' s'. \<forall>j\<in>set (streams sample_queue d' s'). pi_time i \<le> pi_time j))"
proof -
  have "streams sample_queue (replicate 32 2) (replicate 32 3) \<noteq> []"
    by (simp add: sample_queue_inv upd_apply)
  then have "streams sample_queue \<noteq> (\<lambda>d s. [])" by metis
  then show ?thesis using pop_oldest [OF sample_queue_inv(1)] sample_queue_inv(1) by blast
qed

text \<open>
  C3. \<^verbatim>\<open>drop\<close> on a queue that is not empty removes the oldest packet of the largest source of the
  largest destination, and nothing else.
\<close>

theorem drop_largest:
  assumes "pq_inv q" "q_dests q \<noteq> []"
  shows "\<exists>q' dest source i rest. drop_pkt q = Ok (q', True) \<and> pq_inv q'
      \<and> dest \<in> set (q_dests q) \<and> (\<forall>d\<in>set (q_dests q). de_size d \<le> de_size dest)
      \<and> source \<in> set (de_sources dest) \<and> (\<forall>s\<in>set (de_sources dest). so_size s \<le> so_size source)
      \<and> so_infos source = i # rest
      \<and> streams q' = upd (streams q) (de_key dest) (so_key source) rest
      \<and> unat (q_size q') + unat (pi_size i) = unat (q_size q)"
proof -
  let ?d = "q_dests q ! largest de_size (q_dests q)"
  let ?s = "de_sources ?d ! largest so_size (de_sources ?d)"
  obtain q' where q': "drop_pkt q = Ok (q', True)"
      "queue_took q (de_key ?d) (so_key ?s) (hd (so_infos ?s)) q'"
    using drop_nonempty [OF assms] by blast
  have d: "?d \<in> set (q_dests q)" using assms(2) by (simp add: largest_less)
  then have s: "?s \<in> set (de_sources ?d)"
    using assms(1) by (intro nth_mem largest_less) (simp add: pq_inv_def bag_inv_def dest_ok_def)
  have "streams q (de_key ?d) (so_key ?s) = so_infos ?s"
    using streams_mem [OF assms(1) d s] .
  then show ?thesis
    using q' d s queue_took_upd(1,2) [OF q'(2) assms(1)] largest_max [of _ "q_dests q" de_size]
      largest_max [of _ "de_sources ?d" so_size]
    by (intro exI [of _ q'] exI [of _ ?d] exI [of _ ?s]) (auto simp: queue_took_def)
qed

theorem drop_largest_witness:
  "pq_inv sample_queue \<and> (\<exists>q' dest source i rest. drop_pkt sample_queue = Ok (q', True) \<and> pq_inv q'
      \<and> dest \<in> set (q_dests sample_queue) \<and> (\<forall>d\<in>set (q_dests sample_queue). de_size d \<le> de_size dest)
      \<and> source \<in> set (de_sources dest) \<and> (\<forall>s\<in>set (de_sources dest). so_size s \<le> so_size source)
      \<and> so_infos source = i # rest
      \<and> streams q' = upd (streams sample_queue) (de_key dest) (so_key source) rest
      \<and> unat (q_size q') + unat (pi_size i) = unat (q_size sample_queue))"
proof -
  have "streams sample_queue (replicate 32 2) (replicate 32 3) \<noteq> []"
    by (simp add: sample_queue_inv upd_apply)
  then have "q_dests sample_queue \<noteq> []" using streams_empty by force
  then show ?thesis using drop_largest [OF sample_queue_inv(1)] sample_queue_inv(1) by blast
qed

end
