(* ===== verification/Greedy.thy ===== *)
theory Greedy
  imports Router PacketQueue
begin

text \<open>
  Greedy forwarding (\<^verbatim>\<open>_getDist\<close> and \<^verbatim>\<open>_lookup\<close> of \<^verbatim>\<open>network/router.go\<close>): the path cache is transparent,
  a next hop is strictly closer to the destination than the node itself, and so a packet that carries
  its watermark through any network of routers is forwarded a bounded number of times.
\<close>

section \<open>The path cache is transparent\<close>

definition path_of :: "router \<Rightarrow> publicKey \<Rightarrow> u64 list" where
  "path_of r k = snd (getRootAndPath (r_infos r) k)"

definition cache_ok :: "router \<Rightarrow> bool" where
  "cache_ok r \<longleftrightarrow> (\<forall>k p. fmlookup (r_cache r) k = Some p \<longrightarrow> p = path_of r k)"

definition dist_to :: "router \<Rightarrow> u64 list \<Rightarrow> publicKey \<Rightarrow> u64" where
  "dist_to r path k = pathDist (path_of r k) path"

text \<open>Two states that differ in the cache only.\<close>

definition same :: "router \<Rightarrow> router \<Rightarrow> bool" where
  "same r r' \<longleftrightarrow> r'\<lparr>r_cache := fmempty\<rparr> = r\<lparr>r_cache := fmempty\<rparr>"

lemma same_refl [simp]: "same r r"
  by (simp add: same_def)

lemma same_trans: "same r r1 \<Longrightarrow> same r1 r2 \<Longrightarrow> same r r2"
  by (simp add: same_def)

lemma same_fields:
  assumes "same r r'"
  shows "r_infos r' = r_infos r" "r_peers r' = r_peers r" "r_lags r' = r_lags r"
    "path_of r' = path_of r" "dist_to r' = dist_to r" "getCost r' = getCost r"
proof -
  have "r_infos (r'\<lparr>r_cache := fmempty\<rparr>) = r_infos (r\<lparr>r_cache := fmempty\<rparr>)"
    "r_peers (r'\<lparr>r_cache := fmempty\<rparr>) = r_peers (r\<lparr>r_cache := fmempty\<rparr>)"
    "r_lags (r'\<lparr>r_cache := fmempty\<rparr>) = r_lags (r\<lparr>r_cache := fmempty\<rparr>)"
    using assms by (simp_all only: same_def)
  then show "r_infos r' = r_infos r" "r_peers r' = r_peers r" "r_lags r' = r_lags r"
    "path_of r' = path_of r" "dist_to r' = dist_to r" "getCost r' = getCost r"
    by (simp_all add: path_of_def dist_to_def getCost_def fun_eq_iff)
qed

lemma getDist_ok:
  assumes "cache_ok r"
  obtains r' where "getDist r path k = (dist_to r path k, r')" "same r r'" "cache_ok r'"
proof (cases "fmlookup (r_cache r) k")
  case (Some p)
  then show ?thesis using assms that by (auto simp: getDist_def dist_to_def cache_ok_def)
next
  case None
  show ?thesis
    using assms None
    by (intro that [of "r\<lparr>r_cache := fmupd k (path_of r k) (r_cache r)\<rparr>"])
      (auto simp: getDist_def dist_to_def cache_ok_def path_of_def same_def Let_def)
qed

section \<open>What lookup finds\<close>

lemma candidates_fold:
  assumes "cache_ok r"
  shows "\<exists>cs r'. fold (lookup_candidate ord path d) ks (acc, r) = (acc @ cs, r') \<and> same r r' \<and> cache_ok r'
      \<and> (orders_ok ord \<longrightarrow> set cs = {p. \<exists>k\<in>set ks. dist_to r path k < d \<and> p |\<in>| peers_of r k})"
  using assms
proof (induction ks arbitrary: acc r)
  case (Cons k ks)
  obtain r1 where r1: "getDist r path k = (dist_to r path k, r1)" "same r r1" "cache_ok r1"
    using getDist_ok [OF Cons.prems] .
  let ?new = "if dist_to r path k < d then o_peers ord LLookup (peers_of r k) else []"
  have step: "lookup_candidate ord path d k (acc, r) = (acc @ ?new, r1)"
    using r1(1) by simp
  obtain cs r2 where r2: "fold (lookup_candidate ord path d) ks (acc @ ?new, r1) = ((acc @ ?new) @ cs, r2)"
      "same r1 r2" "cache_ok r2"
      "orders_ok ord \<longrightarrow> set cs = {p. \<exists>k\<in>set ks. dist_to r1 path k < d \<and> p |\<in>| peers_of r1 k}"
    using Cons.IH [OF r1(3)] by blast
  have "orders_ok ord \<longrightarrow> set (?new @ cs) = {p. \<exists>k\<in>set (k # ks). dist_to r path k < d \<and> p |\<in>| peers_of r k}"
    using r2(4) same_fields [OF r1(2)] by (auto simp: orders_ok_def)
  moreover have "fold (lookup_candidate ord path d) (k # ks) (acc, r) = (acc @ ?new @ cs, r2)"
    using step r2(1) by simp
  ultimately show ?case
    using r2(3) same_trans [OF r1(2) r2(2)] by blast
qed auto

lemma candidates_spec:
  assumes "cache_ok r" "orders_ok ord"
  obtains cs r' where "lookup_candidates ord r path d = (cs, r')" "same r r'" "cache_ok r'"
    "set cs = {p. \<exists>k|\<in>|fmdom (r_peers r). dist_to r path k < d \<and> p |\<in>| peers_of r k}"
  using candidates_fold [OF assms(1), of ord path d "o_keys ord LLookup (fmdom (r_peers r))" "[]"] assms(2)
  by (auto simp: lookup_candidates_def orders_ok_def)

lemma lookup_accept_None [simp]: "lookup_accept p cost dist None"
  by (simp add: lookup_accept_def)

lemma select_fold:
  assumes "cache_ok r" "best \<noteq> None \<longrightarrow> fst (the best) \<in> C" "set cs \<subseteq> C"
  shows "\<exists>best' r'. fold (lookup_compare path) cs (best, r) = (best', r') \<and> same r r' \<and> cache_ok r'
      \<and> (best' \<noteq> None \<longrightarrow> fst (the best') \<in> C) \<and> (best' = None \<longleftrightarrow> best = None \<and> cs = [])"
  using assms
proof (induction cs arbitrary: best r)
  case (Cons p cs)
  obtain r1 where r1: "getDist r path (p_key p) = (dist_to r path (p_key p), r1)" "same r r1" "cache_ok r1"
    using getDist_ok [OF Cons.prems(1)] .
  define best1 where "best1 = (if lookup_accept p (getCost r p) (dist_to r path (p_key p)) best
               then Some (p, getCost r p, dist_to r path (p_key p)) else best)"
  have step: "lookup_compare path p (best, r) = (best1, r1)"
    using r1(1) by (simp add: best1_def)
  have b: "best1 \<noteq> None \<and> fst (the best1) \<in> C"
  proof (cases "lookup_accept p (getCost r p) (dist_to r path (p_key p)) best")
    case True
    then show ?thesis using Cons.prems(3) by (simp add: best1_def)
  next
    case False
    then have "best \<noteq> None" by (metis lookup_accept_None)
    then show ?thesis using Cons.prems(2) False by (simp add: best1_def)
  qed
  have sub: "set cs \<subseteq> C" using Cons.prems(3) by simp
  obtain best' r2 where "fold (lookup_compare path) cs (best1, r1) = (best', r2)"
      "same r1 r2" "cache_ok r2" "best' \<noteq> None \<longrightarrow> fst (the best') \<in> C" "best' \<noteq> None"
    using Cons.IH [OF r1(3) _ sub, of best1] b by blast
  then show ?case
    using same_trans [OF r1(2)] step by (intro exI [of _ best'] exI [of _ r2]) simp
qed auto

text \<open>The result of \<^verbatim>\<open>_lookup\<close> with a watermark, in terms of the distances of the node and its peers.\<close>

lemma lookup_spec:
  assumes "cache_ok r" "orders_ok ord"
  obtains res wm' r' where "lookup e ord r path (Some wm) = (res, Some wm', r')" "same r r'" "cache_ok r'"
    "wm' = min wm (dist_to r path (self_key e))"
    "\<And>p. res = Some p \<Longrightarrow> dist_to r path (self_key e) < wm
       \<and> (\<exists>k. p |\<in>| peers_of r k \<and> dist_to r path k < dist_to r path (self_key e))"
    "\<And>k p. res = None \<Longrightarrow> dist_to r path (self_key e) < wm \<Longrightarrow> p |\<in>| peers_of r k
       \<Longrightarrow> \<not> dist_to r path k < dist_to r path (self_key e)"
proof -
  let ?d = "dist_to r path (self_key e)"
  obtain r1 where r1: "getDist r path (self_key e) = (?d, r1)" "same r r1" "cache_ok r1"
    using getDist_ok [OF assms(1)] .
  show ?thesis
  proof (cases "?d < wm")
    case False
    then show ?thesis
      using r1 by (intro that [of None wm r1]) (auto simp: lookup_def Let_def)
  next
    case True
    obtain cs r2 where r2: "lookup_candidates ord r1 path ?d = (cs, r2)" "same r1 r2" "cache_ok r2"
        "set cs = {p. \<exists>k|\<in>|fmdom (r_peers r1). dist_to r1 path k < ?d \<and> p |\<in>| peers_of r1 k}"
      using candidates_spec [OF r1(3) assms(2)] .
    obtain best r3 where r3: "lookup_select r2 path cs = (best, r3)" "same r2 r3" "cache_ok r3"
        "best \<noteq> None \<longrightarrow> fst (the best) \<in> set cs" "best = None \<longleftrightarrow> cs = []"
      using select_fold [OF r2(3), of None "set cs" cs path] by (auto simp: lookup_select_def)
    have same: "same r r3" using r1(2) r2(2) r3(2) same_trans by blast
    have cs: "set cs = {p. \<exists>k|\<in>|fmdom (r_peers r). dist_to r path k < ?d \<and> p |\<in>| peers_of r k}"
      using r2(4) same_fields [OF r1(2)] by simp
    have dom: "k |\<in>| fmdom (r_peers r)" if "p |\<in>| peers_of r k" for p k
      using that by (auto simp: get_def split: option.splits intro: fmdomI)
    show ?thesis
    proof (rule that [of "map_option fst best" ?d r3])
      show "lookup e ord r path (Some wm) = (map_option fst best, Some ?d, r3)"
        using True r1 r2 r3 by (simp add: lookup_def)
      show "same r r3" "cache_ok r3" using same r3 by auto
      show "?d = min wm ?d" using True by (simp add: min.absorb2 less_imp_le)
      show "?d < wm \<and> (\<exists>k. p |\<in>| peers_of r k \<and> dist_to r path k < ?d)" if "map_option fst best = Some p" for p
        using that True r3(4) cs by auto
      show "\<not> dist_to r path k < ?d" if "map_option fst best = None" "p |\<in>| peers_of r k" for k p
        using that r3(5) cs dom by auto
    qed
  qed
qed

text \<open>The same as one predicate on the result.\<close>

definition lookup_result :: "publicKey \<Rightarrow> router \<Rightarrow> u64 list \<Rightarrow> u64 \<Rightarrow> peer option \<Rightarrow> u64 \<Rightarrow> router \<Rightarrow> bool" where
  "lookup_result self r path wm res wm' r' \<longleftrightarrow> same r r' \<and> cache_ok r' \<and> wm' = min wm (dist_to r path self)
     \<and> (\<forall>p. res = Some p \<longrightarrow> dist_to r path self < wm
          \<and> (\<exists>k. p |\<in>| peers_of r k \<and> dist_to r path k < dist_to r path self))
     \<and> (res = None \<and> dist_to r path self < wm \<longrightarrow>
          (\<forall>k p. p |\<in>| peers_of r k \<longrightarrow> \<not> dist_to r path k < dist_to r path self))"

lemma lookup_lookup_result:
  assumes "cache_ok r" "orders_ok ord"
  shows "\<exists>res wm' r'. lookup e ord r path (Some wm) = (res, Some wm', r')
      \<and> lookup_result (self_key e) r path wm res wm' r'"
proof (rule lookup_spec [OF assms, of e path wm])
  fix res wm' r'
  assume l: "lookup e ord r path (Some wm) = (res, Some wm', r')" "same r r'" "cache_ok r'"
    "wm' = min wm (dist_to r path (self_key e))"
    "\<And>p. res = Some p \<Longrightarrow> dist_to r path (self_key e) < wm
       \<and> (\<exists>k. p |\<in>| peers_of r k \<and> dist_to r path k < dist_to r path (self_key e))"
    "\<And>k p. res = None \<Longrightarrow> dist_to r path (self_key e) < wm \<Longrightarrow> p |\<in>| peers_of r k
       \<Longrightarrow> \<not> dist_to r path k < dist_to r path (self_key e)"
  have "lookup_result (self_key e) r path wm res wm' r'"
    unfolding lookup_result_def using l(2-6) by blast
  then show ?thesis using l(1) by blast
qed

section \<open>Forwarding through any network\<close>

text \<open>
  The routers a packet meets, one after the other, each in whatever state it has at that moment:
  \<open>hops\<close> counts how many of them forward the packet.
\<close>

fun hops :: "(env \<times> orders \<times> router) list \<Rightarrow> u64 list \<Rightarrow> u64 \<Rightarrow> nat" where
  "hops [] path wm = 0"
| "hops ((e, ord, r) # rs) path wm =
     (case lookup e ord r path (Some wm) of
        (Some p, Some wm', _) \<Rightarrow> Suc (hops rs path wm')
      | _ \<Rightarrow> 0)"

lemma hops_Cons_bound:
  assumes "cache_ok r" "orders_ok ord"
  shows "hops ((e, ord, r) # rs) path wm = 0
    \<or> dist_to r path (self_key e) < wm
      \<and> hops ((e, ord, r) # rs) path wm = Suc (hops rs path (dist_to r path (self_key e)))"
proof -
  obtain res wm' r' where l: "lookup e ord r path (Some wm) = (res, Some wm', r')"
      "wm' = min wm (dist_to r path (self_key e))" "\<And>p. res = Some p \<Longrightarrow> dist_to r path (self_key e) < wm"
    using lookup_lookup_result [OF assms, of e path wm] unfolding lookup_result_def by blast
  show ?thesis
  proof (cases res)
    case (Some p)
    then have "dist_to r path (self_key e) < wm" using l(3) by simp
    moreover from this have "wm' = dist_to r path (self_key e)" using l(2) by (simp add: min.absorb2 less_imp_le)
    ultimately show ?thesis using l(1) Some by simp
  qed (simp add: l(1))
qed

lemma hops_watermark:
  assumes "\<forall>(e, ord, r)\<in>set rs. cache_ok r \<and> orders_ok ord"
  shows "hops rs path wm \<le> unat wm"
  using assms
proof (induction rs arbitrary: wm)
  case (Cons x rs)
  obtain e ord r where x: "x = (e, ord, r)" by (cases x)
  have ok: "cache_ok r" "orders_ok ord" using Cons.prems x by auto
  have IH: "hops rs path wm' \<le> unat wm'" for wm' using Cons.IH Cons.prems by auto
  from hops_Cons_bound [OF ok, of e rs path wm] show ?case
    using IH [of "dist_to r path (self_key e)"] by (auto simp: x word_less_nat_alt)
qed simp

section \<open>Delivery in a converged network\<close>

text \<open>
  A network has converged when every node has the same table of announcements, the table is a tree
  whose nodes give their children different ports, and every tree edge is a link. \<open>route\<close> is the
  journey of a packet: it ends at a node where \<^verbatim>\<open>_lookup\<close> gives no next hop.
\<close>

definition tree_ok :: "infos \<Rightarrow> publicKey \<Rightarrow> bool" where
  "tree_ok I root \<longleftrightarrow>
     (\<forall>k\<in>fmdom' I. \<exists>ps. tpath I k root ps \<and> length ps < 2 ^ 62)
   \<and> (\<forall>k1 k2 i1 i2. fmlookup I k1 = Some i1 \<and> fmlookup I k2 = Some i2 \<and> info_parent i1 = info_parent i2
        \<and> info_parent i1 \<noteq> k1 \<and> info_parent i2 \<noteq> k2 \<and> info_port i1 = info_port i2 \<longrightarrow> k1 = k2)"

definition node_ok :: "infos \<Rightarrow> publicKey \<Rightarrow> env \<Rightarrow> orders \<Rightarrow> router \<Rightarrow> bool" where
  "node_ok I k e ord r \<longleftrightarrow> r_infos r = I \<and> cache_ok r \<and> self_key e = k \<and> orders_ok ord
     \<and> (\<forall>j p. p |\<in>| peers_of r j \<longrightarrow> p_key p = j \<and> j \<in> fmdom' I)
     \<and> (\<forall>j info. fmlookup I j = Some info \<and> info_parent info \<noteq> j \<longrightarrow>
          (info_parent info = k \<longrightarrow> peers_of r j \<noteq> {||})
        \<and> (j = k \<longrightarrow> peers_of r (info_parent info) \<noteq> {||}))"

lemma node_ok_links:
  assumes "node_ok I k e ord r" "fmlookup I j = Some info" "info_parent info \<noteq> j"
  shows "info_parent info = k \<Longrightarrow> peers_of r j \<noteq> {||}" "j = k \<Longrightarrow> peers_of r (info_parent info) \<noteq> {||}"
  using assms unfolding node_ok_def by blast+

lemma node_ok_peer:
  assumes "node_ok I k e ord r" "p |\<in>| peers_of r j"
  shows "p_key p = j" "j \<in> fmdom' I"
  using assms unfolding node_ok_def by blast+

lemma tree_ok_path:
  assumes "tree_ok I root" "k \<in> fmdom' I"
  obtains ps where "tpath I k root ps" "length ps < 2 ^ 62"
  using assms unfolding tree_ok_def by blast

inductive route :: "(publicKey \<Rightarrow> env) \<Rightarrow> (publicKey \<Rightarrow> orders) \<Rightarrow> (publicKey \<Rightarrow> router) \<Rightarrow> u64 list
    \<Rightarrow> publicKey \<Rightarrow> u64 \<Rightarrow> publicKey \<Rightarrow> nat \<Rightarrow> bool"
  for envs ords net path where
  route_stop: "lookup (envs k) (ords k) (net k) path (Some wm) = (None, wm', r') \<Longrightarrow>
    route envs ords net path k wm k 0"
| route_hop: "lookup (envs k) (ords k) (net k) path (Some wm) = (Some p, Some wm', r') \<Longrightarrow>
    route envs ords net path (p_key p) wm' d n \<Longrightarrow> route envs ords net path k wm d (Suc n)"

text \<open>Nodes with the same path are the same node, and every prefix of a path is the path of an ancestor.\<close>

lemma tpath_inject:
  assumes "tree_ok I root" "tpath I k root ps" "tpath I j root ps"
  shows "k = j"
  using assms(2,3)
proof (induction arbitrary: j rule: tpath.induct)
  case (tpath_root k info)
  then show ?case by (auto elim: tpath_E)
next
  case (tpath_step k info root ports)
  from tpath_step.prems obtain info' where j: "fmlookup I j = Some info'" "info_parent info' \<noteq> j"
      "tpath I (info_parent info') root ports" "info_port info' = info_port info"
    by (cases rule: tpath.cases) auto
  have "info_parent info = info_parent info'" using tpath_step.IH j(3) by simp
  then show ?case using assms(1) tpath_step.hyps(1,2) j unfolding tree_ok_def by metis
qed

lemma tpath_prefix:
  assumes "tpath I k root ps" "n < length ps"
  shows "\<exists>c info. fmlookup I c = Some info \<and> info_parent info \<noteq> c \<and> tpath I (info_parent info) root (take n ps)
      \<and> info_port info = ps ! n"
  using assms
proof (induction rule: tpath.induct)
  case (tpath_step k info root ports)
  show ?case
  proof (cases "n = length ports")
    case True
    then show ?thesis using tpath_step.hyps by (intro exI [of _ k] exI [of _ info]) simp
  next
    case False
    then show ?thesis using tpath_step by (auto simp: nth_append)
  qed
qed simp

lemma closer_neighbour:
  assumes tree: "tree_ok I root" and k: "tpath I k root ps" and d: "tpath I d root qs" and "k \<noteq> d"
    and node: "node_ok I k e ord r"
  shows "\<exists>j js. peers_of r j \<noteq> {||} \<and> tpath I j root js \<and> tdist js qs < tdist ps qs"
proof (cases "lcp ps qs = length ps")
  case True
  then have "length ps \<le> length qs" using lcp_le [of ps qs] by simp
  moreover have "take (length ps) qs = ps"
    using True by (induction ps qs rule: lcp.induct) (auto split: if_splits)
  moreover have "ps \<noteq> qs" using tpath_inject [OF tree k] d \<open>k \<noteq> d\<close> by blast
  ultimately have n: "length ps < length qs" by (metis le_neq_implies_less take_all_iff order_refl)
  then obtain c info where c: "fmlookup I c = Some info" "info_parent info \<noteq> c"
      "tpath I (info_parent info) root ps" "info_port info = qs ! length ps"
    using tpath_prefix [OF d n] \<open>take (length ps) qs = ps\<close> by auto
  have "info_parent info = k" using tpath_inject [OF tree c(3) k] .
  then have "peers_of r c \<noteq> {||}" using node_ok_links(1) [OF node c(1,2)] by simp
  moreover have "tpath I c root (ps @ [info_port info])" using tpath.tpath_step [OF c(1,2,3)] .
  moreover have "tdist (ps @ [info_port info]) qs < tdist ps qs"
    using True n c(4) by (auto simp: tdist_parent) (auto simp: tdist_def)
  ultimately show ?thesis by blast
next
  case False
  from k show ?thesis
  proof (cases rule: tpath.cases)
    case (tpath_step info ports)
    have "lcp ports qs \<noteq> length ports \<or> \<not> length ports < length qs \<or> qs ! length ports \<noteq> info_port info"
      using False by (auto simp: tpath_step lcp_snoc)
    then have "tdist ports qs < tdist ps qs" by (auto simp: tpath_step tdist_parent)
    moreover have "peers_of r (info_parent info) \<noteq> {||}"
      using node_ok_links(2) [OF node] tpath_step by simp
    ultimately show ?thesis using tpath_step by blast
  qed (use False in simp)
qed

text \<open>In a converged network a packet reaches the node its path leads to, in no more hops than the distance.\<close>

lemma route_delivers:
  assumes tree: "tree_ok I root" and nodes: "\<forall>k\<in>fmdom' I. node_ok I k (envs k) (ords k) (net k)"
    and d: "tpath I d root qs"
  shows "tpath I k root ps \<Longrightarrow> tdist ps qs < unat wm \<Longrightarrow>
    \<exists>n\<le>tdist ps qs. route envs ords net qs k wm d n"
proof (induction "tdist ps qs" arbitrary: k ps wm rule: less_induct)
  case less
  have in_dom: "k' \<in> fmdom' I" if "tpath I k' root ps'" for k' ps'
    using that by (auto elim: tpath_E intro: fmdom'I)
  have small: "length ps' < 2 ^ 62" if "tpath I k' root ps'" for k' ps'
    using tree_ok_path [OF tree in_dom [OF that]] tpath_det [OF that] by metis
  let ?r = "net k"
  have node: "node_ok I k (envs k) (ords k) ?r" using nodes in_dom [OF less.prems(1)] by blast
  have dist: "unat (dist_to ?r qs k') = tdist ps' qs" if "tpath I k' root ps'" for k' ps'
    using node getRootAndPath_tpath [OF that] small [OF that] small [OF d]
    by (simp add: dist_to_def path_of_def node_ok_def unat_pathDist)
  have self: "self_key (envs k) = k" using node by (simp add: node_ok_def)
  obtain res wm' r' where l: "lookup (envs k) (ords k) ?r qs (Some wm) = (res, Some wm', r')"
      "lookup_result k ?r qs wm res wm' r'"
    using lookup_lookup_result [of ?r "ords k" "envs k" qs wm] node self by (auto simp: node_ok_def)
  have wm: "dist_to ?r qs k < wm" using dist [OF less.prems(1)] less.prems(2) by (simp add: word_less_nat_alt)
  show ?case
  proof (cases res)
    case None
    have "k = d"
    proof (rule ccontr)
      assume "k \<noteq> d"
      then obtain j js where j: "peers_of ?r j \<noteq> {||}" "tpath I j root js" "tdist js qs < tdist ps qs"
        using closer_neighbour [OF tree less.prems(1) d _ node] by blast
      then obtain p where "p |\<in>| peers_of ?r j" by blast
      then show False
        using l(2) None wm j dist [OF j(2)] dist [OF less.prems(1)]
        by (auto simp: lookup_result_def word_less_nat_alt)
    qed
    then show ?thesis using route_stop l(1) None by blast
  next
    case (Some p)
    then obtain j where j: "p |\<in>| peers_of ?r j" "dist_to ?r qs j < dist_to ?r qs k" using l(2) by (auto simp: lookup_result_def)
    then have key: "p_key p = j" "j \<in> fmdom' I" using node_ok_peer [OF node] by blast+
    then obtain js where js: "tpath I j root js" using tree_ok_path [OF tree] by blast
    have lt: "tdist js qs < tdist ps qs"
      using j(2) dist [OF js] dist [OF less.prems(1)] by (simp add: word_less_nat_alt)
    have "wm' = dist_to ?r qs k" using l(2) wm by (simp add: lookup_result_def min.absorb2 less_imp_le)
    then have "tdist js qs < unat wm'" using lt dist [OF less.prems(1)] by simp
    then obtain n where "n \<le> tdist js qs" "route envs ords net qs j wm' d n"
      using less.hyps [OF lt js] by blast
    then show ?thesis
      using route_hop [of envs k ords net qs wm p wm' r' d n] l(1) Some key lt by (intro exI [of _ "Suc n"]) simp
  qed
qed

section \<open>A network of three nodes\<close>

definition sample_key :: "byte \<Rightarrow> publicKey" where
  "sample_key b = replicate 32 b"

lemma sample_key_eq [simp]: "sample_key a = sample_key b \<longleftrightarrow> a = b"
  by (simp add: sample_key_def)

definition sample_info :: "byte \<Rightarrow> u64 \<Rightarrow> routerInfo" where
  "sample_info parent port = \<lparr>info_parent = sample_key parent,
     info_res = \<lparr>res_req = \<lparr>req_seq = 1, req_nonce = 0\<rparr>, res_port = port, res_psig = replicate 64 0\<rparr>,
     info_sig = replicate 64 0\<rparr>"

lemma sample_info_simps [simp]:
  "info_parent (sample_info b q) = sample_key b" "info_port (sample_info b q) = q"
  by (simp_all add: sample_info_def)

definition sample_infos :: infos where
  "sample_infos = fmupd (sample_key 1) (sample_info 1 0) (fmupd (sample_key 2) (sample_info 1 1)
     (fmupd (sample_key 3) (sample_info 1 2) fmempty))"

definition sample_env :: "publicKey \<Rightarrow> env" where
  "sample_env k = \<lparr>e_ed = sample_ed, e_crypto = \<lparr>c_privateKey = [], c_publicKey = k\<rparr>, e_bf = sample_bf, e_transform = id\<rparr>"

definition sample_peer :: "publicKey \<Rightarrow> u64 \<Rightarrow> peer" where
  "sample_peer k i = \<lparr>p_key = k, p_port = i, p_prio = 0, p_order = i\<rparr>"

definition sample_net :: "publicKey \<Rightarrow> router" where
  "sample_net k = router_init\<lparr>r_infos := sample_infos,
     r_peers := (if k = sample_key 1
                 then fmupd (sample_key 2) {|sample_peer (sample_key 2) 1|}
                   (fmupd (sample_key 3) {|sample_peer (sample_key 3) 2|} fmempty)
                 else fmupd (sample_key 1) {|sample_peer (sample_key 1) 1|} fmempty)\<rparr>"

lemma sample_tpath:
  "tpath sample_infos (sample_key 1) (sample_key 1) []"
  "tpath sample_infos (sample_key 2) (sample_key 1) [1]"
  "tpath sample_infos (sample_key 3) (sample_key 1) [2]"
proof -
  show 1: "tpath sample_infos (sample_key 1) (sample_key 1) []"
    by (rule tpath_root [of _ _ "sample_info 1 0"]) (simp_all add: sample_infos_def)
  show "tpath sample_infos (sample_key 2) (sample_key 1) [1]"
    using tpath_step [of sample_infos "sample_key 2" "sample_info 1 1" "sample_key 1" "[]"] 1
    by (simp add: sample_infos_def)
  show "tpath sample_infos (sample_key 3) (sample_key 1) [2]"
    using tpath_step [of sample_infos "sample_key 3" "sample_info 1 2" "sample_key 1" "[]"] 1
    by (simp add: sample_infos_def)
qed

lemma sample_dom: "fmdom' sample_infos = {sample_key 1, sample_key 2, sample_key 3}"
  by (auto simp: sample_infos_def)

lemma sample_tree_ok: "tree_ok sample_infos (sample_key 1)"
proof -
  have "\<forall>k\<in>fmdom' sample_infos. \<exists>ps. tpath sample_infos k (sample_key 1) ps \<and> length ps < 2 ^ 62"
    using sample_tpath unfolding sample_dom by force
  then show ?thesis
    unfolding tree_ok_def by (auto simp: sample_infos_def split: if_splits)
qed

lemma sample_node_ok: "\<forall>k\<in>fmdom' sample_infos. node_ok sample_infos k (sample_env k) sorted_orders (sample_net k)"
  unfolding sample_dom
  by (auto simp: node_ok_def sample_net_def router_init_def cache_ok_def sample_env_def sorted_orders_ok
      get_def sample_dom sample_peer_def sample_infos_def split: if_splits option.splits)

section \<open>Properties\<close>


text \<open>
  C5. The distance \<^verbatim>\<open>_getDist\<close> computes between two paths (whose lengths fit in 64 bits) is a metric on
  paths: it is zero only for equal paths, symmetric, and obeys the triangle inequality; the
  subtractions never wrap.
\<close>

theorem pathDist_metric:
  assumes "length ps < 2 ^ 62" "length qs < 2 ^ 62" "length rs < 2 ^ 62"
  shows "unat (pathDist ps qs) = length ps + length qs - 2 * lcp ps qs
    \<and> (pathDist ps qs = 0 \<longleftrightarrow> ps = qs) \<and> pathDist ps qs = pathDist qs ps
    \<and> unat (pathDist ps rs) \<le> unat (pathDist ps qs) + unat (pathDist qs rs)"
proof (intro conjI)
  have u: "unat (pathDist ps qs) = tdist ps qs" "unat (pathDist qs ps) = tdist qs ps"
    "unat (pathDist ps rs) = tdist ps rs" "unat (pathDist qs rs) = tdist qs rs"
    using assms by (simp_all add: unat_pathDist)
  show "unat (pathDist ps qs) = length ps + length qs - 2 * lcp ps qs" by (simp add: u tdist_def)
  show "pathDist ps qs = 0 \<longleftrightarrow> ps = qs" using u(1) tdist_0_iff [of ps qs] by (metis unat_eq_0)
  show "pathDist ps qs = pathDist qs ps" using u tdist_sym [of ps qs] by (simp add: word_unat_eq_iff)
  show "unat (pathDist ps rs) \<le> unat (pathDist ps qs) + unat (pathDist qs rs)"
    using tdist_triangle [of ps rs qs] by (simp add: u)
qed

theorem pathDist_metric_witness:
  "unat (pathDist [1, 2, 3] [1, 4]) = 3 \<and> pathDist [1, 2, 3] [1, 4] = pathDist [1, 4] [1, 2, 3]"
proof -
  have l: "length [1, 2, 3 :: u64] < 2 ^ 62" "length [1, 4 :: u64] < 2 ^ 62" by simp_all
  have "length [1, 2, 3 :: u64] + length [1, 4 :: u64] - 2 * lcp [1, 2, 3 :: u64] [1, 4] = 3" by simp
  then have "unat (pathDist [1, 2, 3] [1, 4]) = 3"
    using conjunct1 [OF pathDist_metric [OF l l(1)]] by (simp only:)
  then show ?thesis using pathDist_metric [OF l l(1)] by blast
qed

text \<open>
  C6. A packet that carries its watermark is forwarded a bounded number of times, whatever the states
  of the routers it meets: with the path caches coherent, the number of forwards is at most one more
  than the distance of the first router from the destination.
\<close>

theorem forwarding_bounded:
  assumes "\<forall>(e, ord, r)\<in>set ((e0, ord0, r0) # rs). cache_ok r \<and> orders_ok ord"
    and "length (path_of r0 (self_key e0)) + length path < 2 ^ 64"
  shows "hops ((e0, ord0, r0) # rs) path wm \<le> Suc (tdist (path_of r0 (self_key e0)) path)"
proof -
  have ok: "cache_ok r0" "orders_ok ord0" using assms(1) by auto
  have "hops rs path (dist_to r0 path (self_key e0)) \<le> tdist (path_of r0 (self_key e0)) path"
    using hops_watermark [of rs path "dist_to r0 path (self_key e0)"] assms
    by (simp add: dist_to_def unat_pathDist)
  then show ?thesis using hops_Cons_bound [OF ok, of e0 rs path wm] by auto
qed

theorem forwarding_bounded_witness:
  "hops [(sample_env (sample_key 2), sorted_orders, sample_net (sample_key 2)),
         (sample_env (sample_key 1), sorted_orders, sample_net (sample_key 1)),
         (sample_env (sample_key 3), sorted_orders, sample_net (sample_key 3))] [2] (- 1) \<le> 3"
proof -
  have "cache_ok (sample_net k)" for k
    by (simp add: cache_ok_def sample_net_def router_init_def)
  moreover have "path_of (sample_net (sample_key 2)) (self_key (sample_env (sample_key 2))) = [1]"
    using getRootAndPath_tpath [OF sample_tpath(2)]
    by (simp add: path_of_def sample_net_def sample_env_def)
  ultimately show ?thesis
    using forwarding_bounded [of "sample_env (sample_key 2)" sorted_orders "sample_net (sample_key 2)"
        "[(sample_env (sample_key 1), sorted_orders, sample_net (sample_key 1)),
          (sample_env (sample_key 3), sorted_orders, sample_net (sample_key 3))]" "[2]" "- 1"]
    by (simp add: sorted_orders_ok tdist_def)
qed

text \<open>
  C7. In a converged network (one tree known to all nodes, different ports for the children of a node,
  a link for every tree edge) a packet sent from any node to any other with the initial watermark
  is handed from peer to peer until it stops at its destination, after at most as many hops as
  the distance between the two, whatever order the nodes visit their maps in.
\<close>

theorem greedy_delivers:
  assumes "tree_ok I root" and "\<forall>k\<in>fmdom' I. node_ok I k (envs k) (ords k) (net k)"
    and "k \<in> fmdom' I" "d \<in> fmdom' I"
  shows "\<exists>n \<le> tdist (path_of (net k) k) (path_of (net d) d).
      route envs ords net (path_of (net d) d) k (- 1) d n"
proof -
  obtain ps where ps: "tpath I k root ps" "length ps < 2 ^ 62" using tree_ok_path [OF assms(1,3)] .
  obtain qs where qs: "tpath I d root qs" "length qs < 2 ^ 62" using tree_ok_path [OF assms(1,4)] .
  have "r_infos (net k) = I" "r_infos (net d) = I" using assms(2-4) by (auto simp: node_ok_def)
  then have "path_of (net k) k = ps" "path_of (net d) d = qs"
    using getRootAndPath_tpath ps(1) qs(1) by (simp_all add: path_of_def)
  moreover have "tdist ps qs < unat (- 1 :: u64)"
    using ps(2) qs(2) by (simp add: tdist_def unsigned_minus_1_eq_mask mask_eq_exp_minus_1)
  ultimately show ?thesis using route_delivers [OF assms(1,2) qs(1) ps(1)] by simp
qed

theorem greedy_delivers_witness:
  "\<exists>n \<le> tdist (path_of (sample_net (sample_key 2)) (sample_key 2)) (path_of (sample_net (sample_key 3)) (sample_key 3)).
      route sample_env (\<lambda>_. sorted_orders) sample_net (path_of (sample_net (sample_key 3)) (sample_key 3))
        (sample_key 2) (- 1) (sample_key 3) n"
  by (rule greedy_delivers [OF sample_tree_ok sample_node_ok]) (simp_all add: sample_dom)

end
