(* ===== verification/Address.thy ===== *)
theory Address
  imports Keys
begin

text \<open>
  \<^verbatim>\<open>src/address/address.go\<close>: the IPv6 addresses and /64 subnets derived from public keys, and the
  partial key read back from either. An \<open>Address\<close> is a list of 16 bytes and a \<open>Subnet\<close> a list of
  8, as the Go arrays have it. The bit loops are translated index by index; the lemmas describe
  them through \<open>nth_bit\<close>, the most significant bit first, and end in the fact the key store and
  the Bloom filter transform rest on: the partial key has the address it came from.
\<close>

type_synonym address = bytes
type_synonym subnet = bytes

definition GetPrefix :: bytes where
  "GetPrefix = [0x02]"

definition Address_IsValid :: "address \<Rightarrow> bool" where
  "Address_IsValid a = list_all (\<lambda>idx. a ! idx = GetPrefix ! idx) [0..<length GetPrefix]"

definition Subnet_IsValid :: "subnet \<Rightarrow> bool" where
  "Subnet_IsValid s =
     (let l = length GetPrefix
      in list_all (\<lambda>idx. s ! idx = GetPrefix ! idx) [0..<l - 1]
         \<and> s ! (l - 1) = (GetPrefix ! (l - 1)) OR 0x01)"

section \<open>Addresses of keys\<close>

record addr_loop =
  al_done :: bool
  al_ones :: byte
  al_bits :: byte
  al_nBits :: nat
  al_temp :: bytes

definition key_bit :: "bytes \<Rightarrow> nat \<Rightarrow> byte" where
  "key_bit buf idx = drop_bit (7 - idx mod 8) (buf ! (idx div 8) AND drop_bit (idx mod 8) 0x80)"

definition shift_in :: "byte \<Rightarrow> byte \<Rightarrow> byte" where
  "shift_in b bits = push_bit 1 bits OR b"

text \<open>One round of the loop, given the bit at its index.\<close>

definition addr_step :: "byte \<Rightarrow> addr_loop \<Rightarrow> addr_loop" where
  "addr_step b s =
     (if \<not> al_done s \<and> b \<noteq> 0 then s\<lparr>al_ones := al_ones s + 1\<rparr>
      else if \<not> al_done s \<and> b = 0 then s\<lparr>al_done := True\<rparr>
      else
        (let bits = shift_in b (al_bits s);
             nBits = al_nBits s + 1
         in if nBits = 8 then s\<lparr>al_bits := bits, al_nBits := 0, al_temp := al_temp s @ [bits]\<rparr>
            else s\<lparr>al_bits := bits, al_nBits := nBits\<rparr>))"

definition addr_bits :: "bytes \<Rightarrow> addr_loop" where
  "addr_bits buf = fold (\<lambda>idx. addr_step (key_bit buf idx)) [0..<8 * length buf]
     \<lparr>al_done = False, al_ones = 0, al_bits = 0, al_nBits = 0, al_temp = []\<rparr>"

definition AddrForKey :: "publicKey \<Rightarrow> address option" where
  "AddrForKey publicKey =
     (if length publicKey \<noteq> publicKeySize then None
      else
        (let s = addr_bits (map (\<lambda>b. NOT b) publicKey)
         in Some (array_of 16 (GetPrefix @ [al_ones s] @ al_temp s))))"

definition SubnetForKey :: "publicKey \<Rightarrow> subnet option" where
  "SubnetForKey publicKey =
     (case AddrForKey publicKey of
        None \<Rightarrow> None
      | Some addr \<Rightarrow>
          (let snet = array_of 8 addr; i = length GetPrefix - 1
           in Some (snet[i := snet ! i OR 0x01])))"

section \<open>Keys of addresses\<close>

text \<open>
  The indices into the 32-byte array are in range: \<open>ones\<close> is a byte, so the first loop stays below
  \<open>256\<close>, and the second leaves when its index passes the end.
\<close>

definition set_ones :: "nat \<Rightarrow> bytes \<Rightarrow> bytes" where
  "set_ones ones key =
     fold (\<lambda>idx key. key[idx div 8 := key ! (idx div 8) OR drop_bit (idx mod 8) 0x80]) [0..<ones] key"

fun copy_bits :: "address \<Rightarrow> nat \<Rightarrow> nat \<Rightarrow> nat list \<Rightarrow> bytes \<Rightarrow> bytes" where
  "copy_bits a keyOffset addrOffset [] key = key"
| "copy_bits a keyOffset addrOffset (idx # is) key =
     (let bits = push_bit (idx mod 8) (a ! (idx div 8) AND drop_bit (idx mod 8) 0x80);
          keyIdx = keyOffset + (idx - addrOffset);
          bits = drop_bit (keyIdx mod 8) bits;
          i = keyIdx div 8
      in if i \<ge> length key then key
         else copy_bits a keyOffset addrOffset is (key[i := key ! i OR bits]))"

definition Address_GetKey :: "address \<Rightarrow> publicKey" where
  "Address_GetKey a =
     (let ones = unat (a ! length GetPrefix);
          key = set_ones ones (replicate publicKeySize 0);
          addrOffset = 8 * length GetPrefix + 8;
          key = copy_bits a (ones + 1) addrOffset [addrOffset..<8 * length a] key
      in map (\<lambda>b. NOT b) key)"

definition Subnet_GetKey :: "subnet \<Rightarrow> publicKey" where
  "Subnet_GetKey s = Address_GetKey (array_of 16 s)"

section \<open>Bits of a byte string\<close>

definition nth_bit :: "bytes \<Rightarrow> nat \<Rightarrow> bool" where
  "nth_bit bs j = bit (bs ! (j div 8)) (7 - j mod 8)"

lemma byte_eqI: "(\<And>n. n < 8 \<Longrightarrow> bit x (7 - n) = bit y (7 - n)) \<Longrightarrow> x = (y :: byte)"
proof (rule bit_word_eqI)
  fix n assume *: "\<And>n. n < 8 \<Longrightarrow> bit x (7 - n) = bit y (7 - n)" and "n < LENGTH(8)"
  then show "bit x n = bit y n" using * [of "7 - n"] by simp
qed

lemma bytes_eqI:
  assumes "length bs = length cs" "\<And>j. j < 8 * length bs \<Longrightarrow> nth_bit bs j = nth_bit cs j"
  shows "bs = cs"
proof (rule nth_equalityI)
  fix i assume i: "i < length bs"
  show "bs ! i = cs ! i"
  proof (rule byte_eqI)
    fix n :: nat assume "n < 8"
    then show "bit (bs ! i) (7 - n) = bit (cs ! i) (7 - n)"
      using assms(2) [of "8 * i + n"] i by (simp add: nth_bit_def)
  qed
qed (rule assms)

lemma mod_8_le [simp]: "i mod 8 \<le> (7 :: nat)"
  using mod_less_divisor [of 8 i] by linarith

lemma seven_minus_eq: "7 - i mod 8 = 7 - j mod 8 \<longleftrightarrow> i mod 8 = j mod (8 :: nat)"
  using mod_8_le [of i] mod_8_le [of j] by linarith

lemma bit_0x80: "bit (0x80 :: byte) n \<longleftrightarrow> n = 7"
proof -
  have "(0x80 :: byte) = push_bit 7 1" by simp
  then show ?thesis by (simp only: bit_push_bit_iff bit_1_iff) auto
qed

lemma mask_bit: "m \<le> 7 \<Longrightarrow> bit (drop_bit m 0x80 :: byte) n \<longleftrightarrow> n = 7 - m"
  by (auto simp only: bit_drop_bit_eq o_apply bit_0x80)

lemma key_bit_eq: "key_bit buf idx = of_bool (nth_bit buf idx)"
proof (rule bit_word_eqI)
  fix n assume "n < LENGTH(8)"
  have e: "7 - idx mod 8 + n = 7 - idx mod 8 \<longleftrightarrow> n = 0" by linarith
  show "bit (key_bit buf idx) n = bit (of_bool (nth_bit buf idx) :: byte) n"
    unfolding key_bit_def bit_drop_bit_eq o_apply bit_and_iff mask_bit [OF mod_8_le] e nth_bit_def
    by (cases n) (auto simp: bit_1_iff)
qed

lemma nth_bit_not: "j < 8 * length bs \<Longrightarrow> nth_bit (map (\<lambda>b. NOT b) bs) j \<longleftrightarrow> \<not> nth_bit bs j"
proof -
  assume "j < 8 * length bs"
  then have l: "j div 8 < length bs" by (simp add: less_mult_imp_div_less mult.commute)
  have "\<not> 8 \<le> 7 - j mod 8" by linarith
  then show ?thesis using l by (simp add: nth_bit_def bit_not_iff_eq)
qed

lemma div_mod_8_eq: "i div 8 = j div 8 \<Longrightarrow> i mod 8 = j mod 8 \<Longrightarrow> i = (j :: nat)"
  by (metis div_mult_mod_eq)

text \<open>Setting one bit of the key, as both loops of \<^verbatim>\<open>GetKey\<close> do.\<close>

lemma nth_bit_update:
  assumes m: "\<And>n. bit m n \<longleftrightarrow> c \<and> n = 7 - i mod 8" and j: "i < 8 * length key"
  shows "nth_bit (key[i div 8 := key ! (i div 8) OR m]) j \<longleftrightarrow> nth_bit key j \<or> (c \<and> j = i)"
proof (cases "i div 8 = j div 8")
  case True
  have l: "i div 8 < length key" using j by (simp add: less_mult_imp_div_less mult.commute)
  have "7 - j mod 8 = 7 - i mod 8 \<longleftrightarrow> j = i"
    using True div_mod_8_eq [of j i] seven_minus_eq [of j i] by auto
  then show ?thesis using l by (simp add: nth_bit_def True [symmetric] bit_or_iff m)
qed (auto simp: nth_bit_def)

lemma set_ones_bits:
  "ones \<le> 8 * length key \<Longrightarrow>
   length (set_ones ones key) = length key
   \<and> (\<forall>j. nth_bit (set_ones ones key) j \<longleftrightarrow> nth_bit key j \<or> j < ones)"
proof (induction ones)
  case (Suc n)
  let ?k = "set_ones n key"
  have eq: "set_ones (Suc n) key = ?k[n div 8 := ?k ! (n div 8) OR drop_bit (n mod 8) 0x80]"
    by (simp add: set_ones_def)
  have l: "length ?k = length key" using Suc by simp
  have "nth_bit (set_ones (Suc n) key) j \<longleftrightarrow> nth_bit ?k j \<or> (True \<and> j = n)" for j
    unfolding eq by (rule nth_bit_update) (use Suc.prems l in \<open>simp_all add: mask_bit\<close>)
  then show ?case using Suc l by (auto simp: eq less_Suc_eq)
qed (simp add: set_ones_def)

lemma copied_bit:
  "bit (drop_bit (k mod 8) (push_bit (i mod 8) (a ! (i div 8) AND drop_bit (i mod 8) 0x80)) :: byte) n
   \<longleftrightarrow> nth_bit a i \<and> n = 7 - k mod 8"
proof -
  have "i mod 8 \<le> k mod 8 + n \<and> k mod 8 + n < 8 \<and> i mod 8 + (k mod 8 + n - i mod 8) = 7
      \<longleftrightarrow> n = 7 - k mod 8" using mod_8_le [of k] mod_8_le [of i] by arith
  moreover have "n = 7 - k mod 8 \<Longrightarrow> k mod 8 + n - i mod 8 = 7 - i mod 8"
    using mod_8_le [of k] by arith
  ultimately show ?thesis
    unfolding bit_drop_bit_eq o_apply bit_push_bit_iff bit_and_iff bit_0x80 nth_bit_def by auto
qed

lemma copy_bits_bits:
  assumes "addrOffset \<le> lo"
  shows "length (copy_bits a off addrOffset [lo..<hi] key) = length key
    \<and> (\<forall>j < 8 * length key. nth_bit (copy_bits a off addrOffset [lo..<hi] key) j
        \<longleftrightarrow> nth_bit key j \<or> (off + (lo - addrOffset) \<le> j \<and> j - off + addrOffset < hi
              \<and> nth_bit a (j - off + addrOffset)))"
  using assms
proof (induction "hi - lo" arbitrary: lo key)
  case (Suc n)
  let ?k = "off + (lo - addrOffset)"
  let ?b = "drop_bit (?k mod 8) (push_bit (lo mod 8) (a ! (lo div 8) AND drop_bit (lo mod 8) 0x80))"
  let ?key = "key[?k div 8 := key ! (?k div 8) OR ?b]"
  have step: "copy_bits a off addrOffset [lo..<hi] key =
      (if ?k div 8 \<ge> length key then key else copy_bits a off addrOffset [Suc lo..<hi] ?key)"
    using Suc.hyps(2) by (simp add: upt_conv_Cons Let_def)
  show ?case
  proof (cases "?k div 8 \<ge> length key")
    case True
    then have "8 * length key \<le> ?k" by linarith
    then show ?thesis by (auto simp: step True)
  next
    case False
    then have k: "?k < 8 * length key" by linarith
    have upd: "nth_bit ?key j \<longleftrightarrow> nth_bit key j \<or> (nth_bit a lo \<and> j = ?k)" for j
      by (rule nth_bit_update) (use k in \<open>simp_all only: copied_bit\<close>)
    have IH: "length (copy_bits a off addrOffset [Suc lo..<hi] ?key) = length ?key
      \<and> (\<forall>j < 8 * length ?key. nth_bit (copy_bits a off addrOffset [Suc lo..<hi] ?key) j
        \<longleftrightarrow> nth_bit ?key j \<or> (off + (Suc lo - addrOffset) \<le> j \<and> j - off + addrOffset < hi
              \<and> nth_bit a (j - off + addrOffset)))"
      by (rule Suc.hyps) (use Suc in auto)
    have "(nth_bit key j \<or> (nth_bit a lo \<and> j = ?k)) \<or> (off + (Suc lo - addrOffset) \<le> j
        \<and> j - off + addrOffset < hi \<and> nth_bit a (j - off + addrOffset))
      \<longleftrightarrow> nth_bit key j \<or> (?k \<le> j \<and> j - off + addrOffset < hi \<and> nth_bit a (j - off + addrOffset))" for j
    proof (cases "j = ?k")
      case True
      then have "j - off + addrOffset = lo" using Suc.prems by simp
      then show ?thesis using True Suc.hyps(2) Suc.prems by auto
    next
      case False
      have "off + (Suc lo - addrOffset) \<le> j \<longleftrightarrow> ?k \<le> j" using False Suc.prems by arith
      then show ?thesis using False by simp
    qed
    then show ?thesis using IH unfolding step if_not_P [OF False] upd length_list_update by blast
  qed
next
  case 0
  then show ?case by auto
qed

text \<open>The bits of the inverse of the partial key: ones, a zero, then the bits of the address.\<close>

lemma GetKey_bits:
  assumes a: "length a = 16" and j: "j < 256"
  defines "ones \<equiv> unat (a ! 1)"
  shows "nth_bit (Address_GetKey a) j \<longleftrightarrow>
    \<not> (j < ones \<or> (ones < j \<and> j - (ones + 1) < 112 \<and> nth_bit a (j - (ones + 1) + 16)))"
proof -
  have o: "ones < 256" using unsigned_less [of "a ! 1"] by (simp add: ones_def)
  let ?z = "set_ones ones (replicate 32 0)"
  have z: "length ?z = 32" "\<And>j. j < 256 \<Longrightarrow> nth_bit ?z j \<longleftrightarrow> j < ones"
    using set_ones_bits [of ones "replicate 32 0"] o by (auto simp: nth_bit_def less_mult_imp_div_less)
  let ?c = "copy_bits a (ones + 1) 16 [16..<128] ?z"
  have c: "length ?c = 32" "nth_bit ?c j \<longleftrightarrow> j < ones \<or> (ones + 1 \<le> j \<and> j - (ones + 1) + 16 < 128
        \<and> nth_bit a (j - (ones + 1) + 16))"
    using copy_bits_bits [of 16 16 a "ones + 1" 128 ?z] z j by simp_all
  have "Address_GetKey a = map (\<lambda>b. NOT b) ?c"
    by (simp add: Address_GetKey_def GetPrefix_def a ones_def Let_def del: upt_rec_numeral)
  then show ?thesis using nth_bit_not [of j ?c] c j by auto
qed

lemma length_GetKey [simp]: "length (Address_GetKey a) = 32"
proof -
  let ?o = "unat (a ! length GetPrefix)"
  have "?o < 256" using unsigned_less [of "a ! length GetPrefix"] by simp
  then have "length (set_ones ?o (replicate publicKeySize 0)) = 32"
    using set_ones_bits [of ?o "replicate publicKeySize 0"] by simp
  then show ?thesis by (simp add: Address_GetKey_def Let_def copy_bits_bits)
qed

section \<open>The loop over the bits of a key\<close>

text \<open>\<open>pack\<close> collects whole octets, most significant bit first, and forgets an incomplete one.\<close>

definition octet :: "bool list \<Rightarrow> byte" where
  "octet bl = fold (\<lambda>b. shift_in (of_bool b)) bl 0"

fun pack :: "bool list \<Rightarrow> bytes" where
  "pack bl = (if length bl < 8 then [] else octet (take 8 bl) # pack (drop 8 bl))"

declare pack.simps [simp del]

lemma length_pack [simp]: "length (pack bl) = length bl div 8"
proof (induction bl rule: pack.induct)
  case (1 bl)
  then show ?case by (subst pack.simps) (auto simp: le_div_geq)
qed

lemma bit_shift_in:
  "bit (shift_in (of_bool b) w) n \<longleftrightarrow> n < 8 \<and> (if n = 0 then b else bit w (n - 1))"
  unfolding shift_in_def bit_or_iff bit_push_bit_iff by (cases n) (auto simp: bit_1_iff)

lemma bit_shifts_in:
  "bit (fold (\<lambda>b. shift_in (of_bool b)) bl w :: byte) n \<longleftrightarrow>
   n < 8 \<and> (if n < length bl then bl ! (length bl - 1 - n) else bit w (n - length bl))"
proof (induction bl arbitrary: w)
  case Nil
  then show ?case using bit_imp_le_length [of w n] by auto
next
  case (Cons b bl)
  have "bit (fold (\<lambda>b. shift_in (of_bool b)) (b # bl) w) n \<longleftrightarrow> n < 8 \<and> (if n < length bl
      then bl ! (length bl - 1 - n) else bit (shift_in (of_bool b) w) (n - length bl))"
    unfolding fold_Cons o_apply Cons ..
  also have "\<dots> \<longleftrightarrow> n < 8 \<and> (if n < length (b # bl) then (b # bl) ! (length (b # bl) - 1 - n)
      else bit w (n - length (b # bl)))"
    unfolding bit_shift_in by (auto simp: nth_Cons')
  finally show ?case .
qed

lemma fold_shift_overflow:
  "length bl = 8 \<Longrightarrow> fold (\<lambda>b. shift_in (of_bool b)) bl w = octet bl"
  by (rule bit_word_eqI) (simp add: octet_def bit_shifts_in)

lemma bit_octet: "length bl = 8 \<Longrightarrow> n < 8 \<Longrightarrow> bit (octet bl) (7 - n) \<longleftrightarrow> bl ! n"
proof -
  assume *: "length bl = 8" "n < 8"
  then have "7 - n < 8" by linarith
  then show ?thesis using * by (simp add: octet_def bit_shifts_in)
qed

lemma nth_bit_pack: "j < 8 * (length bl div 8) \<Longrightarrow> nth_bit (pack bl) j \<longleftrightarrow> bl ! j"
proof (induction bl arbitrary: j rule: pack.induct)
  case (1 bl)
  from 1(2) have l: "\<not> length bl < 8" by (cases "length bl < 8") auto
  then have p: "pack bl = octet (take 8 bl) # pack (drop 8 bl)" by (subst pack.simps) simp
  show ?case
  proof (cases "j < 8")
    case True
    then show ?thesis using l bit_octet [of "take 8 bl" j] by (simp add: p nth_bit_def)
  next
    case False
    then have j: "j = 8 + (j - 8)" by simp
    have "nth_bit (pack (drop 8 bl)) (j - 8) \<longleftrightarrow> drop 8 bl ! (j - 8)"
      by (rule 1(1) [OF l]) (use 1(2) l False in \<open>auto simp: le_div_geq\<close>)
    moreover have "nth_bit (pack bl) j = nth_bit (pack (drop 8 bl)) (j - 8)"
    proof -
      have "j div 8 = Suc ((j - 8) div 8)" "j mod 8 = (j - 8) mod 8"
        using False by (auto simp: le_div_geq le_mod_geq)
      then show ?thesis by (simp add: nth_bit_def p)
    qed
    ultimately show ?thesis using l False j by simp
  qed
qed

abbreviation bit_step :: "bool \<Rightarrow> addr_loop \<Rightarrow> addr_loop" where
  "bit_step b \<equiv> addr_step (of_bool b)"

definition loop_ones :: "byte \<Rightarrow> addr_loop" where
  "loop_ones k = \<lparr>al_done = False, al_ones = k, al_bits = 0, al_nBits = 0, al_temp = []\<rparr>"

lemma addr_bits_fold:
  "addr_bits buf = fold bit_step (map (nth_bit buf) [0..<8 * length buf]) (loop_ones 0)"
  by (simp add: addr_bits_def loop_ones_def key_bit_eq fold_map o_def)

lemma fold_ones: "fold bit_step (replicate n True) (loop_ones k) = loop_ones (k + of_nat n)"
proof (induction n arbitrary: k)
  case (Suc n)
  have "bit_step True (loop_ones k) = loop_ones (k + 1)" by (simp add: addr_step_def loop_ones_def)
  then show ?case using Suc [of "k + 1"] by (simp add: add.assoc)
qed simp

lemma fold_rest_short:
  "al_done s \<Longrightarrow> al_nBits s + length bl < 8 \<Longrightarrow>
   fold bit_step bl s = s\<lparr>al_bits := fold (\<lambda>b. shift_in (of_bool b)) bl (al_bits s),
     al_nBits := al_nBits s + length bl\<rparr>"
  by (induction bl arbitrary: s) (auto simp: addr_step_def Let_def)

lemma fold_octet:
  assumes "al_done s" "al_nBits s = 0" "length bl = 8"
  shows "fold bit_step bl s = s\<lparr>al_bits := octet bl, al_temp := al_temp s @ [octet bl]\<rparr>"
proof -
  obtain ini b where bl: "bl = ini @ [b]" "length ini = 7"
    using assms(3) by (cases bl rule: rev_cases) auto
  let ?w = "fold (\<lambda>b. shift_in (of_bool b)) ini (al_bits s)"
  have "fold bit_step ini s = s\<lparr>al_bits := ?w, al_nBits := 7\<rparr>"
    using fold_rest_short [of s ini] assms bl by simp
  moreover have "shift_in (of_bool b) ?w = octet bl"
    using fold_shift_overflow [OF assms(3), of "al_bits s"] by (simp add: bl)
  ultimately show ?thesis using assms by (simp add: bl(1) addr_step_def Let_def)
qed

lemma fold_rest:
  "al_done s \<Longrightarrow> al_nBits s = 0 \<Longrightarrow>
   al_temp (fold bit_step bl s) = al_temp s @ pack bl \<and> al_ones (fold bit_step bl s) = al_ones s"
proof (induction bl arbitrary: s rule: pack.induct)
  case (1 bl)
  show ?case
  proof (cases "length bl < 8")
    case True
    then show ?thesis using 1 by (subst pack.simps) (simp add: fold_rest_short)
  next
    case False
    let ?o = "octet (take 8 bl)"
    have "fold bit_step bl s = fold bit_step (drop 8 bl) (fold bit_step (take 8 bl) s)"
      by (metis append_take_drop_id fold_append o_apply)
    also have "fold bit_step (take 8 bl) s = s\<lparr>al_bits := ?o, al_temp := al_temp s @ [?o]\<rparr>"
      by (rule fold_octet) (use 1 False in auto)
    finally have e: "fold bit_step bl s
      = fold bit_step (drop 8 bl) (s\<lparr>al_bits := ?o, al_temp := al_temp s @ [?o]\<rparr>)" .
    have "pack bl = ?o # pack (drop 8 bl)" using False by (subst pack.simps) simp
    then show ?thesis
      unfolding e using 1(1) [OF False, of "s\<lparr>al_bits := ?o, al_temp := al_temp s @ [?o]\<rparr>"] 1(2,3) by simp
  qed
qed

section \<open>Addresses and partial keys\<close>

lemma takeWhile_ones: "takeWhile id (replicate n True @ False # bl) = replicate n True"
  by (induction n) simp_all

lemma takeWhile_id_split:
  "False \<in> set bl \<Longrightarrow> bl = replicate (length (takeWhile id bl)) True @ False # drop (Suc (length (takeWhile id bl))) bl"
  by (induction bl) auto

text \<open>The bits of the inverse of a key, and how many of them are leading ones.\<close>

definition inv_bits :: "publicKey \<Rightarrow> bool list" where
  "inv_bits k = map (\<lambda>j. \<not> nth_bit k j) [0..<8 * length k]"

definition leading :: "publicKey \<Rightarrow> nat" where
  "leading k = length (takeWhile id (inv_bits k))"

lemma length_inv_bits [simp]: "length (inv_bits k) = 8 * length k"
  by (simp add: inv_bits_def)

lemma nth_inv_bits: "j < 8 * length k \<Longrightarrow> inv_bits k ! j \<longleftrightarrow> \<not> nth_bit k j"
  by (simp add: inv_bits_def)

lemma leading_le: "leading k \<le> 8 * length k"
  using length_takeWhile_le [of id "inv_bits k"] by (simp add: leading_def)

lemma addr_bits_inv:
  "al_ones (addr_bits (map (\<lambda>b. NOT b) k)) = of_nat (leading k)
   \<and> al_temp (addr_bits (map (\<lambda>b. NOT b) k)) = pack (drop (Suc (leading k)) (inv_bits k))"
proof -
  let ?bl = "inv_bits k"
  have "map (nth_bit (map (\<lambda>b. NOT b) k)) [0..<8 * length k] = ?bl"
    by (simp add: inv_bits_def nth_bit_not)
  then have f: "addr_bits (map (\<lambda>b. NOT b) k) = fold bit_step ?bl (loop_ones 0)"
    by (simp add: addr_bits_fold)
  show ?thesis
  proof (cases "False \<in> set ?bl")
    case True
    let ?rest = "drop (Suc (leading k)) ?bl"
    let ?s = "(loop_ones (of_nat (leading k)))\<lparr>al_done := True\<rparr>"
    have "?bl = replicate (leading k) True @ False # ?rest"
      using takeWhile_id_split [OF True] by (simp add: leading_def)
    then have "fold bit_step ?bl (loop_ones 0)
        = fold bit_step (replicate (leading k) True @ False # ?rest) (loop_ones 0)" by simp
    also have "\<dots> = fold bit_step ?rest (bit_step False (loop_ones (of_nat (leading k))))"
      by (simp only: fold_append fold_Cons o_apply fold_ones add_0)
    also have "bit_step False (loop_ones (of_nat (leading k))) = ?s"
      by (simp add: addr_step_def loop_ones_def)
    finally show ?thesis using fold_rest [of ?s ?rest] by (simp add: f loop_ones_def)
  next
    case False
    then have "takeWhile id ?bl = ?bl" by (simp add: takeWhile_eq_all_conv) (metis (full_types))
    then have l: "leading k = length ?bl" unfolding leading_def by (simp only:)
    have "?bl = replicate (leading k) True"
      using False l by (metis (full_types) replicate_eqI)
    then have "fold bit_step ?bl (loop_ones 0) = loop_ones (of_nat (leading k))"
      using fold_ones [of "leading k" 0] by simp
    then show ?thesis by (simp add: f l loop_ones_def pack.simps)
  qed
qed

lemma AddrForKey_eq:
  "length k = 32 \<Longrightarrow> AddrForKey k =
   Some (array_of 16 (2 # of_nat (leading k) # pack (drop (Suc (leading k)) (inv_bits k))))"
  using addr_bits_inv [of k] by (simp add: AddrForKey_def Let_def GetPrefix_def)

text \<open>
  An address is \<^emph>\<open>canonical\<close> when the bytes a 32-byte key cannot fill are zero: with \<open>ones\<close> leading
  ones and the zero bit behind them, \<open>255 - ones\<close> bits are left.
\<close>

definition canonical :: "address \<Rightarrow> bool" where
  "canonical a \<longleftrightarrow> length a = 16 \<and> (\<forall>i. 2 + (255 - unat (a ! 1)) div 8 \<le> i \<and> i < 16 \<longrightarrow> a ! i = 0)"

lemma canonicalD:
  "canonical a \<Longrightarrow> length a = 16"
  "canonical a \<Longrightarrow> 2 + (255 - unat (a ! 1)) div 8 \<le> i \<Longrightarrow> i < 16 \<Longrightarrow> a ! i = 0"
  unfolding canonical_def by blast+

lemma leading_GetKey:
  assumes "length a = 16"
  shows "leading (Address_GetKey a) = unat (a ! 1)"
proof -
  let ?o = "unat (a ! 1)" and ?bl = "inv_bits (Address_GetKey a)"
  have o: "?o < 256" using unsigned_less [of "a ! 1"] by simp
  have b: "?bl ! j \<longleftrightarrow> j < ?o \<or> (?o < j \<and> j - (?o + 1) < 112 \<and> nth_bit a (j - (?o + 1) + 16))"
    if "j < 256" for j
  proof -
    have "j < 8 * length (Address_GetKey a)" using that by simp
    from nth_inv_bits [OF this] show ?thesis using GetKey_bits [OF assms that] by blast
  qed
  have "take ?o ?bl = replicate ?o True"
    by (rule nth_equalityI) (use o b in auto)
  moreover have "\<not> ?bl ! ?o" using b [of ?o] o by simp
  ultimately have "?bl = replicate ?o True @ False # drop (Suc ?o) ?bl"
    using id_take_nth_drop [of ?o ?bl] o by simp
  then have "takeWhile id ?bl = replicate ?o True"
    by (metis takeWhile_ones)
  then show ?thesis by (simp add: leading_def)
qed

lemma partial_byte:
  assumes a: "length a = 16" and i: "i < 14" "i < (255 - unat (a ! 1)) div 8"
  shows "pack (drop (Suc (unat (a ! 1))) (inv_bits (Address_GetKey a))) ! i = a ! (i + 2)"
proof (rule byte_eqI)
  let ?o = "unat (a ! 1)" and ?bl = "inv_bits (Address_GetKey a)"
  fix n :: nat assume n: "n < 8"
  define j where "j = 8 * i + n"
  have "8 * ((255 - ?o) div 8) \<le> 255 - ?o" by simp
  then have j: "j < 8 * ((255 - ?o) div 8)" "j < 112" "Suc ?o + j < 256"
    using i n unfolding j_def by arith+
  have "j + 16 = 8 * (i + 2) + n" by (simp add: j_def)
  then have d: "j div 8 = i" "j mod 8 = n" "(j + 16) div 8 = i + 2" "(j + 16) mod 8 = n"
    using n by (simp_all only: j_def div_mult_self4 mod_mult_self4 mod_less div_less)
  have "nth_bit (pack (drop (Suc ?o) ?bl)) j \<longleftrightarrow> ?bl ! (Suc ?o + j)"
    using nth_bit_pack [of j "drop (Suc ?o) ?bl"] j by simp
  also have "\<dots> \<longleftrightarrow> \<not> nth_bit (Address_GetKey a) (Suc ?o + j)"
    by (rule nth_inv_bits) (use j in simp)
  also have "\<dots> \<longleftrightarrow> nth_bit a (j + 16)" using GetKey_bits [OF a j(3)] j by simp
  finally show "bit (pack (drop (Suc ?o) ?bl) ! i) (7 - n) = bit (a ! (i + 2)) (7 - n)"
    unfolding nth_bit_def d .
qed

lemma AddrForKey_GetKey:
  assumes c: "canonical a"
  shows "AddrForKey (Address_GetKey a) = Some (2 # tl a)"
proof -
  let ?o = "unat (a ! 1)"
  define p where "p = pack (drop (Suc ?o) (inv_bits (Address_GetKey a)))"
  have a: "length a = 16" by (rule canonicalD [OF c])
  have lp: "length p = (255 - ?o) div 8" by (simp add: p_def)
  have "array_of 14 p ! i = drop 2 a ! i" if i: "i < 14" for i
  proof (cases "i < length p")
    case True
    then have "p ! i = a ! (i + 2)" unfolding p_def using partial_byte [OF a i] lp p_def by metis
    then show ?thesis using True a i by (simp add: nth_array_of)
  next
    case False
    have "a ! (i + 2) = 0" by (rule canonicalD [OF c]) (use False i lp in simp_all)
    then show ?thesis using False a i by (simp add: nth_array_of)
  qed
  then have p: "array_of 14 p = drop 2 a" using a by (intro nth_equalityI) simp_all
  have "AddrForKey (Address_GetKey a) = Some (array_of 16 (2 # a ! 1 # p))"
    using AddrForKey_eq [of "Address_GetKey a"] by (simp add: leading_GetKey [OF a] p_def)
  also have "array_of 16 (2 # a ! 1 # p) = 2 # a ! 1 # drop 2 a"
    unfolding p [symmetric] by (simp add: array_of_def)
  also have "a ! 1 # drop 2 a = tl a" using a by (cases a; cases "tl a") auto
  finally show ?thesis .
qed

lemma AddrForKey_canonical:
  assumes k: "length k = 32" and a: "AddrForKey k = Some a"
  shows "canonical a \<and> a ! 0 = 2"
proof -
  let ?p = "pack (drop (Suc (leading k)) (inv_bits k))"
  have e: "a = array_of 16 (2 # of_nat (leading k) # ?p)" using a by (simp add: AddrForKey_eq [OF k])
  have lp: "length ?p = (255 - leading k) div 8" using k by simp
  have n: "length ?p \<le> (255 - unat (a ! 1)) div 8"
  proof (cases "leading k < 256")
    case True
    then show ?thesis unfolding lp e by (simp add: array_of_def unat_of_nat)
  next
    case False
    then show ?thesis unfolding lp by simp
  qed
  have "a ! i = 0" if "2 + (255 - unat (a ! 1)) div 8 \<le> i" "i < 16" for i
  proof -
    have "length (2 # of_nat (leading k) # ?p) \<le> i" using n that by simp
    then show ?thesis unfolding e using that by (simp only: nth_array_of) simp
  qed
  moreover have "a ! 0 = 2" "length a = 16" by (simp_all add: e nth_array_of)
  ultimately show ?thesis unfolding canonical_def by blast
qed

lemma canonical_subnet:
  assumes "canonical a"
  shows "canonical (array_of 16 (3 # take 7 (tl a)))"
proof -
  define b where "b = array_of 16 (3 # take 7 (tl a))"
  have l: "length a = 16" by (rule canonicalD [OF assms])
  have nth: "b ! i = (if i = 0 then 3 else if i < 8 then a ! i else 0)" if "i < 16" for i
    unfolding b_def nth_array_of [OF that] using l by (auto simp: nth_Cons' nth_tl)
  have "b ! i = 0" if i: "2 + (255 - unat (b ! 1)) div 8 \<le> i" "i < 16" for i
  proof -
    have "b ! 1 = a ! 1" using nth [of 1] by simp
    then have "2 + (255 - unat (a ! 1)) div 8 \<le> i" "i \<noteq> 0" using i(1) by simp_all
    then show ?thesis using canonicalD(2) [OF assms _ i(2)] unfolding nth [OF i(2)] by simp
  qed
  moreover have "length b = 16" by (simp add: b_def)
  ultimately show ?thesis unfolding canonical_def b_def [symmetric] by blast
qed

lemma SubnetForKey_eq:
  assumes "AddrForKey k = Some a" "length a = 16" "a ! 0 = 2"
  shows "SubnetForKey k = Some (3 # take 7 (tl a))"
proof -
  obtain xs where "a = 2 # xs" "length xs = 15" using assms by (cases a) auto
  then show ?thesis using assms(1) by (simp add: SubnetForKey_def GetPrefix_def array_of_def)
qed

lemma SubnetForKey_GetKey:
  assumes "canonical a" "a ! 0 = 2"
  shows "SubnetForKey (Subnet_GetKey (3 # take 7 (tl a))) = Some (3 # take 7 (tl a))"
proof -
  let ?s = "3 # take 7 (tl a)" and ?b = "array_of 16 (3 # take 7 (tl a))"
  have l: "length a = 16" by (rule canonicalD [OF assms(1)])
  have b: "canonical ?b" by (rule canonical_subnet [OF assms(1)])
  have "tl ?b = take 7 (tl a) @ replicate 8 0" using l by (simp add: array_of_def)
  moreover have "SubnetForKey (Address_GetKey ?b) = Some (3 # take 7 (tl (2 # tl ?b)))"
    by (rule SubnetForKey_eq [OF AddrForKey_GetKey [OF b]]) (simp_all add: canonicalD(1) [OF b])
  ultimately show ?thesis using l by (simp add: Subnet_GetKey_def)
qed

text \<open>The number of leading bits of a key that its address shows.\<close>

definition visible :: "publicKey \<Rightarrow> nat" where
  "visible k = Suc (leading k) + 8 * min 14 ((255 - leading k) div 8)"

lemma leading_bits:
  assumes "leading k < 8 * length k"
  shows "nth_bit k (leading k)" "j < leading k \<Longrightarrow> \<not> nth_bit k j"
proof -
  have "\<not> inv_bits k ! leading k"
    using nth_length_takeWhile [of id "inv_bits k"] assms by (simp add: leading_def)
  then show "nth_bit k (leading k)" using nth_inv_bits [OF assms] by blast
  assume j: "j < leading k"
  then have "takeWhile id (inv_bits k) ! j" "takeWhile id (inv_bits k) ! j = inv_bits k ! j"
    using set_takeWhileD [of "takeWhile id (inv_bits k) ! j" id "inv_bits k"] nth_mem [of j "takeWhile id (inv_bits k)"]
    by (simp_all add: leading_def takeWhile_nth)
  moreover have "j < 8 * length k" using j assms by simp
  ultimately show "\<not> nth_bit k j" using nth_inv_bits by blast
qed

lemma leading_0: "nth_bit k 0 \<Longrightarrow> 0 < length k \<Longrightarrow> leading k = 0"
  by (simp add: leading_def inv_bits_def upt_conv_Cons)

lemma address_leading:
  "length k = 32 \<Longrightarrow> leading k < 256 \<Longrightarrow> AddrForKey k = Some a \<Longrightarrow> unat (a ! 1) = leading k"
  by (auto simp: AddrForKey_eq nth_array_of unat_of_nat)

lemma partial_key_bits:
  assumes k: "length k = 32" and l: "leading k < 256" and a: "AddrForKey k = Some a" and j: "j < 256"
  shows "nth_bit (Address_GetKey a) j \<longleftrightarrow> visible k \<le> j \<or> nth_bit k j"
proof -
  define p where "p = pack (drop (Suc (leading k)) (inv_bits k))"
  define n where "n = (255 - leading k) div 8"
  have e: "a = array_of 16 (2 # of_nat (leading k) # p)"
    using a by (simp add: AddrForKey_eq [OF k] p_def)
  have la: "length a = 16" by (simp add: e)
  have lp: "length p = n" using k by (simp add: p_def n_def)
  have o: "unat (a ! 1) = leading k" by (rule address_leading [OF k l a])
  have bit: "nth_bit a (i + 16) \<longleftrightarrow> i < 8 * n \<and> \<not> nth_bit k (Suc (leading k) + i)" if i: "i < 112" for i
  proof -
    have d: "(i + 16) div 8 = i div 8 + 2" "(i + 16) mod 8 = i mod 8"
      using mod_mult_self1 [of i 2 8] by simp_all
    have "i div 8 < 14" using i by simp
    then have "a ! (i div 8 + 2) = (if i div 8 < n then p ! (i div 8) else 0)"
      unfolding e using lp by (simp add: nth_array_of)
    moreover have "i div 8 < n \<longleftrightarrow> i < 8 * n" by (simp add: div_less_iff_less_mult mult.commute)
    ultimately have "nth_bit a (i + 16) \<longleftrightarrow> i < 8 * n \<and> nth_bit p i"
      unfolding nth_bit_def d by simp
    moreover have "nth_bit p i \<longleftrightarrow> \<not> nth_bit k (Suc (leading k) + i)" if "i < 8 * n"
    proof -
      have "8 * n \<le> 255 - leading k" by (simp add: n_def)
      then have "Suc (leading k) + i < 8 * length k" using that k l by simp
      then show ?thesis
        using nth_bit_pack [of i "drop (Suc (leading k)) (inv_bits k)"] that k nth_inv_bits
        by (simp add: p_def n_def)
    qed
    ultimately show ?thesis by blast
  qed
  have g: "nth_bit (Address_GetKey a) j \<longleftrightarrow> \<not> (j < leading k \<or> (leading k < j
      \<and> j - (leading k + 1) < 112 \<and> nth_bit a (j - (leading k + 1) + 16)))"
    using GetKey_bits [OF la j] unfolding o .
  have lb: "nth_bit k (leading k)" "j < leading k \<Longrightarrow> \<not> nth_bit k j"
    using leading_bits [of k] l k by simp_all
  have v: "visible k = Suc (leading k) + 8 * min 14 n" by (simp add: visible_def n_def)
  consider "j < leading k" | "j = leading k" | i where "j = Suc (leading k) + i"
    by (metis less_imp_Suc_add linorder_neqE_nat add_Suc)
  then show ?thesis
  proof cases
    case 3
    then have "j - (leading k + 1) = i" by simp
    then show ?thesis unfolding g v using bit [of i] 3 by (auto simp: min_def)
  qed (use g v lb in auto)
qed

lemma GetKey_address:
  assumes "length k = 32" "AddrForKey k = Some a"
  shows "AddrForKey (Address_GetKey a) = Some a"
proof -
  have c: "canonical a" "a ! 0 = 2" using AddrForKey_canonical [OF assms] by simp_all
  then have "2 # tl a = a" using canonicalD(1) [OF c(1)] by (cases a) auto
  then show ?thesis using AddrForKey_GetKey [OF c(1)] by simp
qed

lemma visible_le:
  assumes "leading k < 256"
  shows "visible k \<le> 256"
proof -
  define n where "n = (255 - leading k) div 8"
  have n: "8 * n \<le> 255 - leading k" unfolding n_def by (rule times_div_less_eq_dividend)
  have "visible k = Suc (leading k) + 8 * min 14 n" by (simp only: visible_def n_def)
  also have "\<dots> \<le> Suc (leading k) + 8 * n" by simp
  also have "\<dots> \<le> 256" using n assms by arith
  finally show ?thesis .
qed

lemma leading_agree:
  assumes "length k = length k'" "leading k < 8 * length k" "leading k' < 8 * length k"
    and agree: "\<forall>j < visible k. nth_bit k j = nth_bit k' j"
  shows "leading k = leading k'"
proof (rule ccontr)
  assume "leading k \<noteq> leading k'"
  moreover have v: "leading k < visible k" by (simp add: visible_def)
  ultimately consider "leading k < leading k'" | "leading k' < leading k" "leading k' < visible k" by linarith
  then show False
  proof cases
    case 1
    then show False using leading_bits [of k] leading_bits [of k'] assms v by metis
  next
    case 2
    then show False using leading_bits [of k] leading_bits [of k'] assms by metis
  qed
qed

text \<open>Keys that agree on the visible bits share their address.\<close>

lemma visible_same_address:
  assumes l: "length k = 32" "length k' = 32" and lead: "leading k < 256" "leading k' < 256"
    and agree: "\<forall>j < visible k. nth_bit k j = nth_bit k' j"
  shows "AddrForKey k = AddrForKey k'"
proof -
  obtain a a' where a: "AddrForKey k = Some a" "AddrForKey k' = Some a'"
    using AddrForKey_eq [OF l(1)] AddrForKey_eq [OF l(2)] by blast
  note bits = partial_key_bits [OF l(1) lead(1) a(1)] partial_key_bits [OF l(2) lead(2) a(2)]
  note same = GetKey_address [OF l(1) a(1)] GetKey_address [OF l(2) a(2)]
  have "leading k = leading k'" by (rule leading_agree [OF _ _ _ agree]) (use l lead in simp_all)
  then have vv: "visible k = visible k'" by (simp only: visible_def)
  have "nth_bit (Address_GetKey a) j = nth_bit (Address_GetKey a') j" if "j < 256" for j
  proof (cases "visible k' \<le> j")
    case True
    then show ?thesis unfolding bits(1) [OF that] bits(2) [OF that] vv by simp
  next
    case False
    then have "nth_bit k j = nth_bit k' j" using agree [unfolded vv, rule_format, of j] by simp
    then show ?thesis unfolding bits(1) [OF that] bits(2) [OF that] vv by simp
  qed
  then have "Address_GetKey a = Address_GetKey a'" by (intro bytes_eqI) simp_all
  then show ?thesis unfolding a same [symmetric] by (simp only:)
qed

section \<open>Properties\<close>

text \<open>
  C8. Addresses and subnets lose nothing that is needed to look a key up again: for every public key,
  \<^verbatim>\<open>AddrForKey\<close> and \<^verbatim>\<open>SubnetForKey\<close> give valid values, the partial key that \<^verbatim>\<open>GetKey\<close> reads from the
  address has the same address and subnet, and the one read from the subnet has the same subnet.
\<close>

theorem partial_key_roundtrip:
  assumes "length k = publicKeySize"
  shows "\<exists>a s. AddrForKey k = Some a \<and> SubnetForKey k = Some s
    \<and> Address_IsValid a \<and> Subnet_IsValid s \<and> length a = 16 \<and> length s = 8
    \<and> AddrForKey (Address_GetKey a) = Some a \<and> SubnetForKey (Address_GetKey a) = Some s
    \<and> SubnetForKey (Subnet_GetKey s) = Some s"
proof -
  have k: "length k = 32" using assms by simp
  obtain a where a: "AddrForKey k = Some a" using AddrForKey_eq [OF k] by blast
  have c: "canonical a" "a ! 0 = 2" using AddrForKey_canonical [OF k a] by simp_all
  have l: "length a = 16" by (rule canonicalD [OF c(1)])
  have g: "AddrForKey (Address_GetKey a) = Some a" by (rule GetKey_address [OF k a])
  have v: "Address_IsValid a" "Subnet_IsValid (3 # take 7 (tl a))"
    using c(2) by (simp_all add: Address_IsValid_def Subnet_IsValid_def GetPrefix_def)
  show ?thesis
    using a g v l SubnetForKey_eq [OF a l c(2)] SubnetForKey_eq [OF g l c(2)] SubnetForKey_GetKey [OF c]
    by (intro exI [of _ a] exI [of _ "3 # take 7 (tl a)"]) simp
qed

definition sample_pk :: publicKey where
  "sample_pk = [189, 186, 207, 216, 34, 64, 222, 61, 205, 18, 57, 36, 203, 181, 82, 86,
     251, 141, 171, 8, 170, 152, 227, 5, 82, 138, 184, 79, 65, 158, 110, 251]"

text \<open>Another key with the same visible bits.\<close>

definition sample_twin :: publicKey where
  "sample_twin = take 17 sample_pk @ replicate 15 0"

lemma sample_twin_facts:
  "length sample_pk = 32" "length sample_twin = 32" "leading sample_pk = 0" "leading sample_twin = 0"
  "\<forall>j < visible sample_pk. nth_bit sample_pk j = nth_bit sample_twin j"
proof -
  have b: "nth_bit sample_pk 0" "nth_bit sample_twin 0" by (simp_all add: nth_bit_def sample_twin_def sample_pk_def)
  show len: "length sample_pk = 32" "length sample_twin = 32" by (simp_all add: sample_twin_def sample_pk_def)
  show l: "leading sample_pk = 0" "leading sample_twin = 0" using b len by (simp_all add: leading_0)
  have "nth_bit sample_pk j = nth_bit sample_twin j" if "j < visible sample_pk" for j
  proof -
    have "j div 8 < 17" using that by (simp add: visible_def l)
    then show ?thesis using len by (simp add: nth_bit_def nth_append sample_twin_def)
  qed
  then show "\<forall>j < visible sample_pk. nth_bit sample_pk j = nth_bit sample_twin j" by blast
qed

lemma sample_address:
  "AddrForKey sample_pk = Some [2, 0, 132, 138, 96, 79, 187, 126, 67, 132, 101, 219, 141, 182, 104, 149]"
  by code_simp

theorem partial_key_roundtrip_witness:
  "\<exists>s. SubnetForKey sample_pk = Some s \<and> SubnetForKey (Subnet_GetKey s) = Some s
    \<and> AddrForKey (Address_GetKey [2, 0, 132, 138, 96, 79, 187, 126, 67, 132, 101, 219, 141, 182, 104, 149])
        = Some [2, 0, 132, 138, 96, 79, 187, 126, 67, 132, 101, 219, 141, 182, 104, 149]"
proof -
  have "length sample_pk = publicKeySize" by (simp add: sample_pk_def)
  from partial_key_roundtrip [OF this] show ?thesis unfolding sample_address by auto
qed

text \<open>
  C9. Two keys (other than the all-zero one) share an address exactly when they agree on the
  \<open>visible\<close> leading bits: the run of zero bits, the first one bit, and as many whole bytes after it
  as fit in the address and in the key.
\<close>

theorem address_collision:
  assumes "length k = publicKeySize" "leading k < 256" "length k' = publicKeySize" "leading k' < 256"
  shows "AddrForKey k = AddrForKey k' \<longleftrightarrow> (\<forall>j < visible k. nth_bit k j = nth_bit k' j)"
proof
  have l: "length k = 32" "length k' = 32" using assms by simp_all
  {
    assume "\<forall>j < visible k. nth_bit k j = nth_bit k' j"
    from visible_same_address [OF l assms(2,4) this] show "AddrForKey k = AddrForKey k'" .
  }
  assume same: "AddrForKey k = AddrForKey k'"
  obtain a where a: "AddrForKey k = Some a" using AddrForKey_eq [OF l(1)] by blast
  have a': "AddrForKey k' = Some a" using same a by simp
  note bits = partial_key_bits [OF l(1) assms(2) a] partial_key_bits [OF l(2) assms(4) a']
  have "leading k = leading k'"
    using address_leading [OF l(1) assms(2) a] address_leading [OF l(2) assms(4) a'] by simp
  then have vv: "visible k = visible k'" by (simp only: visible_def)
  have "nth_bit k j = nth_bit k' j" if j: "j < visible k" for j
  proof -
    have "j < 256" using j visible_le [OF assms(2)] by (rule less_le_trans)
    note b = bits(1) [OF this] bits(2) [OF this]
    have "\<not> visible k \<le> j" "\<not> visible k' \<le> j" using j vv by (simp_all only: not_le)
    then show ?thesis using b by simp
  qed
  then show "\<forall>j < visible k. nth_bit k j = nth_bit k' j" by blast
qed

theorem address_collision_witness: "AddrForKey sample_pk = AddrForKey sample_twin"
  using address_collision [of sample_pk sample_twin] sample_twin_facts by simp

lemma sample_twin_address: "AddrForKey sample_twin = AddrForKey sample_pk"
  using visible_same_address [of sample_pk sample_twin] sample_twin_facts by simp

lemma sample_twin_other: "sample_twin \<noteq> sample_pk"
proof -
  have "sample_twin ! 17 \<noteq> sample_pk ! 17" by (simp add: sample_twin_def sample_pk_def nth_append)
  then show ?thesis by metis
qed

end
