(* ===== verification/Strings.thy ===== *)
theory Strings
  imports Prelude
begin

text \<open>
  The string functions of Go's standard library that the program uses, on ASCII strings: hexadecimal
  encoding (\<^verbatim>\<open>encoding/hex\<close>), decimal numbers (\<^verbatim>\<open>strconv.ParseUint\<close> and the verb \<^verbatim>\<open>%d\<close> of \<^verbatim>\<open>fmt\<close>), and
  the change of case.
\<close>

section \<open>Hexadecimal\<close>

definition hexdigit :: "nat \<Rightarrow> char" where
  "hexdigit n = ''0123456789abcdef'' ! n"

definition hex_val :: "char \<Rightarrow> nat option" where
  "hex_val c =
     (let n = of_char c :: nat
      in if 48 \<le> n \<and> n \<le> 57 then Some (n - 48)
         else if 97 \<le> n \<and> n \<le> 102 then Some (n - 87)
         else if 65 \<le> n \<and> n \<le> 70 then Some (n - 55)
         else None)"

definition hex_encode :: "bytes \<Rightarrow> string" where
  "hex_encode bs = concat (map (\<lambda>b. [hexdigit (unat b div 16), hexdigit (unat b mod 16)]) bs)"

fun hex_decode :: "string \<Rightarrow> bytes option" where
  "hex_decode [] = Some []"
| "hex_decode [c] = None"
| "hex_decode (c # d # cs) =
     (case (hex_val c, hex_val d, hex_decode cs) of
        (Some h, Some l, Some bs) \<Rightarrow> Some (of_nat (16 * h + l) # bs)
      | _ \<Rightarrow> None)"

lemma less_16_cases: "n < 16 \<Longrightarrow> n \<in> {0, 1, 2, 3, 4, 5, 6, 7, 8, 9, 10, 11, 12, 13, 14, 15 :: nat}"
  by (simp add: less_Suc_eq numeral_eq_Suc)

lemma hex_val_hexdigit [simp]: "n < 16 \<Longrightarrow> hex_val (hexdigit n) = Some n"
  using less_16_cases [of n] by (auto simp: hexdigit_def hex_val_def Let_def)

lemma hex_val_less: "hex_val c = Some n \<Longrightarrow> n < 16"
  by (auto simp: hex_val_def Let_def split: if_splits)

lemma hex_encode_simps [simp]:
  "hex_encode [] = []"
  "hex_encode (b # bs) = hexdigit (unat b div 16) # hexdigit (unat b mod 16) # hex_encode bs"
  by (simp_all add: hex_encode_def)

lemma hex_decode_encode [simp]: "hex_decode (hex_encode bs) = Some bs"
proof (induction bs)
  case (Cons b bs)
  have "unat b < 256" using unsigned_less [of b] by simp
  then have "unat b div 16 < 16" by simp
  moreover have "of_nat (16 * (unat b div 16) + unat b mod 16) = b" by simp
  ultimately show ?case using Cons by simp
qed simp

lemma length_hex_encode [simp]: "length (hex_encode bs) = 2 * length bs"
  by (induction bs) simp_all

lemma hex_decode_length: "hex_decode s = Some bs \<Longrightarrow> length s = 2 * length bs"
  by (induction s arbitrary: bs rule: hex_decode.induct) (auto split: option.splits)

lemma hex_encode_inj [simp]: "hex_encode a = hex_encode b \<longleftrightarrow> a = b"
  by (metis hex_decode_encode option.inject)

section \<open>Decimal\<close>

definition digit :: "nat \<Rightarrow> char" where
  "digit n = char_of (48 + n)"

fun show_nat :: "nat \<Rightarrow> string" where
  "show_nat n = (if n < 10 then [digit n] else show_nat (n div 10) @ [digit (n mod 10)])"

declare show_nat.simps [simp del]

definition show_int :: "int \<Rightarrow> string" where
  "show_int i = (if i < 0 then ''-'' @ show_nat (nat (- i)) else show_nat (nat i))"

definition digit_val :: "char \<Rightarrow> nat option" where
  "digit_val c = (let n = of_char c :: nat in if 48 \<le> n \<and> n \<le> 57 then Some (n - 48) else None)"

fun digits_val :: "nat \<Rightarrow> string \<Rightarrow> nat option" where
  "digits_val acc [] = Some acc"
| "digits_val acc (c # cs) =
     (case digit_val c of None \<Rightarrow> None | Some d \<Rightarrow> digits_val (10 * acc + d) cs)"

text \<open>\<^verbatim>\<open>strconv.ParseUint(s, 10, bits)\<close>: no sign, at least one digit, in range.\<close>

definition ParseUint :: "nat \<Rightarrow> string \<Rightarrow> nat option" where
  "ParseUint bits s =
     (if s = [] then None
      else case digits_val 0 s of
             None \<Rightarrow> None
           | Some n \<Rightarrow> if n < 2 ^ bits then Some n else None)"

lemma digit_val_digit [simp]: "n < 10 \<Longrightarrow> digit_val (digit n) = Some n"
  by (simp add: digit_val_def digit_def Let_def)

lemma digits_val_append:
  "digits_val acc (s @ t) = (case digits_val acc s of None \<Rightarrow> None | Some n \<Rightarrow> digits_val n t)"
  by (induction acc s rule: digits_val.induct) (auto split: option.splits)

lemma digits_val_show [simp]: "digits_val 0 (show_nat n) = Some n"
proof (induction n rule: show_nat.induct)
  case (1 n)
  show ?case
    by (cases "n < 10") (use 1 in \<open>simp_all add: show_nat.simps [of n] digits_val_append\<close>)
qed

lemma show_nat_not_Nil [simp]: "show_nat n \<noteq> []"
  by (subst show_nat.simps) simp

lemma ParseUint_show [simp]: "n < 2 ^ bits \<Longrightarrow> ParseUint bits (show_nat n) = Some n"
  by (simp add: ParseUint_def)

lemma ParseUint_less: "ParseUint bits s = Some n \<Longrightarrow> n < 2 ^ bits"
  by (auto simp: ParseUint_def split: if_splits option.splits)

section \<open>Case\<close>

definition lower_char :: "char \<Rightarrow> char" where
  "lower_char c = (let n = of_char c :: nat in if 65 \<le> n \<and> n \<le> 90 then char_of (n + 32) else c)"

definition upper_char :: "char \<Rightarrow> char" where
  "upper_char c = (let n = of_char c :: nat in if 97 \<le> n \<and> n \<le> 122 then char_of (n - 32) else c)"

definition ToLower :: "string \<Rightarrow> string" where "ToLower s = map lower_char s"
definition ToUpper :: "string \<Rightarrow> string" where "ToUpper s = map upper_char s"

section \<open>Bytes of a string\<close>

definition ascii :: "string \<Rightarrow> bytes" where
  "ascii s = map (\<lambda>c. of_nat (of_char c)) s"

lemma length_ascii [simp]: "length (ascii s) = length s"
  by (simp add: ascii_def)

lemma ascii_append [simp]: "ascii (s @ t) = ascii s @ ascii t"
  by (simp add: ascii_def)

lemma of_char_less: "(of_char c :: nat) < 256"
  using of_char_of [of "of_char c :: nat"] by (simp add: mod_eq_self_iff_div_eq_0 [symmetric])

lemma ascii_inj [simp]: "ascii s = ascii t \<longleftrightarrow> s = t"
proof
  have "c = d" if "(of_nat (of_char c) :: byte) = of_nat (of_char d)" for c d
  proof -
    have "unat (of_nat (of_char c) :: byte) = of_char c" for c :: char
      using of_char_less [of c] by (simp add: unat_of_nat)
    with that have "(of_char c :: nat) = of_char d" by metis
    then show ?thesis by simp
  qed
  then have "inj (\<lambda>c. of_nat (of_char c) :: byte)" by (auto intro: injI)
  then show "ascii s = ascii t \<Longrightarrow> s = t" by (simp add: ascii_def inj_map_eq_map)
qed simp

end
