(* ===== verification/Handshake.thy ===== *)
theory Handshake
  imports Address Strings "HOL-Library.FSet"
begin

text \<open>
  \<^verbatim>\<open>src/core/version.go\<close>, \<^verbatim>\<open>verifyTLSPeerIdentity\<close> of \<^verbatim>\<open>src/core/tls.go\<close> and \<^verbatim>\<open>links.handler\<close> of
  \<^verbatim>\<open>src/core/link.go\<close>: the metadata two nodes exchange when a link comes up, its signatures, the
  confirmation that binds both sides' metadata together, and the order in which a link handler
  applies the checks before it hands the connection to the router. Ed25519 is the parameter record
  of \<^verbatim>\<open>Keys\<close>; keyed BLAKE2b is a parameter \<open>bl\<close> with the law \<open>blake_laws\<close>. What the remote side sends
  is a byte string, read by \<open>ReadFull\<close>; a shorter one is an end of file or a missed deadline.
\<close>

section \<open>Errors and primitives\<close>

datatype handshake_error =
    ErrHandshakeInvalidPreamble | ErrHandshakeInvalidLength | ErrHandshakeInvalidPassword
  | ErrHandshakeInvalidSignature | ErrHandshakeInvalidConfirmation
  | ErrRead | ErrRand | ErrHash

type_synonym blake2b = "bytes \<Rightarrow> bytes \<Rightarrow> bytes option"

text \<open>\<^verbatim>\<open>blake2b.New512\<close> accepts keys of at most 64 bytes.\<close>

definition blake_laws :: "blake2b \<Rightarrow> bool" where
  "blake_laws bl \<longleftrightarrow> (\<forall>password m. bl password m = None \<longleftrightarrow> 64 < length password)"

definition ReadFull :: "nat \<Rightarrow> bytes \<Rightarrow> handshake_error + bytes \<times> bytes" where
  "ReadFull n r = (if length r < n then Inl ErrRead else Inr (take n r, drop n r))"

text \<open>\<^verbatim>\<open>ed25519.Sign\<close> and \<^verbatim>\<open>ed25519.Verify\<close> panic on keys of the wrong length.\<close>

definition ed25519_Sign :: "ed25519 \<Rightarrow> bytes \<Rightarrow> bytes \<Rightarrow> bytes go" where
  "ed25519_Sign ed sk m = (if length sk \<noteq> privateKeySize then Panic else Ok (ed_sign ed sk m))"

definition ed25519_Verify :: "ed25519 \<Rightarrow> bytes \<Rightarrow> bytes \<Rightarrow> bytes \<Rightarrow> bool go" where
  "ed25519_Verify ed pk m s = (if length pk \<noteq> publicKeySize then Panic else Ok (ed_verify ed pk m s))"

text \<open>\<^verbatim>\<open>bytes.Compare(a, b) > 0\<close>.\<close>

fun bytes_greater :: "bytes \<Rightarrow> bytes \<Rightarrow> bool" where
  "bytes_greater (a # as) (b # bs) = (if a = b then bytes_greater as bs else b < a)"
| "bytes_greater as bs = (bs = [] \<and> as \<noteq> [])"

section \<open>Metadata\<close>

record version_metadata =
  majorVer :: u16
  minorVer :: u16
  vm_publicKey :: bytes
  vm_priority :: byte
  vm_nonce :: bytes
  capabilities :: u32
  transcriptSignature :: bytes
  wire :: bytes

definition ProtocolVersionMajor :: u16 where "ProtocolVersionMajor = 0"
definition ProtocolVersionMinor :: u16 where "ProtocolVersionMinor = 5"

definition metaVersionMajor :: u16 where "metaVersionMajor = 0"
definition metaVersionMinor :: u16 where "metaVersionMinor = 1"
definition metaPublicKey :: u16 where "metaPublicKey = 2"
definition metaPriority :: u16 where "metaPriority = 3"
definition metaNonce :: u16 where "metaNonce = 4"
definition metaCapabilities :: u16 where "metaCapabilities = 5"
definition metaTranscriptSignature :: u16 where "metaTranscriptSignature = 6"

lemmas meta_ops = metaVersionMajor_def metaVersionMinor_def metaPublicKey_def metaPriority_def
  metaNonce_def metaCapabilities_def metaTranscriptSignature_def

definition capabilityHandshakeConfirmation :: u32 where "capabilityHandshakeConfirmation = 1"

definition confirmationSize :: nat where "confirmationSize = 4 + signatureSize"

definition handshakeDomain :: bytes where "handshakeDomain = ascii ''UQDA-HANDSHAKE-V1'' @ [0]"
definition confirmationDomain :: bytes where "confirmationDomain = ascii ''UQDA-CONFIRM-V1'' @ [0]"
definition meta_magic :: bytes where "meta_magic = ascii ''meta''"
definition conf_magic :: bytes where "conf_magic = ascii ''conf''"

definition empty_metadata :: version_metadata where
  "empty_metadata = \<lparr>majorVer = 0, minorVer = 0, vm_publicKey = [], vm_priority = 0,
     vm_nonce = replicate 32 0, capabilities = 0, transcriptSignature = [], wire = []\<rparr>"

definition version_getBaseMetadata :: version_metadata where
  "version_getBaseMetadata =
     empty_metadata\<lparr>majorVer := ProtocolVersionMajor, minorVer := ProtocolVersionMinor\<rparr>"

definition supportsHandshakeConfirmation :: "version_metadata \<Rightarrow> bool" where
  "supportsHandshakeConfirmation m = (capabilities m AND capabilityHandshakeConfirmation \<noteq> 0)"

definition metadata_check :: "version_metadata \<Rightarrow> bool" where
  "metadata_check m =
     (if majorVer m \<noteq> ProtocolVersionMajor then False
      else if minorVer m \<noteq> ProtocolVersionMinor then False
      else if length (vm_publicKey m) \<noteq> publicKeySize then False
      else if supportsHandshakeConfirmation m \<and> vm_nonce m = replicate 32 0 then False
      else True)"

section \<open>Hashes\<close>

definition hashed :: "bytes option \<Rightarrow> handshake_error + bytes" where
  "hashed h = (case h of None \<Rightarrow> Inl ErrHash | Some d \<Rightarrow> Inr d)"

definition legacyHandshakeHash :: "blake2b \<Rightarrow> bytes \<Rightarrow> bytes \<Rightarrow> handshake_error + bytes" where
  "legacyHandshakeHash bl password publicKey = hashed (bl password publicKey)"

definition handshakeHash :: "blake2b \<Rightarrow> bytes \<Rightarrow> bytes \<Rightarrow> handshake_error + bytes" where
  "handshakeHash bl password payload = hashed (bl password (handshakeDomain @ payload))"

definition confirmationHash ::
  "blake2b \<Rightarrow> bytes \<Rightarrow> version_metadata \<Rightarrow> version_metadata \<Rightarrow> handshake_error + bytes" where
  "confirmationHash bl password local_m remote =
     (if wire local_m = [] \<or> wire remote = [] then Inl ErrHandshakeInvalidConfirmation
      else
        (let (first, second) =
           (if bytes_greater (vm_publicKey local_m) (vm_publicKey remote) then (remote, local_m)
            else (local_m, remote))
         in hashed (bl password (confirmationDomain @ wire first @ wire second))))"

section \<open>Encoding\<close>

definition tlv :: "u16 \<Rightarrow> bytes \<Rightarrow> bytes" where
  "tlv op field = be16 op @ be16 (of_nat (length field)) @ field"

text \<open>
  \<^verbatim>\<open>encode\<close> with the random nonce as an argument, \<open>None\<close> when the random source fails; it returns the
  updated metadata and the message.
\<close>

definition metadata_fields :: "version_metadata \<Rightarrow> bytes" where
  "metadata_fields m =
     tlv metaVersionMajor (be16 (majorVer m)) @ tlv metaVersionMinor (be16 (minorVer m)) @
     be16 metaPublicKey @ be16 (of_nat publicKeySize) @ vm_publicKey m @
     tlv metaPriority [vm_priority m] @ tlv metaNonce (vm_nonce m) @
     tlv metaCapabilities (be32 (capabilities m))"

definition encode_metadata ::
  "ed25519 \<Rightarrow> blake2b \<Rightarrow> bytes option \<Rightarrow> version_metadata \<Rightarrow> bytes \<Rightarrow> bytes
     \<Rightarrow> (handshake_error + version_metadata \<times> bytes) go" where
  "encode_metadata ed bl rnd m privateKey password =
     (case rnd of
        None \<Rightarrow> Ok (Inl ErrRand)
      | Some nonce \<Rightarrow>
          (let m = m\<lparr>vm_nonce := nonce, capabilities := capabilityHandshakeConfirmation\<rparr>;
               fields = metadata_fields m
           in case handshakeHash bl password fields of
                Inl e \<Rightarrow> Ok (Inl e)
              | Inr hash \<Rightarrow>
                  go_bind (ed25519_Sign ed privateKey hash) (\<lambda>tsig.
                    let m = m\<lparr>transcriptSignature := tsig\<rparr>;
                        fields = fields @ tlv metaTranscriptSignature tsig
                    in case legacyHandshakeHash bl password (vm_publicKey m) of
                         Inl e \<Rightarrow> Ok (Inl e)
                       | Inr legacy \<Rightarrow>
                           go_bind (ed25519_Sign ed privateKey legacy) (\<lambda>sig.
                             let body = fields @ sig;
                                 bs = meta_magic @ be16 (of_nat (length body)) @ body
                             in Ok (Inr (m\<lparr>wire := bs\<rparr>, bs))))))"

section \<open>Decoding\<close>

text \<open>
  One field of the message. The state is the metadata and \<open>signedFields\<close>, the bytes before the
  transcript signature; Go's nil slice is the empty list, also when the bytes before are none.
\<close>

definition decode_field ::
  "bytes \<Rightarrow> nat \<Rightarrow> u16 \<Rightarrow> bytes \<Rightarrow> version_metadata \<times> bytes
     \<Rightarrow> handshake_error + version_metadata \<times> bytes" where
  "decode_field allFields offset op field st =
     (let (m, signedFields) = st; bad = Inl ErrHandshakeInvalidLength
      in if op = metaVersionMajor then
           (if length field \<noteq> 2 then bad else Inr (m\<lparr>majorVer := unbe 0 field\<rparr>, signedFields))
         else if op = metaVersionMinor then
           (if length field \<noteq> 2 then bad else Inr (m\<lparr>minorVer := unbe 0 field\<rparr>, signedFields))
         else if op = metaPublicKey then
           (if length field \<noteq> publicKeySize then bad else Inr (m\<lparr>vm_publicKey := field\<rparr>, signedFields))
         else if op = metaPriority then
           (if length field \<noteq> 1 then bad else Inr (m\<lparr>vm_priority := field ! 0\<rparr>, signedFields))
         else if op = metaNonce then
           (if length field \<noteq> 32 then bad else Inr (m\<lparr>vm_nonce := field\<rparr>, signedFields))
         else if op = metaCapabilities then
           (if length field \<noteq> 4 then bad else Inr (m\<lparr>capabilities := unbe 0 field\<rparr>, signedFields))
         else if op = metaTranscriptSignature then
           (if length field \<noteq> signatureSize \<or> signedFields \<noteq> [] then bad
            else Inr (m\<lparr>transcriptSignature := field\<rparr>, take offset allFields))
         else Inr (m, signedFields))"

function decode_fields ::
  "bytes \<Rightarrow> nat \<Rightarrow> bytes \<Rightarrow> version_metadata \<times> bytes \<Rightarrow> handshake_error + version_metadata \<times> bytes" where
  "decode_fields allFields offset bs st =
     (if length bs \<ge> 4 then
        if snd st \<noteq> [] then Inl ErrHandshakeInvalidLength
        else
          (let op = unbe 0 (take 2 bs);
               oplen = unat (unbe 0 (take 2 (drop 2 bs)) :: u16);
               bs = drop 4 bs
           in if length bs < oplen then Inl ErrHandshakeInvalidLength
              else case decode_field allFields offset op (take oplen bs) st of
                     Inl e \<Rightarrow> Inl e
                   | Inr st \<Rightarrow> decode_fields allFields (offset + (4 + oplen)) (drop oplen bs) st)
      else if length bs \<noteq> 0 then Inl ErrHandshakeInvalidLength
      else Inr st)"
  by pat_completeness auto
termination
  by (relation "measure (\<lambda>(_, _, bs, _). length bs)") auto

declare decode_fields.simps [simp del]

text \<open>What \<^verbatim>\<open>decode\<close> does after the fields are read: the two signatures.\<close>

definition decode_verify ::
  "ed25519 \<Rightarrow> blake2b \<Rightarrow> bytes \<Rightarrow> bytes \<Rightarrow> version_metadata \<times> bytes \<Rightarrow> (handshake_error + version_metadata) go" where
  "decode_verify ed bl password sig st =
     (let (m, signedFields) = st
      in if length (vm_publicKey m) \<noteq> publicKeySize then Ok (Inl ErrHandshakeInvalidLength)
         else case legacyHandshakeHash bl password (vm_publicKey m) of
                Inl _ \<Rightarrow> Ok (Inl ErrHandshakeInvalidPassword)
              | Inr legacy \<Rightarrow>
                  go_bind (ed25519_Verify ed (vm_publicKey m) legacy sig) (\<lambda>ok.
                    if \<not> ok then Ok (Inl ErrHandshakeInvalidSignature)
                    else if supportsHandshakeConfirmation m then
                      (if signedFields = [] \<or> length (transcriptSignature m) \<noteq> signatureSize
                       then Ok (Inl ErrHandshakeInvalidSignature)
                       else case handshakeHash bl password signedFields of
                              Inl _ \<Rightarrow> Ok (Inl ErrHandshakeInvalidPassword)
                            | Inr hash \<Rightarrow>
                                go_bind (ed25519_Verify ed (vm_publicKey m) hash (transcriptSignature m)) (\<lambda>ok.
                                  if \<not> ok then Ok (Inl ErrHandshakeInvalidSignature) else Ok (Inr m)))
                    else Ok (Inr m)))"

definition decode_metadata ::
  "ed25519 \<Rightarrow> blake2b \<Rightarrow> version_metadata \<Rightarrow> bytes \<Rightarrow> bytes
     \<Rightarrow> (handshake_error + version_metadata \<times> bytes) go" where
  "decode_metadata ed bl m r password =
     (case ReadFull 6 r of
        Inl e \<Rightarrow> Ok (Inl e)
      | Inr (bh, r) \<Rightarrow>
          if take 4 bh \<noteq> meta_magic then Ok (Inl ErrHandshakeInvalidPreamble)
          else
            (let hl = unat (unbe 0 (drop 4 bh) :: u16)
             in if hl < signatureSize then Ok (Inl ErrHandshakeInvalidLength)
                else case ReadFull hl r of
                       Inl e \<Rightarrow> Ok (Inl e)
                     | Inr (bs, r) \<Rightarrow>
                         (let n = length bs - signatureSize;
                              m = m\<lparr>wire := bh @ bs\<rparr>
                          in case decode_fields (take n bs) 0 (take n bs) (m, []) of
                               Inl e \<Rightarrow> Ok (Inl e)
                             | Inr st \<Rightarrow>
                                 go_bind (decode_verify ed bl password (drop n bs) st) (\<lambda>res.
                                   case res of
                                     Inl e \<Rightarrow> Ok (Inl e)
                                   | Inr m \<Rightarrow> Ok (Inr (m, r))))))"

section \<open>Confirmation\<close>

definition encodeConfirmation ::
  "ed25519 \<Rightarrow> blake2b \<Rightarrow> bytes \<Rightarrow> bytes \<Rightarrow> version_metadata \<Rightarrow> version_metadata
     \<Rightarrow> (handshake_error + bytes) go" where
  "encodeConfirmation ed bl privateKey password local_m remote =
     (case confirmationHash bl password local_m remote of
        Inl e \<Rightarrow> Ok (Inl e)
      | Inr hash \<Rightarrow>
          go_bind (ed25519_Sign ed privateKey hash) (\<lambda>sig. Ok (Inr (conf_magic @ sig))))"

definition decodeConfirmation ::
  "ed25519 \<Rightarrow> blake2b \<Rightarrow> bytes \<Rightarrow> bytes \<Rightarrow> bytes \<Rightarrow> version_metadata \<Rightarrow> version_metadata
     \<Rightarrow> (handshake_error + bytes) go" where
  "decodeConfirmation ed bl r publicKey password local_m remote =
     (if length publicKey \<noteq> publicKeySize then Ok (Inl ErrHandshakeInvalidConfirmation)
      else case ReadFull confirmationSize r of
             Inl e \<Rightarrow> Ok (Inl e)
           | Inr (bs, r) \<Rightarrow>
               if take 4 bs \<noteq> conf_magic then Ok (Inl ErrHandshakeInvalidConfirmation)
               else case confirmationHash bl password local_m remote of
                      Inl e \<Rightarrow> Ok (Inl e)
                    | Inr hash \<Rightarrow>
                        go_bind (ed25519_Verify ed publicKey hash (drop 4 bs)) (\<lambda>ok.
                          if \<not> ok then Ok (Inl ErrHandshakeInvalidConfirmation) else Ok (Inr r)))"

section \<open>Transport identity\<close>

text \<open>
  A connection as \<^verbatim>\<open>verifyTLSPeerIdentity\<close> tells them apart: a TLS connection with the keys of the
  certificates the peer presented, any other connection, and the counting wrapper \<^verbatim>\<open>linkConn\<close>.
\<close>

datatype cert_key = Ed25519Cert bytes | OtherCert

datatype net_conn = OtherConn | TLSConn "cert_key list" | LinkConn net_conn

datatype tls_error = ErrCertificateCount | ErrCertificateKind | ErrCertificateKey

definition tls_unwrap :: "net_conn \<Rightarrow> net_conn" where
  "tls_unwrap conn = (case conn of LinkConn c \<Rightarrow> c | _ \<Rightarrow> conn)"

definition verifyTLSPeerIdentity :: "net_conn \<Rightarrow> bytes \<Rightarrow> tls_error + unit" where
  "verifyTLSPeerIdentity conn expected =
     (case tls_unwrap conn of
        TLSConn certs \<Rightarrow>
          if length certs \<noteq> 1 then Inl ErrCertificateCount
          else (case certs ! 0 of
                  OtherCert \<Rightarrow> Inl ErrCertificateKind
                | Ed25519Cert peerKey \<Rightarrow> if peerKey \<noteq> expected then Inl ErrCertificateKey else Inr ())
      | _ \<Rightarrow> Inr ())"

section \<open>The link handler\<close>

datatype linkType = linkTypePersistent | linkTypeEphemeral | linkTypeIncoming

record linkOptions =
  pinnedEd25519Keys :: "bytes fset"
  lo_priority :: byte
  tlsSNI :: string
  lo_password :: bytes
  requireSecure :: bool
  maxBackoff :: int

datatype handler_error =
    ErrGenerate handshake_error | ErrSetDeadline | ErrWriteHandshake | ErrIncompleteHandshake
  | ErrHandshake handshake_error | ErrIncompatibleVersion | ErrLinkToSelf
  | ErrGenerateConfirmation handshake_error | ErrWriteConfirmation | ErrIncompleteConfirmation
  | ErrVerifyConfirmation handshake_error | ErrNotTranscriptBound | ErrTransportIdentity tls_error
  | ErrClearDeadline | ErrPinnedKeys | ErrNotAllowed

text \<open>
  What the environment does during one run: the random nonce, whether the deadlines can be set,
  how many bytes each write accepts (\<open>None\<close> is a write error), and all the bytes the remote side
  sends before it stops or the deadline passes.
\<close>

record handler_io =
  io_rnd :: "bytes option"
  io_deadline :: bool
  io_write1 :: "nat option"
  io_read :: bytes
  io_write2 :: "nat option"
  io_clear :: bool
  io_conn :: net_conn

text \<open>The key and priority given to \<^verbatim>\<open>HandleConn\<close>, and the bytes left for it to read.\<close>

record accepted =
  acc_key :: bytes
  acc_priority :: byte
  acc_rest :: bytes

definition checked_write :: "nat option \<Rightarrow> bytes \<Rightarrow> handler_error \<Rightarrow> handler_error \<Rightarrow> handler_error + unit" where
  "checked_write w bs failed short =
     (case w of None \<Rightarrow> Inl failed | Some n \<Rightarrow> if n \<noteq> length bs then Inl short else Inr ())"

text \<open>The first flight: both sides' metadata, the version check and the check for a link to oneself.\<close>

definition handler_hello ::
  "ed25519 \<Rightarrow> blake2b \<Rightarrow> crypto \<Rightarrow> linkOptions \<Rightarrow> handler_io
     \<Rightarrow> (handler_error + version_metadata \<times> version_metadata \<times> bytes) go" where
  "handler_hello ed bl core options io =
     (let localMeta = version_getBaseMetadata\<lparr>vm_publicKey := c_publicKey core, vm_priority := lo_priority options\<rparr>
      in go_bind (encode_metadata ed bl (io_rnd io) localMeta (c_privateKey core) (lo_password options)) (\<lambda>enc.
           case enc of
             Inl e \<Rightarrow> Ok (Inl (ErrGenerate e))
           | Inr (localMeta, metaBytes) \<Rightarrow>
               if \<not> io_deadline io then Ok (Inl ErrSetDeadline)
               else case checked_write (io_write1 io) metaBytes ErrWriteHandshake ErrIncompleteHandshake of
                      Inl e \<Rightarrow> Ok (Inl e)
                    | Inr _ \<Rightarrow>
                        go_bind (decode_metadata ed bl empty_metadata (io_read io) (lo_password options)) (\<lambda>dec.
                          case dec of
                            Inl e \<Rightarrow> Ok (Inl (ErrHandshake e))
                          | Inr (remoteMeta, r) \<Rightarrow>
                              if \<not> metadata_check remoteMeta then Ok (Inl ErrIncompatibleVersion)
                              else if vm_publicKey remoteMeta = c_publicKey core then Ok (Inl ErrLinkToSelf)
                              else Ok (Inr (localMeta, remoteMeta, r)))))"

text \<open>The second flight, when the remote side offers it.\<close>

definition handler_confirm ::
  "ed25519 \<Rightarrow> blake2b \<Rightarrow> crypto \<Rightarrow> linkOptions \<Rightarrow> handler_io \<Rightarrow> version_metadata \<Rightarrow> version_metadata \<Rightarrow> bytes
     \<Rightarrow> (handler_error + bytes) go" where
  "handler_confirm ed bl core options io localMeta remoteMeta r =
     (if supportsHandshakeConfirmation remoteMeta then
        go_bind (encodeConfirmation ed bl (c_privateKey core) (lo_password options) localMeta remoteMeta) (\<lambda>enc.
          case enc of
            Inl e \<Rightarrow> Ok (Inl (ErrGenerateConfirmation e))
          | Inr confirmation \<Rightarrow>
              (case checked_write (io_write2 io) confirmation ErrWriteConfirmation ErrIncompleteConfirmation of
                 Inl e \<Rightarrow> Ok (Inl e)
               | Inr _ \<Rightarrow>
                   go_bind (decodeConfirmation ed bl r (vm_publicKey remoteMeta) (lo_password options) localMeta remoteMeta) (\<lambda>dec.
                     case dec of
                       Inl e \<Rightarrow> Ok (Inl (ErrVerifyConfirmation e))
                     | Inr r \<Rightarrow> Ok (Inr r))))
      else if requireSecure options then Ok (Inl ErrNotTranscriptBound)
      else Ok (Inr r))"

text \<open>The checks of the authenticated key: transport, pins and the list of allowed keys.\<close>

definition handler_admit ::
  "linkType \<Rightarrow> linkOptions \<Rightarrow> bytes fset \<Rightarrow> bool \<Rightarrow> handler_io \<Rightarrow> bytes \<Rightarrow> handler_error + unit" where
  "handler_admit lt options allowed local_link io key =
     (case verifyTLSPeerIdentity (io_conn io) key of
        Inl e \<Rightarrow> Inl (ErrTransportIdentity e)
      | Inr _ \<Rightarrow>
          if \<not> io_clear io then Inl ErrClearDeadline
          else if pinnedEd25519Keys options \<noteq> {||} \<and> array_of 32 key |\<notin>| pinnedEd25519Keys options
            then Inl ErrPinnedKeys
          else if \<not> local_link \<and> lt = linkTypeIncoming \<and> allowed \<noteq> {||} \<and> \<not> (\<exists>k |\<in>| allowed. k = key)
            then Inl ErrNotAllowed
          else Inr ())"

definition handler ::
  "ed25519 \<Rightarrow> blake2b \<Rightarrow> crypto \<Rightarrow> bytes fset \<Rightarrow> linkType \<Rightarrow> linkOptions \<Rightarrow> handler_io \<Rightarrow> bool
     \<Rightarrow> (handler_error + accepted) go" where
  "handler ed bl core allowed lt options io local_link =
     go_bind (handler_hello ed bl core options io) (\<lambda>hello.
       case hello of
         Inl e \<Rightarrow> Ok (Inl e)
       | Inr (localMeta, remoteMeta, r) \<Rightarrow>
           go_bind (handler_confirm ed bl core options io localMeta remoteMeta r) (\<lambda>conf.
             case conf of
               Inl e \<Rightarrow> Ok (Inl e)
             | Inr r \<Rightarrow>
                 (case handler_admit lt options allowed local_link io (vm_publicKey remoteMeta) of
                    Inl e \<Rightarrow> Ok (Inl e)
                  | Inr _ \<Rightarrow>
                      (case AddrForKey (vm_publicKey remoteMeta) of
                         None \<Rightarrow> Panic
                       | Some _ \<Rightarrow>
                           Ok (Inr \<lparr>acc_key = vm_publicKey remoteMeta,
                             acc_priority = (if vm_priority remoteMeta > lo_priority options
                               then vm_priority remoteMeta else lo_priority options),
                             acc_rest = r\<rparr>)))))"

text \<open>
  What the handler gives to \<^verbatim>\<open>conn.Write\<close>, in order. (It also closes the connection when \<^verbatim>\<open>decode\<close>
  fails, which its callers do again when it returns.)
\<close>

definition handler_sent ::
  "ed25519 \<Rightarrow> blake2b \<Rightarrow> crypto \<Rightarrow> linkOptions \<Rightarrow> handler_io \<Rightarrow> bytes list" where
  "handler_sent ed bl core options io =
     (case encode_metadata ed bl (io_rnd io)
        (version_getBaseMetadata\<lparr>vm_publicKey := c_publicKey core, vm_priority := lo_priority options\<rparr>)
        (c_privateKey core) (lo_password options) of
        Ok (Inr (localMeta, metaBytes)) \<Rightarrow>
          if \<not> io_deadline io then []
          else metaBytes #
            (case handler_hello ed bl core options io of
               Ok (Inr (localMeta, remoteMeta, r)) \<Rightarrow>
                 if supportsHandshakeConfirmation remoteMeta then
                   (case encodeConfirmation ed bl (c_privateKey core) (lo_password options) localMeta remoteMeta of
                      Ok (Inr confirmation) \<Rightarrow> [confirmation]
                    | _ \<Rightarrow> [])
                 else []
             | _ \<Rightarrow> [])
      | _ \<Rightarrow> [])"

section \<open>Fields of a message\<close>

lemma be16_unbe:
  assumes "length bs = 2"
  shows "be16 (unbe 0 bs) = bs"
proof -
  obtain a b where bs: "bs = [a, b]" using assms by (auto simp: length_Suc_conv numeral_2_eq_2)
  have "ucast (drop_bit 8 (push_bit 8 (ucast a) OR ucast b :: u16)) = a"
    by (rule bit_word_eqI) (auto simp: bit_simps dest: bit_imp_le_length)
  moreover have "ucast (push_bit 8 (ucast a) OR ucast b :: u16) = b"
    by (rule bit_word_eqI) (auto simp: bit_simps)
  ultimately show ?thesis by (simp add: bs be16_def)
qed

lemma length_tlv [simp]: "length (tlv op field) = 4 + length field"
  by (simp add: tlv_def)

lemma decode_fields_Nil [simp]: "decode_fields allFields offset [] st = Inr st"
  by (simp add: decode_fields.simps)

lemma decode_fields_tlv:
  assumes "length field < 2 ^ 16" "snd st = []"
  shows "decode_fields allFields offset (tlv op field @ rest) st =
    (case decode_field allFields offset op field st of
       Inl e \<Rightarrow> Inl e
     | Inr st \<Rightarrow> decode_fields allFields (offset + (4 + length field)) rest st)"
proof -
  let ?bs = "tlv op field @ rest"
  have t: "take 2 ?bs = be16 op" "take 2 (drop 2 ?bs) = be16 (of_nat (length field))"
    "drop 4 ?bs = field @ rest"
    by (simp_all add: tlv_def)
  have d: "drop (length field) (field @ rest) = rest" by simp
  have u: "unat (of_nat (length field) :: u16) = length field" using assms(1) by (simp add: unat_of_nat)
  show ?thesis
    unfolding decode_fields.simps [of _ _ ?bs] t Let_def unbe_be16 u assms(2) d by simp
qed

lemma decode_fields_elim:
  assumes "decode_fields allFields offset bs st = Inr st'"
  obtains (finish) "bs = []" "st' = st"
  | (field) op field rest st1 where "bs = tlv op field @ rest" "snd st = []" "length field < 2 ^ 16"
      "decode_field allFields offset op field st = Inr st1"
      "decode_fields allFields (offset + (4 + length field)) rest st1 = Inr st'"
proof (cases "length bs \<ge> 4")
  case False
  then show ?thesis using assms finish by (subst (asm) decode_fields.simps) (auto split: if_splits)
next
  case True
  let ?n = "unat (unbe 0 (take 2 (drop 2 bs)) :: u16)" and ?op = "unbe 0 (take 2 bs)"
  let ?field = "take ?n (drop 4 bs)"
  from assms True have s: "snd st = []" "\<not> length (drop 4 bs) < ?n"
    by (subst (asm) decode_fields.simps, simp add: Let_def split: if_splits)+
  from assms True s obtain st1 where d: "decode_field allFields offset ?op ?field st = Inr st1"
      "decode_fields allFields (offset + (4 + ?n)) (drop ?n (drop 4 bs)) st1 = Inr st'"
    by (subst (asm) decode_fields.simps) (auto simp add: Let_def split: sum.splits)
  have l: "length ?field = ?n" using s(2) by simp
  have "be16 ?op = take 2 bs" "be16 (of_nat ?n) = take 2 (drop 2 bs)"
    using True by (simp_all add: be16_unbe)
  then have "tlv ?op ?field = take 2 bs @ take 2 (drop 2 bs) @ ?field" by (simp only: tlv_def l)
  then have "tlv ?op ?field @ drop ?n (drop 4 bs) = take 2 bs @ take 2 (drop 2 bs) @ drop 4 bs"
    by (simp only: append_assoc append_take_drop_id)
  also have "\<dots> = bs" by (metis append_take_drop_id drop_drop numeral_Bit0)
  finally have "bs = tlv ?op ?field @ drop ?n (drop 4 bs)" by simp
  moreover have "length ?field < 2 ^ 16" using unsigned_less [of "unbe 0 (take 2 (drop 2 bs)) :: u16"] l by simp
  ultimately show ?thesis using field [OF _ s(1) _ d(1)] d(2) l by simp
qed

text \<open>Only the transcript signature fills \<open>signedFields\<close>.\<close>

lemma decode_field_signed:
  assumes "decode_field allFields offset op field (m, []) = Inr (m1, s1)"
  shows "s1 = [] \<and> (op = metaTranscriptSignature \<longrightarrow> take offset allFields = [])
    \<or> s1 \<noteq> [] \<and> op = metaTranscriptSignature \<and> length field = signatureSize \<and> s1 = take offset allFields
        \<and> m1 = m\<lparr>transcriptSignature := field\<rparr>"
  using assms by (auto simp: decode_field_def Let_def meta_ops split: if_splits)

lemma decode_field_other:
  "op \<noteq> metaTranscriptSignature \<or> offset = 0 \<Longrightarrow>
   decode_field allFields offset op field st = decode_field allFields' offset op field st"
  by (auto simp: decode_field_def Let_def split: prod.splits)

text \<open>
  When the fields are accepted with a transcript signature, it is the last field, and the
  fields before it are the signed ones, which alone determine the rest of the metadata.
\<close>

lemma decode_fields_signed:
  assumes "decode_fields allFields offset bs (m, []) = Inr (m', sf)" "sf \<noteq> []"
    and "allFields = take offset allFields @ bs" "offset + length bs = length allFields"
  shows "\<exists>pre tsig m1. bs = pre @ tlv metaTranscriptSignature tsig \<and> length tsig = signatureSize
    \<and> sf = take offset allFields @ pre \<and> m' = m1\<lparr>transcriptSignature := tsig\<rparr>
    \<and> (\<forall>fs. decode_fields fs offset pre (m, []) = Inr (m1, []))"
  using assms
proof (induction "length bs" arbitrary: bs offset m rule: less_induct)
  case less
  from less.prems(1) show ?case
  proof (cases rule: decode_fields_elim)
    case finish
    then show ?thesis using less.prems(2) by simp
  next
    case (field op f rest st1)
    obtain m1 s1 where st1: "st1 = (m1, s1)" by (cases st1)
    have all: "allFields = take offset allFields @ tlv op f @ rest" using less.prems(3) field(1) by simp
    let ?o = "offset + (4 + length f)"
    have off: "offset \<le> length allFields" using less.prems(4) by simp
    have take: "take ?o allFields = take offset allFields @ tlv op f"
      using off by (subst all) simp
    from decode_field_signed [OF field(4) [unfolded st1]] show ?thesis
    proof (elim disjE conjE)
      assume s1: "s1 = []" and op: "op = metaTranscriptSignature \<longrightarrow> take offset allFields = []"
      have "\<exists>pre tsig m2. rest = pre @ tlv metaTranscriptSignature tsig \<and> length tsig = signatureSize
        \<and> sf = take ?o allFields @ pre \<and> m' = m2\<lparr>transcriptSignature := tsig\<rparr>
        \<and> (\<forall>fs. decode_fields fs ?o pre (m1, []) = Inr (m2, []))"
        by (rule less.hyps) (use field less.prems s1 st1 all take in auto)
      then obtain pre tsig m2 where ih: "rest = pre @ tlv metaTranscriptSignature tsig"
        "length tsig = signatureSize" "sf = take ?o allFields @ pre"
        "m' = m2\<lparr>transcriptSignature := tsig\<rparr>" "\<forall>fs. decode_fields fs ?o pre (m1, []) = Inr (m2, [])"
        by blast
      have "op \<noteq> metaTranscriptSignature \<or> offset = 0" using op less.prems(4) field(1) by auto
      then have d: "decode_field fs offset op f (m, []) = Inr (m1, [])" for fs
        using field(4) st1 s1 decode_field_other by metis
      then have "decode_fields fs offset (tlv op f @ pre) (m, []) = Inr (m2, [])" for fs
        using ih(5) field(3) by (simp add: decode_fields_tlv)
      then show ?thesis using ih field(1) take
        by (intro exI [of _ "tlv op f @ pre"] exI [of _ tsig] exI [of _ m2]) simp
    next
      assume s1: "s1 \<noteq> []" and op: "op = metaTranscriptSignature" "length f = signatureSize"
        "s1 = take offset allFields" "m1 = m\<lparr>transcriptSignature := f\<rparr>"
      have "rest = []" "(m', sf) = (m1, s1)"
        using field(5) s1 unfolding st1 by (auto elim: decode_fields_elim)
      then show ?thesis using field(1) op by (intro exI [of _ "[]"] exI [of _ f] exI [of _ m]) simp
    qed
  qed
qed

section \<open>Decoding what was encoded\<close>

lemmas decode_steps = decode_fields_tlv decode_fields_tlv [where rest = "[]", simplified]
  decode_field_def meta_ops

lemma decode_metadata_fields_at:
  assumes "length (vm_publicKey m) = 32" "length (vm_nonce m) = 32" "length tsig = 64"
  shows "decode_fields allFields 0 (metadata_fields m @ tlv metaTranscriptSignature tsig) (m0, [])
    = Inr (m\<lparr>transcriptSignature := tsig, wire := wire m0\<rparr>, take 97 allFields)"
proof -
  have "metadata_fields m @ tlv metaTranscriptSignature tsig =
     tlv metaVersionMajor (be16 (majorVer m)) @ tlv metaVersionMinor (be16 (minorVer m)) @
     tlv metaPublicKey (vm_publicKey m) @ tlv metaPriority [vm_priority m] @ tlv metaNonce (vm_nonce m) @
     tlv metaCapabilities (be32 (capabilities m)) @ tlv metaTranscriptSignature tsig"
    using assms by (simp add: metadata_fields_def tlv_def)
  then show ?thesis using assms by (cases m) (simp add: decode_steps Let_def)
qed

lemma length_metadata_fields:
  "length (vm_publicKey m) = 32 \<Longrightarrow> length (vm_nonce m) = 32 \<Longrightarrow> length (metadata_fields m) = 97"
  by (simp add: metadata_fields_def)

lemma decode_metadata_fields:
  assumes "length (vm_publicKey m) = 32" "length (vm_nonce m) = 32" "length tsig = 64"
  shows "decode_fields (metadata_fields m @ tlv metaTranscriptSignature tsig) 0
      (metadata_fields m @ tlv metaTranscriptSignature tsig) (m0, [])
    = Inr (m\<lparr>transcriptSignature := tsig, wire := wire m0\<rparr>, metadata_fields m)"
  unfolding decode_metadata_fields_at [OF assms] using length_metadata_fields [OF assms(1,2)] by simp

text \<open>What \<^verbatim>\<open>encode\<close> produces when nothing fails.\<close>

lemma blake_Some: "blake_laws bl \<Longrightarrow> length password \<le> 64 \<Longrightarrow> \<exists>h. bl password m = Some h"
  by (auto simp: blake_laws_def) (metis not_le option.exhaust)

lemma encode_metadata_ok:
  assumes "blake_laws bl" "length password \<le> 64" "length sk = 64"
  shows "\<exists>h legacy m1 body bs. bl password (handshakeDomain @ metadata_fields m1) = Some h
    \<and> bl password (vm_publicKey m) = Some legacy
    \<and> m1 = m\<lparr>vm_nonce := nonce, capabilities := capabilityHandshakeConfirmation\<rparr>
    \<and> body = (metadata_fields m1 @ tlv metaTranscriptSignature (ed_sign ed sk h)) @ ed_sign ed sk legacy
    \<and> bs = meta_magic @ be16 (of_nat (length body)) @ body
    \<and> encode_metadata ed bl (Some nonce) m sk password
        = Ok (Inr (m1\<lparr>transcriptSignature := ed_sign ed sk h, wire := bs\<rparr>, bs))"
proof -
  let ?m1 = "m\<lparr>vm_nonce := nonce, capabilities := capabilityHandshakeConfirmation\<rparr>"
  obtain h legacy where "bl password (handshakeDomain @ metadata_fields ?m1) = Some h"
    "bl password (vm_publicKey m) = Some legacy" using blake_Some assms(1,2) by blast
  then show ?thesis using assms(3)
    by (simp add: encode_metadata_def Let_def handshakeHash_def legacyHandshakeHash_def hashed_def ed25519_Sign_def)
qed

lemma length_meta_magic [simp]: "length meta_magic = 4" "length conf_magic = 4"
  by (simp_all add: meta_magic_def conf_magic_def ascii_def)

lemma supports_own [simp]: "capabilities m = capabilityHandshakeConfirmation \<Longrightarrow> supportsHandshakeConfirmation m"
  by (simp add: supportsHandshakeConfirmation_def capabilityHandshakeConfirmation_def)

lemma decode_encode:
  assumes ed: "ed25519_laws ed" and bl: "blake_laws bl" "length password \<le> 64"
    and key: "length sk = 64" "vm_publicKey m = ed_public ed sk" and nonce: "length nonce = 32"
  shows "\<exists>m' bs. encode_metadata ed bl (Some nonce) m sk password = Ok (Inr (m', bs)) \<and> bs \<noteq> []
    \<and> m' = m\<lparr>vm_nonce := nonce, capabilities := capabilityHandshakeConfirmation,
          transcriptSignature := transcriptSignature m', wire := bs\<rparr>
    \<and> (\<forall>m0 rest. decode_metadata ed bl m0 (bs @ rest) password = Ok (Inr (m', rest)))"
proof -
  obtain h legacy m1 body bs where e: "bl password (handshakeDomain @ metadata_fields m1) = Some h"
    "bl password (vm_publicKey m) = Some legacy"
    "m1 = m\<lparr>vm_nonce := nonce, capabilities := capabilityHandshakeConfirmation\<rparr>"
    "body = (metadata_fields m1 @ tlv metaTranscriptSignature (ed_sign ed sk h)) @ ed_sign ed sk legacy"
    "bs = meta_magic @ be16 (of_nat (length body)) @ body"
    "encode_metadata ed bl (Some nonce) m sk password
        = Ok (Inr (m1\<lparr>transcriptSignature := ed_sign ed sk h, wire := bs\<rparr>, bs))"
    using encode_metadata_ok [OF bl key(1)] by metis
  define tsig where "tsig = ed_sign ed sk h"
  have l: "length tsig = 64" "length (ed_sign ed sk legacy) = 64" "length (vm_publicKey m1) = 32" "length (vm_nonce m1) = 32"
    using ed key nonce by (simp_all add: tsig_def ed25519_laws_def e(3))
  let ?fs = "metadata_fields m1 @ tlv metaTranscriptSignature tsig"
  have lf: "length ?fs = 165" using length_metadata_fields [OF l(3,4)] l(1) by simp
  have body: "body = ?fs @ ed_sign ed sk legacy" "length body = 229" using e(4) lf l(2) by (simp_all add: tsig_def)
  have "decode_metadata ed bl m0 (bs @ rest) password
      = Ok (Inr (m1\<lparr>transcriptSignature := tsig, wire := bs\<rparr>, rest))" for m0 rest
  proof -
    have r: "ReadFull 6 (bs @ rest) = Inr (meta_magic @ be16 229, body @ rest)"
      "ReadFull 229 (body @ rest) = Inr (body, rest)"
      by (simp_all add: ReadFull_def e(5) body(2))
    have t: "take 165 body = ?fs" "drop 165 body = ed_sign ed sk legacy" using lf by (simp_all add: body(1))
    have w: "meta_magic @ be16 229 @ body = bs" by (simp add: e(5) body(2))
    have v: "ed_verify ed (vm_publicKey m1) x (ed_sign ed sk x)" for x
      using ed key by (simp add: ed25519_laws_def e(3))
    let ?m = "m1\<lparr>transcriptSignature := tsig, wire := bs\<rparr>"
    have d: "decode_fields ?fs 0 ?fs (m0\<lparr>wire := bs\<rparr>, []) = Inr (?m, metadata_fields m1)"
      using decode_metadata_fields [OF l(3,4,1), of "m0\<lparr>wire := bs\<rparr>"] by simp
    have "metadata_fields m1 \<noteq> []" using length_metadata_fields [OF l(3,4)] by auto
    then have "decode_verify ed bl password (ed_sign ed sk legacy) (?m, metadata_fields m1) = Ok (Inr ?m)"
      using l e v by (simp add: decode_verify_def legacyHandshakeHash_def handshakeHash_def hashed_def
          ed25519_Verify_def tsig_def)
    then show ?thesis using d
      by (simp add: decode_metadata_def r body(2) t w Let_def)
  qed
  moreover have "bs \<noteq> []" by (simp add: e(5) meta_magic_def ascii_def)
  ultimately show ?thesis using e(3,6) unfolding tsig_def by (intro exI conjI) auto
qed

section \<open>What an accepted message says\<close>

lemma ReadFull_eq: "ReadFull n r = Inr (bs, rest) \<longleftrightarrow> r = bs @ rest \<and> length bs = n"
  by (auto simp: ReadFull_def)

lemma decode_field_wire:
  "decode_field allFields offset op field (m, s) = Inr (m1, s1) \<Longrightarrow> wire m1 = wire m"
  by (auto simp: decode_field_def Let_def split: if_splits)

lemma decode_fields_wire:
  "decode_fields allFields offset bs (m, s) = Inr (m', s') \<Longrightarrow> wire m' = wire m"
proof (induction "length bs" arbitrary: bs offset m s rule: less_induct)
  case less
  from less.prems show ?case
  proof (cases rule: decode_fields_elim)
    case (field op f rest st1)
    obtain m1 s1 where "st1 = (m1, s1)" by (cases st1)
    then show ?thesis using less.hyps [of rest] field decode_field_wire [of _ _ op f] by auto
  qed simp
qed

text \<open>The signatures an accepted message carries.\<close>

definition verified :: "ed25519 \<Rightarrow> blake2b \<Rightarrow> bytes \<Rightarrow> bytes \<Rightarrow> bytes \<Rightarrow> bytes \<Rightarrow> bool" where
  "verified ed bl password key m sig \<longleftrightarrow> (\<exists>h. bl password m = Some h \<and> ed_verify ed key h sig)"

lemma decode_verify_sound:
  assumes "decode_verify ed bl password sig (m, sf) = Ok (Inr m')"
  shows "m' = m \<and> length (vm_publicKey m) = 32 \<and> verified ed bl password (vm_publicKey m) (vm_publicKey m) sig
    \<and> (supportsHandshakeConfirmation m \<longrightarrow> sf \<noteq> [] \<and>
         verified ed bl password (vm_publicKey m) (handshakeDomain @ sf) (transcriptSignature m))"
  using assms by (auto simp: decode_verify_def Let_def verified_def ok_simps legacyHandshakeHash_def handshakeHash_def hashed_def
      ed25519_Verify_def split: if_splits option.splits)

lemma decode_metadata_sound:
  assumes "decode_metadata ed bl m0 r password = Ok (Inr (m, rest))"
  shows "\<exists>fields sig sf. r = wire m @ rest
    \<and> wire m = meta_magic @ be16 (of_nat (length fields + 64)) @ fields @ sig \<and> length sig = 64
    \<and> decode_fields fields 0 fields (m0\<lparr>wire := wire m\<rparr>, []) = Inr (m, sf)
    \<and> decode_verify ed bl password sig (m, sf) = Ok (Inr m)"
proof -
  obtain bh r1 bs sf m1 where h: "ReadFull 6 r = Inr (bh, r1)" "take 4 bh = meta_magic"
      "ReadFull (unat (unbe 0 (drop 4 bh) :: u16)) r1 = Inr (bs, rest)" "64 \<le> unat (unbe 0 (drop 4 bh) :: u16)"
      "decode_fields (take (length bs - 64) bs) 0 (take (length bs - 64) bs) (m0\<lparr>wire := bh @ bs\<rparr>, []) = Inr (m1, sf)"
      "decode_verify ed bl password (drop (length bs - 64) bs) (m1, sf) = Ok (Inr m)"
    using assms by (auto simp: decode_metadata_def Let_def ok_simps split_beta)
  have m1: "m = m1" using decode_verify_sound [OF h(6)] by simp
  have w: "wire m = bh @ bs" using decode_fields_wire [OF h(5)] m1 by simp
  let ?f = "take (length bs - 64) bs" and ?s = "drop (length bs - 64) bs"
  have r: "r = bh @ bs @ rest" "length bh = 6" "length bs = unat (unbe 0 (drop 4 bh) :: u16)"
    using h(1,3) by (simp_all add: ReadFull_eq)
  have "be16 (unbe 0 (drop 4 bh)) = drop 4 bh" using r(2) by (simp add: be16_unbe)
  then have "be16 (of_nat (length bs)) = drop 4 bh" by (simp add: r(3))
  moreover have "length ?f + 64 = length bs" using h(4) r(3) by simp
  ultimately have "bh @ bs = meta_magic @ be16 (of_nat (length ?f + 64)) @ ?f @ ?s"
    using h(2) append_take_drop_id [of 4 bh] by (metis append.assoc append_take_drop_id)
  moreover have "length ?s = 64" using h(4) r(3) by simp
  moreover have "r = wire m @ rest" using r(1) w by simp
  ultimately show ?thesis using h(5,6) unfolding m1 [symmetric] w by blast
qed

lemma decode_metadata_no_panic: "decode_metadata ed bl m0 r password \<noteq> Panic"
  by (auto simp: decode_metadata_def decode_verify_def Let_def ed25519_Verify_def go_bind_def
      split: sum.splits option.splits if_splits prod.splits go.splits)

section \<open>Confirmations\<close>

lemma bytes_greater_flip: "a \<noteq> b \<Longrightarrow> bytes_greater b a \<longleftrightarrow> \<not> bytes_greater a b"
proof (induction a arbitrary: b)
  case Nil
  then show ?case by (cases b) auto
next
  case (Cons x as)
  then show ?case by (cases b) auto
qed

text \<open>The transcript of a handshake: both messages, the one with the smaller key first.\<close>

definition transcript :: "version_metadata \<Rightarrow> version_metadata \<Rightarrow> bytes" where
  "transcript a b = confirmationDomain @
     (if bytes_greater (vm_publicKey a) (vm_publicKey b) then wire b @ wire a else wire a @ wire b)"

lemma transcript_sym: "vm_publicKey a \<noteq> vm_publicKey b \<Longrightarrow> transcript a b = transcript b a"
  by (simp add: transcript_def bytes_greater_flip [of "vm_publicKey a" "vm_publicKey b"])

lemma confirmationHash_eq:
  "wire a \<noteq> [] \<Longrightarrow> wire b \<noteq> [] \<Longrightarrow> confirmationHash bl password a b = hashed (bl password (transcript a b))"
  by (simp add: confirmationHash_def transcript_def Let_def)

lemma encodeConfirmation_ok:
  assumes "blake_laws bl" "length password \<le> 64" "length sk = 64" "wire a \<noteq> []" "wire b \<noteq> []"
  shows "\<exists>h. bl password (transcript a b) = Some h
    \<and> encodeConfirmation ed bl sk password a b = Ok (Inr (conf_magic @ ed_sign ed sk h))"
proof -
  obtain h where "bl password (transcript a b) = Some h" using blake_Some assms(1,2) by blast
  then show ?thesis using assms
    by (simp add: encodeConfirmation_def confirmationHash_eq hashed_def ed25519_Sign_def)
qed

lemma decodeConfirmation_ok:
  assumes "ed25519_laws ed" "bl password (transcript a b) = Some h" "wire a \<noteq> []" "wire b \<noteq> []"
    and "key = ed_public ed sk"
  shows "decodeConfirmation ed bl (conf_magic @ ed_sign ed sk h @ rest) key password a b = Ok (Inr rest)"
proof -
  have l: "length key = 32" "length (ed_sign ed sk h) = 64" "ed_verify ed key h (ed_sign ed sk h)"
    using assms(1,5) by (simp_all add: ed25519_laws_def)
  then have "ReadFull confirmationSize (conf_magic @ ed_sign ed sk h @ rest)
      = Inr (conf_magic @ ed_sign ed sk h, rest)" by (simp add: ReadFull_eq confirmationSize_def)
  then show ?thesis using l assms
    by (simp add: decodeConfirmation_def confirmationHash_eq hashed_def ed25519_Verify_def)
qed

lemma decodeConfirmation_sound:
  assumes "decodeConfirmation ed bl r key password a b = Ok (Inr rest)"
  shows "\<exists>sig. r = conf_magic @ sig @ rest \<and> length sig = 64
    \<and> verified ed bl password key (transcript a b) sig"
proof -
  obtain bs h where h: "ReadFull confirmationSize r = Inr (bs, rest)" "take 4 bs = conf_magic"
      "confirmationHash bl password a b = Inr h" "ed25519_Verify ed key h (drop 4 bs) = Ok True"
    using assms by (auto simp: decodeConfirmation_def ok_simps)
  have w: "wire a \<noteq> []" "wire b \<noteq> []" using h(3) by (auto simp: confirmationHash_def split: if_splits)
  have "bl password (transcript a b) = Some h"
    using h(3) by (simp add: confirmationHash_eq [OF w] hashed_def split: option.splits)
  moreover have "r = conf_magic @ drop 4 bs @ rest" "length (drop 4 bs) = 64"
    using h(1) append_take_drop_id [of 4 bs] unfolding h(2) by (auto simp: ReadFull_eq confirmationSize_def)
  moreover have "ed_verify ed key h (drop 4 bs)" using h(4) by (auto simp: ed25519_Verify_def split: if_splits)
  ultimately show ?thesis unfolding verified_def by blast
qed

lemma encodeConfirmation_no_panic: "length sk = 64 \<Longrightarrow> encodeConfirmation ed bl sk password a b \<noteq> Panic"
  by (auto simp: encodeConfirmation_def ed25519_Sign_def split: sum.splits)

lemma decodeConfirmation_no_panic: "decodeConfirmation ed bl r key password a b \<noteq> Panic"
  by (auto simp: decodeConfirmation_def ed25519_Verify_def go_bind_def split: sum.splits)

lemma encode_metadata_no_panic: "length sk = 64 \<Longrightarrow> encode_metadata ed bl rnd m sk password \<noteq> Panic"
  by (auto simp: encode_metadata_def ed25519_Sign_def Let_def split: sum.splits option.splits)

section \<open>Runs of the handler\<close>

abbreviation local_hello :: "crypto \<Rightarrow> linkOptions \<Rightarrow> version_metadata" where
  "local_hello core options \<equiv>
     version_getBaseMetadata\<lparr>vm_publicKey := c_publicKey core, vm_priority := lo_priority options\<rparr>"

lemma handler_elim:
  assumes "handler ed bl core allowed lt options io local_link = Ok (Inr acc)"
  obtains lm rm r where "handler_hello ed bl core options io = Ok (Inr (lm, rm, r))"
    "handler_confirm ed bl core options io lm rm r = Ok (Inr (acc_rest acc))"
    "handler_admit lt options allowed local_link io (acc_key acc) = Inr ()"
    "acc_key acc = vm_publicKey rm"
  using assms by (auto simp: handler_def ok_simps split_beta split: option.splits)

lemma handler_hello_elim:
  assumes "handler_hello ed bl core options io = Ok (Inr (lm, rm, r))"
  shows "\<exists>bs. encode_metadata ed bl (io_rnd io) (local_hello core options) (c_privateKey core) (lo_password options)
        = Ok (Inr (lm, bs))
    \<and> decode_metadata ed bl empty_metadata (io_read io) (lo_password options) = Ok (Inr (rm, r))
    \<and> metadata_check rm \<and> vm_publicKey rm \<noteq> c_publicKey core"
  using assms by (auto simp: handler_hello_def Let_def ok_simps split_beta)

lemma encode_metadata_wire:
  "encode_metadata ed bl rnd m sk password = Ok (Inr (m', bs)) \<Longrightarrow> wire m' = bs"
  by (auto simp: encode_metadata_def Let_def ok_simps split: option.splits)

lemma handler_confirm_elim:
  assumes "handler_confirm ed bl core options io lm rm r = Ok (Inr rest)"
  shows "if supportsHandshakeConfirmation rm
    then decodeConfirmation ed bl r (vm_publicKey rm) (lo_password options) lm rm = Ok (Inr rest)
    else \<not> requireSecure options \<and> rest = r"
  using assms by (auto simp: handler_confirm_def ok_simps split: if_splits)

lemma verifyTLS_ok:
  "verifyTLSPeerIdentity conn key = Inr () \<Longrightarrow> tls_unwrap conn = TLSConn certs \<Longrightarrow> certs = [Ed25519Cert key]"
  by (auto simp: verifyTLSPeerIdentity_def length_Suc_conv split: if_splits cert_key.splits)

lemma handler_hello_no_panic:
  "length (c_privateKey core) = 64 \<Longrightarrow> handler_hello ed bl core options io \<noteq> Panic"
  unfolding handler_hello_def Let_def
  by (rule go_bind_no_panic, erule encode_metadata_no_panic)
     (simp add: decode_metadata_no_panic go_bind_no_panic split: sum.splits prod.splits)

lemma handler_confirm_no_panic:
  "length (c_privateKey core) = 64 \<Longrightarrow> handler_confirm ed bl core options io lm rm r \<noteq> Panic"
  unfolding handler_confirm_def
  by (simp add: decodeConfirmation_no_panic encodeConfirmation_no_panic go_bind_no_panic split: sum.splits)

lemma handler_no_panic:
  assumes "length (c_privateKey core) = 64"
  shows "handler ed bl core allowed lt options io local_link \<noteq> Panic"
  unfolding handler_def
proof (rule go_bind_no_panic [OF handler_hello_no_panic [OF assms]])
  fix hello assume h: "handler_hello ed bl core options io = Ok hello"
  show "(case hello of Inl e \<Rightarrow> Ok (Inl e) | Inr (localMeta, remoteMeta, r) \<Rightarrow>
      go_bind (handler_confirm ed bl core options io localMeta remoteMeta r) (\<lambda>conf.
        case conf of Inl e \<Rightarrow> Ok (Inl e) | Inr r \<Rightarrow>
          (case handler_admit lt options allowed local_link io (vm_publicKey remoteMeta) of Inl e \<Rightarrow> Ok (Inl e)
           | Inr _ \<Rightarrow> (case AddrForKey (vm_publicKey remoteMeta) of None \<Rightarrow> Panic | Some _ \<Rightarrow>
               Ok (Inr \<lparr>acc_key = vm_publicKey remoteMeta, acc_priority = (if vm_priority remoteMeta > lo_priority options
                  then vm_priority remoteMeta else lo_priority options), acc_rest = r\<rparr>))))) \<noteq> Panic"
  proof (cases hello)
    case (Inr t)
    obtain lm rm r where t: "t = (lm, rm, r)" by (cases t)
    have "metadata_check rm" using handler_hello_elim [OF h [unfolded Inr t]] by blast
    then have "length (vm_publicKey rm) = 32" by (simp add: metadata_check_def split: if_splits)
    from AddrForKey_eq [OF this] show ?thesis
      using handler_confirm_no_panic [OF assms, of ed bl options io lm rm r]
      by (simp add: Inr t go_bind_no_panic split: sum.splits)
  qed simp
qed

section \<open>Properties\<close>

text \<open>
  C13. A node's handshake message is understood by any node with the same password, whatever the
  reader's previous metadata and whatever follows on the stream: \<^verbatim>\<open>decode\<close> gives back every field of the
  metadata that \<^verbatim>\<open>encode\<close> sent, and leaves the rest of the stream unread.
\<close>

theorem metadata_roundtrip:
  assumes "ed25519_laws ed" "blake_laws bl" "length password \<le> 64"
    and "length sk = privateKeySize" "vm_publicKey m = ed_public ed sk" "length nonce = 32"
  shows "\<exists>m' bs. encode_metadata ed bl (Some nonce) m sk password = Ok (Inr (m', bs))
    \<and> m' = m\<lparr>vm_nonce := nonce, capabilities := capabilityHandshakeConfirmation,
          transcriptSignature := transcriptSignature m', wire := bs\<rparr>
    \<and> (\<forall>m0 rest. decode_metadata ed bl m0 (bs @ rest) password = Ok (Inr (m', rest)))"
proof -
  have "length sk = 64" using assms(4) by simp
  from decode_encode [OF assms(1-3) this assms(5,6)] show ?thesis by metis
qed

text \<open>A hash that satisfies the law: the key, a separator and the message.\<close>

definition sample_bl :: blake2b where
  "sample_bl password m = (if 64 < length password then None else Some (array_of 64 password @ m))"

lemma sample_bl_laws: "blake_laws sample_bl"
  by (simp add: blake_laws_def sample_bl_def)

definition sample_sk :: "nat \<Rightarrow> bytes" where
  "sample_sk i = replicate 64 (of_nat i)"

theorem metadata_roundtrip_witness:
  "\<exists>m' bs. decode_metadata sample_ed sample_bl empty_metadata (bs @ [1, 2]) [7] = Ok (Inr (m', [1, 2]))
     \<and> vm_nonce m' = replicate 32 9 \<and> vm_publicKey m' = replicate 32 5"
proof -
  have "length (sample_sk 5) = privateKeySize" "length (replicate 32 (9 :: byte)) = 32" "length [7 :: byte] \<le> 64"
    "vm_publicKey (version_getBaseMetadata\<lparr>vm_publicKey := replicate 32 5\<rparr>) = ed_public sample_ed (sample_sk 5)"
    by (simp_all add: sample_sk_def sample_ed_def array_of_def)
  from metadata_roundtrip [OF sample_ed_laws sample_bl_laws this(3,1,4,2)] obtain m' bs where
    e: "m' = version_getBaseMetadata\<lparr>vm_publicKey := replicate 32 5, vm_nonce := replicate 32 9,
          capabilities := capabilityHandshakeConfirmation,
          transcriptSignature := transcriptSignature m', wire := bs\<rparr>"
    and d: "\<forall>m0 rest. decode_metadata sample_ed sample_bl m0 (bs @ rest) [7] = Ok (Inr (m', rest))" by blast
  have "vm_nonce m' = replicate 32 9" "vm_publicKey m' = replicate 32 5"
    using arg_cong [OF e, of vm_nonce] arg_cong [OF e, of vm_publicKey] by simp_all
  then show ?thesis using d by blast
qed

text \<open>
  C14. \<^verbatim>\<open>decode\<close> never panics, and it accepts only signed metadata: the sender's key has signed the
  hash of that key, and a sender that announces the confirmation capability has signed the hash of
  every field of the message, which alone determine the metadata apart from the signature itself.
\<close>

theorem metadata_authentic:
  "decode_metadata ed bl m0 r password \<noteq> Panic \<and>
   (decode_metadata ed bl m0 r password = Ok (Inr (m, rest)) \<longrightarrow>
     (\<exists>fields sig. r = meta_magic @ be16 (of_nat (length fields + 64)) @ fields @ sig @ rest
        \<and> verified ed bl password (vm_publicKey m) (vm_publicKey m) sig
        \<and> (supportsHandshakeConfirmation m \<longrightarrow>
            (\<exists>sf tsig m1. fields = sf @ tlv metaTranscriptSignature tsig
               \<and> verified ed bl password (vm_publicKey m) (handshakeDomain @ sf) tsig
               \<and> decode_fields sf 0 sf (m0\<lparr>wire := wire m\<rparr>, []) = Inr (m1, [])
               \<and> m = m1\<lparr>transcriptSignature := tsig\<rparr>))))"
proof (intro conjI impI decode_metadata_no_panic)
  assume "decode_metadata ed bl m0 r password = Ok (Inr (m, rest))"
  from decode_metadata_sound [OF this] obtain fields sig sf where d: "r = wire m @ rest"
    "wire m = meta_magic @ be16 (of_nat (length fields + 64)) @ fields @ sig"
    "decode_fields fields 0 fields (m0\<lparr>wire := wire m\<rparr>, []) = Inr (m, sf)"
    "decode_verify ed bl password sig (m, sf) = Ok (Inr m)" by blast
  note v = decode_verify_sound [OF d(4)]
  have conf: "\<exists>sf tsig m1. fields = sf @ tlv metaTranscriptSignature tsig
      \<and> verified ed bl password (vm_publicKey m) (handshakeDomain @ sf) tsig
      \<and> decode_fields sf 0 sf (m0\<lparr>wire := wire m\<rparr>, []) = Inr (m1, [])
      \<and> m = m1\<lparr>transcriptSignature := tsig\<rparr>" if "supportsHandshakeConfirmation m"
  proof -
    have s: "sf \<noteq> []" "verified ed bl password (vm_publicKey m) (handshakeDomain @ sf) (transcriptSignature m)"
      using v that by blast+
    obtain tsig m1 where f: "fields = sf @ tlv metaTranscriptSignature tsig"
      "m = m1\<lparr>transcriptSignature := tsig\<rparr>" "\<forall>fs. decode_fields fs 0 sf (m0\<lparr>wire := wire m\<rparr>, []) = Inr (m1, [])"
      using decode_fields_signed [OF d(3) s(1)] by auto
    have "transcriptSignature m = tsig" using arg_cong [OF f(2), of transcriptSignature] by simp
    then show ?thesis using f s(2) by blast
  qed
  have "r = meta_magic @ be16 (of_nat (length fields + 64)) @ fields @ sig @ rest" using d(1,2) by simp
  then show "\<exists>fields sig. r = meta_magic @ be16 (of_nat (length fields + 64)) @ fields @ sig @ rest
        \<and> verified ed bl password (vm_publicKey m) (vm_publicKey m) sig
        \<and> (supportsHandshakeConfirmation m \<longrightarrow>
            (\<exists>sf tsig m1. fields = sf @ tlv metaTranscriptSignature tsig
               \<and> verified ed bl password (vm_publicKey m) (handshakeDomain @ sf) tsig
               \<and> decode_fields sf 0 sf (m0\<lparr>wire := wire m\<rparr>, []) = Inr (m1, [])
               \<and> m = m1\<lparr>transcriptSignature := tsig\<rparr>))"
    using v conf by blast
qed

definition sample_node :: "nat \<Rightarrow> crypto" where
  "sample_node i = \<lparr>c_privateKey = sample_sk i, c_publicKey = replicate 32 (of_nat i)\<rparr>"

lemma sample_node_keypair: "keypair sample_ed (sample_node i)" "length (c_privateKey (sample_node i)) = 64"
  by (simp_all add: keypair_def sample_node_def sample_sk_def sample_ed_def array_of_def)

lemma sample_hello:
  "\<exists>m bs. decode_metadata sample_ed sample_bl empty_metadata bs [7] = Ok (Inr (m, []))
     \<and> supportsHandshakeConfirmation m"
proof -
  have l: "length [7 :: byte] \<le> 64" "length (sample_sk 5) = 64" "length (replicate 32 (9 :: byte)) = 32"
    "vm_publicKey (version_getBaseMetadata\<lparr>vm_publicKey := replicate 32 5\<rparr>) = ed_public sample_ed (sample_sk 5)"
    by (simp_all add: sample_sk_def sample_ed_def array_of_def)
  from decode_encode [OF sample_ed_laws sample_bl_laws l(1,2,4,3)] obtain m' bs where
    e: "m' = version_getBaseMetadata\<lparr>vm_publicKey := replicate 32 5, vm_nonce := replicate 32 9,
          capabilities := capabilityHandshakeConfirmation,
          transcriptSignature := transcriptSignature m', wire := bs\<rparr>"
    and d: "\<forall>m0 rest. decode_metadata sample_ed sample_bl m0 (bs @ rest) [7] = Ok (Inr (m', rest))" by blast
  have "supportsHandshakeConfirmation m'" using arg_cong [OF e, of capabilities] by simp
  then show ?thesis using d by (metis append_Nil2)
qed

theorem metadata_authentic_witness:
  "\<exists>bs m fields sig. decode_metadata sample_ed sample_bl empty_metadata bs [7] = Ok (Inr (m, []))
     \<and> bs = meta_magic @ be16 (of_nat (length fields + 64)) @ fields @ sig
     \<and> verified sample_ed sample_bl [7] (vm_publicKey m) (vm_publicKey m) sig"
proof -
  from sample_hello obtain m bs where d: "decode_metadata sample_ed sample_bl empty_metadata bs [7] = Ok (Inr (m, []))"
    by blast
  from metadata_authentic [of sample_ed sample_bl empty_metadata bs "[7]" m "[]"] d show ?thesis by fastforce
qed

text \<open>
  C10. A link handler hands a connection to the router only for an authenticated remote key: the
  remote metadata was accepted by \<^verbatim>\<open>decode\<close> and is of the supported version, and either the remote key has
  signed the transcript of both sides' messages, this side's own fresh message included, or the
  remote side does not offer that and the link does not require it.
\<close>

theorem handler_only_authenticated:
  assumes "handler ed bl core allowed lt options io local_link = Ok (Inr acc)"
  shows "\<exists>lm rm r. encode_metadata ed bl (io_rnd io) (local_hello core options) (c_privateKey core) (lo_password options)
        = Ok (Inr (lm, wire lm))
    \<and> decode_metadata ed bl empty_metadata (io_read io) (lo_password options) = Ok (Inr (rm, r))
    \<and> metadata_check rm \<and> vm_publicKey rm = acc_key acc
    \<and> (if supportsHandshakeConfirmation rm
       then \<exists>sig. r = conf_magic @ sig @ acc_rest acc
              \<and> verified ed bl (lo_password options) (acc_key acc) (transcript lm rm) sig
       else \<not> requireSecure options \<and> r = acc_rest acc)"
proof -
  obtain lm rm r where h: "handler_hello ed bl core options io = Ok (Inr (lm, rm, r))"
    "handler_confirm ed bl core options io lm rm r = Ok (Inr (acc_rest acc))" "acc_key acc = vm_publicKey rm"
    by (rule handler_elim [OF assms])
  obtain bs where e: "encode_metadata ed bl (io_rnd io) (local_hello core options) (c_privateKey core) (lo_password options)
        = Ok (Inr (lm, bs))"
    "decode_metadata ed bl empty_metadata (io_read io) (lo_password options) = Ok (Inr (rm, r))" "metadata_check rm"
    using handler_hello_elim [OF h(1)] by blast
  have "wire lm = bs" by (rule encode_metadata_wire [OF e(1)])
  moreover have "if supportsHandshakeConfirmation rm
       then \<exists>sig. r = conf_magic @ sig @ acc_rest acc
              \<and> verified ed bl (lo_password options) (acc_key acc) (transcript lm rm) sig
       else \<not> requireSecure options \<and> r = acc_rest acc"
    using handler_confirm_elim [OF h(2)] decodeConfirmation_sound [of ed bl r "acc_key acc"] unfolding h(3)
    by (auto split: if_splits) blast
  ultimately show ?thesis using e h(3) by (intro exI [of _ lm] exI [of _ rm] exI [of _ r]) simp
qed

text \<open>
  C11. Whatever the remote side sends and however the environment behaves, the handler does not
  panic, and a connection it accepts is admitted: it is not to the node itself, the key is among
  the pinned keys if there are any, among the allowed keys if the connection is incoming, not local
  and there are any, and on a TLS connection it is the key of the one certificate.
\<close>

theorem handler_only_admitted:
  assumes "length (c_privateKey core) = privateKeySize"
  shows "handler ed bl core allowed lt options io local_link \<noteq> Panic \<and>
    (handler ed bl core allowed lt options io local_link = Ok (Inr acc) \<longrightarrow>
       length (acc_key acc) = publicKeySize \<and> acc_key acc \<noteq> c_publicKey core
     \<and> (pinnedEd25519Keys options = {||} \<or> acc_key acc |\<in>| pinnedEd25519Keys options)
     \<and> (lt \<noteq> linkTypeIncoming \<or> local_link \<or> allowed = {||} \<or> acc_key acc |\<in>| allowed)
     \<and> (\<forall>certs. tls_unwrap (io_conn io) = TLSConn certs \<longrightarrow> certs = [Ed25519Cert (acc_key acc)]))"
proof (intro conjI impI)
  show "handler ed bl core allowed lt options io local_link \<noteq> Panic"
    using handler_no_panic assms by simp
  assume "handler ed bl core allowed lt options io local_link = Ok (Inr acc)"
  then obtain lm rm r where h: "handler_hello ed bl core options io = Ok (Inr (lm, rm, r))"
    "handler_admit lt options allowed local_link io (acc_key acc) = Inr ()" "acc_key acc = vm_publicKey rm"
    by (rule handler_elim)
  then have "metadata_check rm" and ns: "acc_key acc \<noteq> c_publicKey core"
    using handler_hello_elim [OF h(1)] by auto
  then show l: "length (acc_key acc) = publicKeySize"
    using h(3) by (simp add: metadata_check_def split: if_splits)
  show "acc_key acc \<noteq> c_publicKey core" by (rule ns)
  show "pinnedEd25519Keys options = {||} \<or> acc_key acc |\<in>| pinnedEd25519Keys options"
    "lt \<noteq> linkTypeIncoming \<or> local_link \<or> allowed = {||} \<or> acc_key acc |\<in>| allowed"
    using h(2) l by (auto simp: handler_admit_def ok_simps)
  show "\<forall>certs. tls_unwrap (io_conn io) = TLSConn certs \<longrightarrow> certs = [Ed25519Cert (acc_key acc)]"
    using h(2) verifyTLS_ok by (auto simp: handler_admit_def ok_simps)
qed

section \<open>Two nodes\<close>

lemma version_base [simp]:
  "majorVer version_getBaseMetadata = ProtocolVersionMajor" "minorVer version_getBaseMetadata = ProtocolVersionMinor"
  by (simp_all add: version_getBaseMetadata_def)

text \<open>An environment in which every write is complete and the remote side sends \<open>r\<close>.\<close>

definition good_io :: "bytes \<Rightarrow> bytes \<Rightarrow> nat \<Rightarrow> net_conn \<Rightarrow> handler_io" where
  "good_io nonce r n conn = \<lparr>io_rnd = Some nonce, io_deadline = True, io_write1 = Some n, io_read = r,
     io_write2 = Some 68, io_clear = True, io_conn = conn\<rparr>"

text \<open>What a node needs to take part: its key pair, its nonce and its password.\<close>

definition ready :: "ed25519 \<Rightarrow> crypto \<Rightarrow> linkOptions \<Rightarrow> bytes \<Rightarrow> bool" where
  "ready ed core options nonce \<longleftrightarrow> keypair ed core \<and> length (c_privateKey core) = 64
     \<and> length (lo_password options) \<le> 64 \<and> length nonce = 32 \<and> nonce \<noteq> replicate 32 0"

lemma ready_hello:
  assumes "ed25519_laws ed" "blake_laws bl" "ready ed core options nonce"
  shows "\<exists>m. encode_metadata ed bl (Some nonce) (local_hello core options) (c_privateKey core) (lo_password options)
        = Ok (Inr (m, wire m)) \<and> wire m \<noteq> [] \<and> metadata_check m \<and> supportsHandshakeConfirmation m
    \<and> vm_publicKey m = c_publicKey core \<and> vm_priority m = lo_priority options
    \<and> (\<forall>m0 rest. decode_metadata ed bl m0 (wire m @ rest) (lo_password options) = Ok (Inr (m, rest)))"
proof -
  have r: "length (lo_password options) \<le> 64" "length (c_privateKey core) = 64" "length nonce = 32"
    "vm_publicKey (local_hello core options) = ed_public ed (c_privateKey core)" "nonce \<noteq> replicate 32 0"
    using assms(3) by (simp_all add: ready_def keypair_def)
  from decode_encode [OF assms(1,2) r(1,2,4,3)] obtain m bs where
    e: "encode_metadata ed bl (Some nonce) (local_hello core options) (c_privateKey core) (lo_password options) = Ok (Inr (m, bs))"
    and bs: "bs \<noteq> []"
    and m: "m = (local_hello core options)\<lparr>vm_nonce := nonce, capabilities := capabilityHandshakeConfirmation,
          transcriptSignature := transcriptSignature m, wire := bs\<rparr>"
    and d: "\<forall>m0 rest. decode_metadata ed bl m0 (bs @ rest) (lo_password options) = Ok (Inr (m, rest))" by blast
  have w: "wire m = bs" by (rule encode_metadata_wire [OF e])
  have s: "supportsHandshakeConfirmation m" using arg_cong [OF m, of capabilities] by simp
  have f: "vm_publicKey m = c_publicKey core" "vm_priority m = lo_priority options" "vm_nonce m = nonce"
    "majorVer m = ProtocolVersionMajor" "minorVer m = ProtocolVersionMinor"
    using arg_cong [OF m, of vm_publicKey] arg_cong [OF m, of vm_priority] arg_cong [OF m, of vm_nonce]
      arg_cong [OF m, of majorVer] arg_cong [OF m, of minorVer] by simp_all
  have "length (c_publicKey core) = 32" using r(4) assms(1) by (simp add: ed25519_laws_def)
  then have "metadata_check m" using f r(5) by (simp add: metadata_check_def)
  then show ?thesis using e bs d w s f by blast
qed

lemma handler_accepts_peer:
  assumes own: "encode_metadata ed bl (Some nonce) (local_hello core options) (c_privateKey core) (lo_password options)
        = Ok (Inr (lm, wire lm))"
    and peer: "\<forall>m0 rest. decode_metadata ed bl m0 (wire rm @ rest) (lo_password options) = Ok (Inr (rm, rest))"
      "metadata_check rm" "supportsHandshakeConfirmation rm" "vm_publicKey rm \<noteq> c_publicKey core"
    and conf: "encodeConfirmation ed bl (c_privateKey core) (lo_password options) lm rm = Ok (Inr own_conf)"
      "length own_conf = 68"
      "decodeConfirmation ed bl (peer_conf @ rest) (vm_publicKey rm) (lo_password options) lm rm = Ok (Inr rest)"
    and admit: "handler_admit lt options allowed local_link
        (good_io nonce (wire rm @ peer_conf @ rest) (length (wire lm)) conn) (vm_publicKey rm) = Inr ()"
  shows "handler ed bl core allowed lt options (good_io nonce (wire rm @ peer_conf @ rest) (length (wire lm)) conn) local_link
    = Ok (Inr \<lparr>acc_key = vm_publicKey rm, acc_priority = max (lo_priority options) (vm_priority rm), acc_rest = rest\<rparr>)
    \<and> handler_sent ed bl core options (good_io nonce (wire rm @ peer_conf @ rest) (length (wire lm)) conn) = [wire lm, own_conf]"
proof -
  let ?io = "good_io nonce (wire rm @ peer_conf @ rest) (length (wire lm)) conn"
  have h: "handler_hello ed bl core options ?io = Ok (Inr (lm, rm, peer_conf @ rest))"
    using own peer by (simp add: handler_hello_def Let_def good_io_def checked_write_def)
  have c: "handler_confirm ed bl core options ?io lm rm (peer_conf @ rest) = Ok (Inr rest)"
    using conf peer(3) by (simp add: handler_confirm_def good_io_def checked_write_def)
  have "length (vm_publicKey rm) = 32" using peer(2) by (simp add: metadata_check_def split: if_splits)
  from AddrForKey_eq [OF this] show ?thesis
    using h c admit own conf(1) peer(3) by (simp add: handler_def handler_sent_def max_def less_le good_io_def)
qed

lemma confirmation_pair:
  assumes "ed25519_laws ed" "blake_laws bl" "length password \<le> 64" "keypair ed a" "length (c_privateKey a) = 64"
    and "wire ma \<noteq> []" "wire mb \<noteq> []" "vm_publicKey ma = c_publicKey a" "vm_publicKey ma \<noteq> vm_publicKey mb"
  shows "\<exists>ca. encodeConfirmation ed bl (c_privateKey a) password ma mb = Ok (Inr ca) \<and> length ca = 68
    \<and> (\<forall>rest. decodeConfirmation ed bl (ca @ rest) (vm_publicKey ma) password mb ma = Ok (Inr rest))"
proof -
  obtain h where h: "bl password (transcript ma mb) = Some h"
    "encodeConfirmation ed bl (c_privateKey a) password ma mb = Ok (Inr (conf_magic @ ed_sign ed (c_privateKey a) h))"
    using encodeConfirmation_ok [OF assms(2,3,5,6,7)] by blast
  have t: "bl password (transcript mb ma) = Some h" using h(1) transcript_sym [OF assms(9)] by simp
  have k: "vm_publicKey ma = ed_public ed (c_privateKey a)" using assms(4,8) by (simp add: keypair_def)
  have "decodeConfirmation ed bl ((conf_magic @ ed_sign ed (c_privateKey a) h) @ rest) (vm_publicKey ma) password mb ma
      = Ok (Inr rest)" for rest
    using decodeConfirmation_ok [OF assms(1), of bl password mb ma h "vm_publicKey ma" "c_privateKey a" rest]
      t assms(6,7) k by simp
  moreover have "length (conf_magic @ ed_sign ed (c_privateKey a) h) = 68"
    using assms(1) by (simp add: ed25519_laws_def)
  ultimately show ?thesis using h(2) by blast
qed

text \<open>
  C12. Two nodes with different keys and the same password, each of which admits the other's key once the
  handshake is over, always complete it when each receives what the other sends: both accept the other's key, agree on the priority (the larger of
  the two), and leave the bytes that follow the handshake for the router.
\<close>

theorem handshake_completes:
  assumes "ed25519_laws ed" "blake_laws bl" "ready ed a oa na" "ready ed b ob nb"
    and "c_publicKey a \<noteq> c_publicKey b" "lo_password oa = lo_password ob"
    and "\<And>r n. handler_admit lta oa allowa loca (good_io na r n conna) (c_publicKey b) = Inr ()"
    and "\<And>r n. handler_admit ltb ob allowb locb (good_io nb r n connb) (c_publicKey a) = Inr ()"
  shows "\<exists>(ma :: version_metadata) (mb :: version_metadata) ca cb.
      handler_sent ed bl a oa (good_io na (wire mb @ cb @ ra) (length (wire ma)) conna) = [wire ma, ca]
    \<and> handler_sent ed bl b ob (good_io nb (wire ma @ ca @ rb) (length (wire mb)) connb) = [wire mb, cb]
    \<and> handler ed bl a allowa lta oa (good_io na (wire mb @ cb @ ra) (length (wire ma)) conna) loca
        = Ok (Inr \<lparr>acc_key = c_publicKey b, acc_priority = max (lo_priority oa) (lo_priority ob), acc_rest = ra\<rparr>)
    \<and> handler ed bl b allowb ltb ob (good_io nb (wire ma @ ca @ rb) (length (wire mb)) connb) locb
        = Ok (Inr \<lparr>acc_key = c_publicKey a, acc_priority = max (lo_priority oa) (lo_priority ob), acc_rest = rb\<rparr>)"
proof -
  obtain ma where a: "encode_metadata ed bl (Some na) (local_hello a oa) (c_privateKey a) (lo_password oa) = Ok (Inr (ma, wire ma))"
    "wire ma \<noteq> []" "metadata_check ma" "supportsHandshakeConfirmation ma" "vm_publicKey ma = c_publicKey a"
    "vm_priority ma = lo_priority oa" "\<forall>m0 rest. decode_metadata ed bl m0 (wire ma @ rest) (lo_password ob) = Ok (Inr (ma, rest))"
    using ready_hello [OF assms(1,2,3)] assms(6) by metis
  obtain mb where b: "encode_metadata ed bl (Some nb) (local_hello b ob) (c_privateKey b) (lo_password ob) = Ok (Inr (mb, wire mb))"
    "wire mb \<noteq> []" "metadata_check mb" "supportsHandshakeConfirmation mb" "vm_publicKey mb = c_publicKey b"
    "vm_priority mb = lo_priority ob" "\<forall>m0 rest. decode_metadata ed bl m0 (wire mb @ rest) (lo_password oa) = Ok (Inr (mb, rest))"
    using ready_hello [OF assms(1,2,4)] assms(6) by metis
  have r: "keypair ed a" "length (c_privateKey a) = 64" "length (lo_password oa) \<le> 64"
    "keypair ed b" "length (c_privateKey b) = 64" "length (lo_password ob) \<le> 64"
    using assms(3,4) by (simp_all add: ready_def)
  have ne: "vm_publicKey ma \<noteq> vm_publicKey mb" "vm_publicKey mb \<noteq> vm_publicKey ma" using assms(5) a(5) b(5) by auto
  obtain ca where ca: "encodeConfirmation ed bl (c_privateKey a) (lo_password oa) ma mb = Ok (Inr ca)" "length ca = 68"
    "\<forall>rest. decodeConfirmation ed bl (ca @ rest) (vm_publicKey ma) (lo_password oa) mb ma = Ok (Inr rest)"
    using confirmation_pair [OF assms(1,2) r(3,1,2) a(2) b(2) a(5) ne(1)] by blast
  obtain cb where cb: "encodeConfirmation ed bl (c_privateKey b) (lo_password ob) mb ma = Ok (Inr cb)" "length cb = 68"
    "\<forall>rest. decodeConfirmation ed bl (cb @ rest) (vm_publicKey mb) (lo_password ob) ma mb = Ok (Inr rest)"
    using confirmation_pair [OF assms(1,2) r(6,4,5) b(2) a(2) b(5) ne(2)] by blast
  have "handler ed bl a allowa lta oa (good_io na (wire mb @ cb @ ra) (length (wire ma)) conna) loca
      = Ok (Inr \<lparr>acc_key = vm_publicKey mb, acc_priority = max (lo_priority oa) (vm_priority mb), acc_rest = ra\<rparr>)
    \<and> handler_sent ed bl a oa (good_io na (wire mb @ cb @ ra) (length (wire ma)) conna) = [wire ma, ca]"
    by (rule handler_accepts_peer [OF a(1) b(7,3,4) _ ca(1,2)]) (use assms(5-7) b(5) cb(3) in auto)
  moreover have "handler ed bl b allowb ltb ob (good_io nb (wire ma @ ca @ rb) (length (wire mb)) connb) locb
      = Ok (Inr \<lparr>acc_key = vm_publicKey ma, acc_priority = max (lo_priority ob) (vm_priority ma), acc_rest = rb\<rparr>)
    \<and> handler_sent ed bl b ob (good_io nb (wire ma @ ca @ rb) (length (wire mb)) connb) = [wire mb, cb]"
    by (rule handler_accepts_peer [OF b(1) a(7,3,4) _ cb(1,2)]) (use assms(5,6,8) a(5) ca(3) in auto)
  moreover have "max (lo_priority ob) (lo_priority oa) = max (lo_priority oa) (lo_priority ob)" by (rule max.commute)
  ultimately show ?thesis unfolding a(5,6) b(5,6) by metis
qed

definition sample_options :: "byte \<Rightarrow> linkOptions" where
  "sample_options prio = \<lparr>pinnedEd25519Keys = {||}, lo_priority = prio, tlsSNI = '''', lo_password = [7],
     requireSecure = True, maxBackoff = 0\<rparr>"

lemma sample_ready: "ready sample_ed (sample_node i) (sample_options prio) (replicate 32 9)"
proof -
  have "replicate 32 (9 :: byte) \<noteq> replicate 32 0" by simp
  then show ?thesis using sample_node_keypair by (simp add: ready_def sample_options_def)
qed

lemma sample_admit:
  "handler_admit lt (sample_options prio) {||} local_link (good_io nonce r n OtherConn) key = Inr ()"
  by (simp add: handler_admit_def sample_options_def good_io_def verifyTLSPeerIdentity_def tls_unwrap_def)

lemma sample_keys: "c_publicKey (sample_node 5) \<noteq> c_publicKey (sample_node 6)"
  by (simp add: sample_node_def)

theorem handshake_completes_witness:
  "\<exists>io. handler sample_ed sample_bl (sample_node 5) {||} linkTypePersistent (sample_options 1) io False
      = Ok (Inr \<lparr>acc_key = c_publicKey (sample_node 6), acc_priority = 3, acc_rest = [0]\<rparr>)"
proof -
  have p: "lo_password (sample_options 1) = lo_password (sample_options 3)" by (simp add: sample_options_def)
  have "max (lo_priority (sample_options 1)) (lo_priority (sample_options 3)) = 3" by (simp add: sample_options_def)
  then show ?thesis
    using handshake_completes [where ra = "[0]" and rb = "[]" and lta = linkTypePersistent and loca = False,
        OF sample_ed_laws sample_bl_laws sample_ready sample_ready sample_keys p sample_admit sample_admit] by metis
qed

text \<open>A run that is accepted, for the witnesses of the safety properties.\<close>

lemma sample_run:
  "\<exists>io acc. handler sample_ed sample_bl (sample_node 5) {||} linkTypeIncoming (sample_options 1) io False = Ok (Inr acc)"
proof -
  obtain ma where a: "encode_metadata sample_ed sample_bl (Some (replicate 32 9)) (local_hello (sample_node 5) (sample_options 1))
      (c_privateKey (sample_node 5)) [7] = Ok (Inr (ma, wire ma))"
    "wire ma \<noteq> []" "vm_publicKey ma = c_publicKey (sample_node 5)"
    using ready_hello [OF sample_ed_laws sample_bl_laws sample_ready [of 5 1]] by (auto simp: sample_options_def)
  obtain mb where b: "\<forall>m0 rest. decode_metadata sample_ed sample_bl m0 (wire mb @ rest) [7] = Ok (Inr (mb, rest))"
    "wire mb \<noteq> []" "metadata_check mb" "supportsHandshakeConfirmation mb" "vm_publicKey mb = c_publicKey (sample_node 6)"
    using ready_hello [OF sample_ed_laws sample_bl_laws sample_ready [of 6 3]] by (auto simp: sample_options_def)
  have pw: "lo_password (sample_options 1) = [7]" "length [7 :: byte] \<le> 64" by (simp_all add: sample_options_def)
  have ne: "vm_publicKey ma \<noteq> vm_publicKey mb" "vm_publicKey mb \<noteq> vm_publicKey ma" using sample_keys a(3) b(5) by simp_all
  obtain ca where ca: "encodeConfirmation sample_ed sample_bl (c_privateKey (sample_node 5)) [7] ma mb = Ok (Inr ca)" "length ca = 68"
    using confirmation_pair [OF sample_ed_laws sample_bl_laws pw(2) sample_node_keypair a(2) b(2) a(3) ne(1)] by blast
  obtain cb where cb: "\<forall>rest. decodeConfirmation sample_ed sample_bl (cb @ rest) (vm_publicKey mb) [7] ma mb = Ok (Inr rest)"
    using confirmation_pair [OF sample_ed_laws sample_bl_laws pw(2) sample_node_keypair b(2) a(2) b(5) ne(2)] by blast
  show ?thesis
    using handler_accepts_peer [where ed = sample_ed and bl = sample_bl and nonce = "replicate 32 9" and core = "sample_node 5"
        and options = "sample_options 1" and lm = ma and rm = mb and own_conf = ca and peer_conf = cb and rest = "[]"]
      a b ca cb sample_keys sample_admit unfolding pw by (metis append_Nil2)
qed

theorem handler_only_authenticated_witness:
  "\<exists>io acc sig tr. handler sample_ed sample_bl (sample_node 5) {||} linkTypeIncoming (sample_options 1) io False = Ok (Inr acc)
     \<and> verified sample_ed sample_bl [7] (acc_key acc) tr sig"
proof -
  obtain io acc where h: "handler sample_ed sample_bl (sample_node 5) {||} linkTypeIncoming (sample_options 1) io False = Ok (Inr acc)"
    using sample_run by blast
  have "requireSecure (sample_options 1)" "lo_password (sample_options 1) = [7]" by (simp_all add: sample_options_def)
  then show ?thesis using handler_only_authenticated [OF h] h by (metis (no_types, lifting))
qed

theorem handler_only_admitted_witness:
  "\<exists>io acc. handler sample_ed sample_bl (sample_node 5) {||} linkTypeIncoming (sample_options 1) io False = Ok (Inr acc)
     \<and> acc_key acc \<noteq> c_publicKey (sample_node 5)"
proof -
  obtain io acc where h: "handler sample_ed sample_bl (sample_node 5) {||} linkTypeIncoming (sample_options 1) io False = Ok (Inr acc)"
    using sample_run by blast
  have "length (c_privateKey (sample_node 5)) = privateKeySize" by (simp add: sample_node_keypair)
  from handler_only_admitted [OF this] h show ?thesis by blast
qed

end
