(* ===== verification/Events.thy ===== *)
theory Events
  imports Prelude
begin

text \<open>
  Runs of a component over a list of events. A step may panic; otherwise it gives the next state and
  what the component does to the outside. The locale \<open>event_invariant\<close> is the interface every
  event-driven component of the development is proved against: a state predicate that each step
  keeps, without a panic, while every output is of an allowed kind; its consequence for whole runs is
  proved here once.
\<close>

fun run_events :: "('s \<Rightarrow> 'e \<Rightarrow> ('s \<times> 'o list) go) \<Rightarrow> 's \<Rightarrow> 'e list \<Rightarrow> ('s \<times> 'o list) go" where
  "run_events step s [] = Ok (s, [])"
| "run_events step s (e # es) =
     go_bind (step s e) (\<lambda>(s, outs).
       go_bind (run_events step s es) (\<lambda>(s, outs'). Ok (s, outs @ outs')))"

lemma run_events_Cons_Ok:
  "step s e = Ok (s', outs) \<Longrightarrow> run_events step s' es = Ok (s'', outs') \<Longrightarrow>
   run_events step s (e # es) = Ok (s'', outs @ outs')"
  by simp

lemma run_events_append:
  "run_events step s (es @ es') =
     go_bind (run_events step s es) (\<lambda>(s, outs).
       go_bind (run_events step s es') (\<lambda>(s, outs'). Ok (s, outs @ outs')))"
proof (induction es arbitrary: s)
  case Nil
  then show ?case by (cases "run_events step s es'") auto
next
  case (Cons e es)
  show ?case
  proof (cases "step s e")
    case (Ok r)
    obtain s1 o1 where r: "r = (s1, o1)" by (cases r)
    show ?thesis
    proof (cases "run_events step s1 es")
      case Ok2: (Ok r2)
      obtain s2 o2 where r2: "r2 = (s2, o2)" by (cases r2)
      show ?thesis using Cons [of s1] Ok Ok2 by (cases "run_events step s2 es'") (auto simp: r r2)
    next
      case Panic
      then show ?thesis using Cons [of s1] Ok by (simp add: r)
    qed
  qed simp
qed

locale event_invariant =
  fixes step :: "'s \<Rightarrow> 'e \<Rightarrow> ('s \<times> 'o list) go"
    and inv :: "'s \<Rightarrow> bool"
    and out_ok :: "'o \<Rightarrow> bool"
  assumes step_ok: "inv s \<Longrightarrow> \<exists>s' outs. step s e = Ok (s', outs) \<and> inv s' \<and> (\<forall>x \<in> set outs. out_ok x)"
begin

lemma run_ok:
  "inv s \<Longrightarrow> \<exists>s' outs. run_events step s es = Ok (s', outs) \<and> inv s' \<and> (\<forall>x \<in> set outs. out_ok x)"
proof (induction es arbitrary: s)
  case (Cons e es)
  obtain s1 o1 where 1: "step s e = Ok (s1, o1)" "inv s1" "\<forall>x \<in> set o1. out_ok x"
    using step_ok [OF Cons.prems] by blast
  obtain s2 o2 where 2: "run_events step s1 es = Ok (s2, o2)" "inv s2" "\<forall>x \<in> set o2. out_ok x"
    using Cons.IH [OF 1(2)] by blast
  show ?case using 1 2 by (intro exI [of _ s2] exI [of _ "o1 @ o2"]) auto
qed simp

lemma run_no_panic: "inv s \<Longrightarrow> run_events step s es \<noteq> Panic"
  using run_ok [of s es] by auto

end

text \<open>
  The second interface: a component that implements an abstract specification over the same events.
  The specification has no panics; what an observer sees of the outputs is the specification's
  output.
\<close>

fun run_spec :: "('a \<Rightarrow> 'e \<Rightarrow> 'a \<times> 'b list) \<Rightarrow> 'a \<Rightarrow> 'e list \<Rightarrow> 'a \<times> 'b list" where
  "run_spec astep a [] = (a, [])"
| "run_spec astep a (e # es) =
     (let (a, seen) = astep a e; (a, seen') = run_spec astep a es in (a, seen @ seen'))"

locale refinement =
  fixes step :: "'s \<Rightarrow> 'e \<Rightarrow> ('s \<times> 'o list) go"
    and abs_state :: "'s \<Rightarrow> 'a"
    and astep :: "'a \<Rightarrow> 'e \<Rightarrow> 'a \<times> 'b list"
    and seen :: "'o list \<Rightarrow> 'b list"
  assumes seen_Nil: "seen [] = []"
    and seen_append: "seen (xs @ ys) = seen xs @ seen ys"
    and simulates: "\<exists>s' outs. step s e = Ok (s', outs) \<and> astep (abs_state s) e = (abs_state s', seen outs)"
begin

lemma run_refines:
  "\<exists>s' outs. run_events step s es = Ok (s', outs) \<and> run_spec astep (abs_state s) es = (abs_state s', seen outs)"
proof (induction es arbitrary: s)
  case (Cons e es)
  obtain s1 o1 where 1: "step s e = Ok (s1, o1)" "astep (abs_state s) e = (abs_state s1, seen o1)"
    using simulates by blast
  obtain s2 o2 where 2: "run_events step s1 es = Ok (s2, o2)" "run_spec astep (abs_state s1) es = (abs_state s2, seen o2)"
    using Cons.IH by blast
  show ?case using 1 2 by (intro exI [of _ s2] exI [of _ "o1 @ o2"]) (simp add: seen_append)
qed (simp add: seen_Nil)

end

end
