(* ===== verification/KeyStore.thy ===== *)
theory KeyStore
  imports Address Events "HOL-Library.Finite_Map"
begin

text \<open>
  \<^verbatim>\<open>src/ipv6rwc\<close>: the layer between IPv6 packets and keys. \<^verbatim>\<open>keyStore\<close> remembers which key belongs to an
  address or subnet, keeps the last packet for a destination whose key is being looked up, checks
  the addresses of packets in both directions, and answers packets that are too big with ICMPv6.
  Go's \<^verbatim>\<open>*keyInfo\<close> and \<^verbatim>\<open>*buffer\<close> are pointers into two tables of the state, because the timers compare
  pointers. What the code does to the outside (packets to the core, lookups, timers) is the list of
  \<open>ks_out\<close> each operation returns; a timer that fires is an operation of its own.
\<close>

section \<open>State\<close>

type_synonym ptr = nat
type_synonym timer = nat

record keyInfo =
  ki_key :: bytes
  ki_address :: address
  ki_subnet :: subnet
  ki_timeout :: "timer option"

record buffer =
  bf_packet :: bytes
  bf_timeout :: "timer option"

record keyStore =
  ks_address :: address
  ks_subnet :: subnet
  keyToInfo :: "(bytes, ptr) fmap"
  addrToInfo :: "(address, ptr) fmap"
  addrBuffer :: "(address, ptr) fmap"
  subnetToInfo :: "(subnet, ptr) fmap"
  subnetBuffer :: "(subnet, ptr) fmap"
  ks_mtu :: u64
  ks_infos :: "(ptr, keyInfo) fmap"
  ks_buffers :: "(ptr, buffer) fmap"
  ks_next :: ptr
  ks_timer :: timer

datatype ks_callback = ExpireInfo ptr | ExpireAddr address ptr | ExpireSubnet subnet ptr

datatype ks_out =
    WriteTo bytes bytes
  | SendLookup bytes
  | StopTimer timer
  | AfterFunc timer ks_callback

definition keyStore_init :: "bytes \<Rightarrow> keyStore go" where
  "keyStore_init publicKey =
     (case (AddrForKey publicKey, SubnetForKey publicKey) of
        (Some a, Some s) \<Rightarrow>
          Ok \<lparr>ks_address = a, ks_subnet = s, keyToInfo = fmempty, addrToInfo = fmempty,
            addrBuffer = fmempty, subnetToInfo = fmempty, subnetBuffer = fmempty, ks_mtu = 1280,
            ks_infos = fmempty, ks_buffers = fmempty, ks_next = 0, ks_timer = 0\<rparr>
      | _ \<Rightarrow> Panic)"

definition the_info :: "keyStore \<Rightarrow> ptr \<Rightarrow> keyInfo" where
  "the_info k p = the (fmlookup (ks_infos k) p)"

definition the_buffer :: "keyStore \<Rightarrow> ptr \<Rightarrow> buffer" where
  "the_buffer k p = the (fmlookup (ks_buffers k) p)"

definition stop_timer :: "timer option \<Rightarrow> ks_out list" where
  "stop_timer t = (case t of None \<Rightarrow> [] | Some t \<Rightarrow> [StopTimer t])"

section \<open>Known keys\<close>

definition resetTimeout :: "keyStore \<Rightarrow> ptr \<Rightarrow> keyStore \<times> ks_out list" where
  "resetTimeout k p =
     (let info = the_info k p; t = ks_timer k
      in (k\<lparr>ks_infos := fmupd p (info\<lparr>ki_timeout := Some t\<rparr>) (ks_infos k), ks_timer := t + 1\<rparr>,
          stop_timer (ki_timeout info) @ [AfterFunc t (ExpireInfo p)]))"

text \<open>The callback of \<^verbatim>\<open>resetTimeout\<close>'s timer.\<close>

definition fmdrop_if :: "('a, ptr) fmap \<Rightarrow> 'a \<Rightarrow> ptr \<Rightarrow> ('a, ptr) fmap" where
  "fmdrop_if m x p = (if fmlookup m x = Some p then fmdrop x m else m)"

definition expireInfo :: "keyStore \<Rightarrow> ptr \<Rightarrow> keyStore" where
  "expireInfo k p =
     (let info = the_info k p
      in k\<lparr>keyToInfo := fmdrop_if (keyToInfo k) (ki_key info) p,
           addrToInfo := fmdrop_if (addrToInfo k) (ki_address info) p,
           subnetToInfo := fmdrop_if (subnetToInfo k) (ki_subnet info) p\<rparr>)"

text \<open>The block of \<^verbatim>\<open>update\<close> that registers a new key; it returns the packets that were waiting.\<close>

definition learn :: "keyStore \<Rightarrow> bytes \<Rightarrow> address \<Rightarrow> subnet \<Rightarrow> keyStore \<times> ptr \<times> bytes list" where
  "learn k key a s =
     (let p = ks_next k;
          k = k\<lparr>ks_next := p + 1,
                ks_infos := fmupd p \<lparr>ki_key = key, ki_address = a, ki_subnet = s, ki_timeout = None\<rparr> (ks_infos k),
                keyToInfo := fmupd key p (keyToInfo k),
                addrToInfo := fmupd a p (addrToInfo k),
                subnetToInfo := fmupd s p (subnetToInfo k)\<rparr>;
          (k, packets) =
            (case fmlookup (addrBuffer k) a of
               Some b \<Rightarrow> (k\<lparr>addrBuffer := fmdrop a (addrBuffer k)\<rparr>, [bf_packet (the_buffer k b)])
             | None \<Rightarrow> (k, []));
          (k, packets) =
            (case fmlookup (subnetBuffer k) s of
               Some b \<Rightarrow> (k\<lparr>subnetBuffer := fmdrop s (subnetBuffer k)\<rparr>, packets @ [bf_packet (the_buffer k b)])
             | None \<Rightarrow> (k, packets))
      in (k, p, packets))"

definition update_key :: "keyStore \<Rightarrow> bytes \<Rightarrow> (keyStore \<times> ptr \<times> ks_out list) go" where
  "update_key k publicKey =
     (let kArray = array_of publicKeySize publicKey
      in go_bind
           (case fmlookup (keyToInfo k) kArray of
              Some p \<Rightarrow> Ok (k, p, [])
            | None \<Rightarrow>
                (case (AddrForKey kArray, SubnetForKey kArray) of
                   (Some a, Some s) \<Rightarrow> Ok (learn k kArray a s)
                 | _ \<Rightarrow> Panic))
           (\<lambda>(k, p, packets).
              let (k, outs) = resetTimeout k p
              in Ok (k, p, outs @ map (\<lambda>packet. WriteTo packet (ki_key (the_info k p))) packets)))"

section \<open>Packets to the network\<close>

text \<open>
  \<^verbatim>\<open>sendToAddress\<close> and \<^verbatim>\<open>sendToSubnet\<close>. The waiting packet is replaced in place when there is one.
\<close>

definition put_buffer :: "keyStore \<Rightarrow> ptr \<Rightarrow> bytes \<Rightarrow> ks_callback \<Rightarrow> keyStore \<times> ks_out list" where
  "put_buffer k b bs callback =
     (let buf = the_buffer k b; t = ks_timer k
      in (k\<lparr>ks_buffers := fmupd b (buf\<lparr>bf_packet := bs, bf_timeout := Some t\<rparr>) (ks_buffers k), ks_timer := t + 1\<rparr>,
          stop_timer (bf_timeout buf) @ [AfterFunc t callback]))"

definition new_buffer :: "keyStore \<Rightarrow> keyStore \<times> ptr" where
  "new_buffer k =
     (let b = ks_next k
      in (k\<lparr>ks_next := b + 1, ks_buffers := fmupd b \<lparr>bf_packet = [], bf_timeout = None\<rparr> (ks_buffers k)\<rparr>, b))"

definition sendToAddress :: "keyStore \<Rightarrow> address \<Rightarrow> bytes \<Rightarrow> keyStore \<times> ks_out list" where
  "sendToAddress k addr bs =
     (case fmlookup (addrToInfo k) addr of
        Some p \<Rightarrow>
          (let (k, outs) = resetTimeout k p in (k, outs @ [WriteTo bs (ki_key (the_info k p))]))
      | None \<Rightarrow>
          (let (k, b) =
             (case fmlookup (addrBuffer k) addr of
                Some b \<Rightarrow> (k, b)
              | None \<Rightarrow> (let (k, b) = new_buffer k in (k\<lparr>addrBuffer := fmupd addr b (addrBuffer k)\<rparr>, b)));
               (k, outs) = put_buffer k b bs (ExpireAddr addr b)
           in (k, outs @ [SendLookup (Address_GetKey addr)])))"

definition sendToSubnet :: "keyStore \<Rightarrow> subnet \<Rightarrow> bytes \<Rightarrow> keyStore \<times> ks_out list" where
  "sendToSubnet k subnet bs =
     (case fmlookup (subnetToInfo k) subnet of
        Some p \<Rightarrow>
          (let (k, outs) = resetTimeout k p in (k, outs @ [WriteTo bs (ki_key (the_info k p))]))
      | None \<Rightarrow>
          (let (k, b) =
             (case fmlookup (subnetBuffer k) subnet of
                Some b \<Rightarrow> (k, b)
              | None \<Rightarrow> (let (k, b) = new_buffer k in (k\<lparr>subnetBuffer := fmupd subnet b (subnetBuffer k)\<rparr>, b)));
               (k, outs) = put_buffer k b bs (ExpireSubnet subnet b)
           in (k, outs @ [SendLookup (Subnet_GetKey subnet)])))"

definition expireAddr :: "keyStore \<Rightarrow> address \<Rightarrow> ptr \<Rightarrow> keyStore" where
  "expireAddr k addr b = k\<lparr>addrBuffer := fmdrop_if (addrBuffer k) addr b\<rparr>"

definition expireSubnet :: "keyStore \<Rightarrow> subnet \<Rightarrow> ptr \<Rightarrow> keyStore" where
  "expireSubnet k subnet b = k\<lparr>subnetBuffer := fmdrop_if (subnetBuffer k) subnet b\<rparr>"

datatype rwc_error = ErrEmptyPacket | ErrNotIPv6 | ErrUndersized | ErrSource | ErrDestination

definition src_addr :: "bytes \<Rightarrow> address" where "src_addr bs = array_of 16 (drop 8 bs)"
definition dst_addr :: "bytes \<Rightarrow> address" where "dst_addr bs = array_of 16 (drop 24 bs)"
definition src_subnet :: "bytes \<Rightarrow> subnet" where "src_subnet bs = array_of 8 (drop 8 bs)"
definition dst_subnet :: "bytes \<Rightarrow> subnet" where "dst_subnet bs = array_of 8 (drop 24 bs)"

definition writePC :: "keyStore \<Rightarrow> bytes \<Rightarrow> (rwc_error + nat) \<times> keyStore \<times> ks_out list" where
  "writePC k bs =
     (if length bs = 0 then (Inl ErrEmptyPacket, k, [])
      else if bs ! 0 AND 0xf0 \<noteq> 0x60 then (Inl ErrNotIPv6, k, [])
      else if length bs < 40 then (Inl ErrUndersized, k, [])
      else if src_addr bs \<noteq> ks_address k \<and> src_subnet bs \<noteq> ks_subnet k then (Inl ErrSource, k, [])
      else if Address_IsValid (dst_addr bs) then (Inr (length bs), sendToAddress k (dst_addr bs) bs)
      else if Subnet_IsValid (dst_subnet bs) then (Inr (length bs), sendToSubnet k (dst_subnet bs) bs)
      else (Inl ErrDestination, k, []))"

section \<open>ICMPv6\<close>

record ipv6_header =
  h_Version :: nat
  h_TrafficClass :: nat
  h_FlowLabel :: nat
  h_PayloadLen :: nat
  h_NextHeader :: nat
  h_HopLimit :: nat
  h_Src :: bytes
  h_Dst :: bytes

definition ipv6Header_Marshal :: "ipv6_header \<Rightarrow> bytes" where
  "ipv6Header_Marshal h =
     [push_bit 4 (of_nat (h_Version h)) OR drop_bit 4 (of_nat (h_TrafficClass h)),
      push_bit 4 (of_nat (h_TrafficClass h)) OR of_nat (drop_bit 16 (h_FlowLabel h)),
      of_nat (drop_bit 8 (h_FlowLabel h)), of_nat (h_FlowLabel h)] @
     be16 (of_nat (h_PayloadLen h)) @ [of_nat (h_NextHeader h), of_nat (h_HopLimit h)] @
     array_of 16 (h_Src h) @ array_of 16 (h_Dst h)"

text \<open>
  \<^verbatim>\<open>icmp.Message.Marshal\<close> is a parameter: from the pseudo header's source and destination and the body
  of a packet-too-big message (the MTU and the data) to the message, or a failure.
\<close>

type_synonym icmp_marshal = "bytes \<Rightarrow> bytes \<Rightarrow> nat \<Rightarrow> bytes \<Rightarrow> bytes option"

definition CreateICMPv6 :: "icmp_marshal \<Rightarrow> bytes \<Rightarrow> bytes \<Rightarrow> nat \<Rightarrow> bytes \<Rightarrow> bytes option" where
  "CreateICMPv6 marshal dst src mtu data =
     (case marshal src dst mtu data of
        None \<Rightarrow> None
      | Some icmpMessageBuf \<Rightarrow>
          (let ipv6Header = \<lparr>h_Version = 6, h_TrafficClass = 0, h_FlowLabel = 0,
                 h_PayloadLen = length icmpMessageBuf, h_NextHeader = 58, h_HopLimit = 255,
                 h_Src = src, h_Dst = dst\<rparr>
           in Some (ipv6Header_Marshal ipv6Header @ icmpMessageBuf)))"

section \<open>Packets from the network\<close>

text \<open>
  One turn of \<^verbatim>\<open>readPC\<close>'s loop on a packet from a key: it is delivered to the reader (\<open>Some\<close> of the
  packet) or dropped.
\<close>

definition readPC_packet ::
  "icmp_marshal \<Rightarrow> keyStore \<Rightarrow> bytes \<Rightarrow> bytes \<Rightarrow> (bytes option \<times> keyStore \<times> ks_out list) go" where
  "readPC_packet marshal k bs from =
     (if length bs = 0 then Ok (None, k, [])
      else if bs ! 0 AND 0xf0 \<noteq> 0x60 then Ok (None, k, [])
      else if length bs < 40 then Ok (None, k, [])
      else if unat (ks_mtu k) < length bs then
        (let buf = array_of 512 bs; cn = min 512 (length bs)
         in case CreateICMPv6 marshal (take 16 (drop 8 buf)) (take 16 (drop 24 buf)) (unat (ks_mtu k)) (take cn buf) of
              None \<Rightarrow> Ok (None, k, [])
            | Some packet \<Rightarrow> Ok (None, snd (writePC k packet)))
      else if dst_addr bs \<noteq> ks_address k \<and> dst_subnet bs \<noteq> ks_subnet k then Ok (None, k, [])
      else
        go_bind (update_key k from) (\<lambda>(k, p, outs).
          if src_addr bs \<noteq> ki_address (the_info k p) \<and> src_subnet bs \<noteq> ki_subnet (the_info k p)
          then Ok (None, k, outs)
          else Ok (Some bs, k, outs)))"

text \<open>
  \<^verbatim>\<open>readPC\<close> over what the core's \<^verbatim>\<open>ReadFrom\<close> returns: an error ends it, a packet that is delivered ends it,
  any other packet is passed over. When the list runs out it is still waiting (\<open>None\<close>). The
  caller's buffer has room for \<open>n\<close> bytes.
\<close>

datatype read_event = ReadError | ReadPacket bytes bytes

fun readPC ::
  "icmp_marshal \<Rightarrow> nat \<Rightarrow> keyStore \<Rightarrow> read_event list \<Rightarrow> ((unit + bytes) option \<times> keyStore \<times> ks_out list) go" where
  "readPC marshal n k [] = Ok (None, k, [])"
| "readPC marshal n k (ReadError # es) = Ok (Some (Inl ()), k, [])"
| "readPC marshal n k (ReadPacket bs from # es) =
     go_bind (readPC_packet marshal k bs from) (\<lambda>(res, k, outs).
       case res of
         Some packet \<Rightarrow> Ok (Some (Inr (take n packet)), k, outs)
       | None \<Rightarrow>
           go_bind (readPC marshal n k es) (\<lambda>(res, k, outs'). Ok (res, k, outs @ outs')))"

section \<open>Maximum sizes\<close>

definition SetMTU :: "u64 \<Rightarrow> keyStore \<Rightarrow> u64 \<Rightarrow> keyStore" where
  "SetMTU maxMTU k mtu =
     (let mtu = (if mtu > maxMTU then maxMTU else mtu);
          mtu = (if mtu < 1280 then 1280 else mtu)
      in k\<lparr>ks_mtu := mtu\<rparr>)"

section \<open>Invariant\<close>

definition info_ok :: "keyInfo \<Rightarrow> bool" where
  "info_ok i \<longleftrightarrow> length (ki_key i) = 32 \<and> AddrForKey (ki_key i) = Some (ki_address i)
     \<and> SubnetForKey (ki_key i) = Some (ki_subnet i)"

text \<open>
  Every table leads to an entry that belongs there: keys and addresses to an info of that key and
  address, destinations to a waiting packet for that destination.
\<close>

definition points :: "('x, ptr) fmap \<Rightarrow> (ptr, 'i) fmap \<Rightarrow> ('i \<Rightarrow> 'x) \<Rightarrow> bool" where
  "points m infos f \<longleftrightarrow> (\<forall>x p. fmlookup m x = Some p \<longrightarrow> (\<exists>i. fmlookup infos p = Some i \<and> f i = x))"

lemma pointsD: "points m infos f \<Longrightarrow> fmlookup m x = Some p \<Longrightarrow> \<exists>i. fmlookup infos p = Some i \<and> f i = x"
  by (simp add: points_def)

lemma points_upd:
  assumes "points m infos f" "fmlookup infos p = Some i" "f i' = f i"
  shows "points m (fmupd p i' infos) f"
  unfolding points_def
proof (intro allI impI)
  fix x q assume "fmlookup m x = Some q"
  from pointsD [OF assms(1) this] show "\<exists>i. fmlookup (fmupd p i' infos) q = Some i \<and> f i = x"
    using assms(2,3) by (cases "q = p") auto
qed

lemma points_new:
  assumes "points m infos f" "fmlookup infos p = None" "f i = x"
  shows "points (fmupd x p m) (fmupd p i infos) f"
  unfolding points_def
proof (intro allI impI)
  fix y q assume q: "fmlookup (fmupd x p m) y = Some q"
  show "\<exists>j. fmlookup (fmupd p i infos) q = Some j \<and> f j = y"
  proof (cases "y = x")
    case False
    then obtain j where "fmlookup infos q = Some j" "f j = y" using pointsD [OF assms(1)] q by auto
    then show ?thesis using assms(2) by (cases "q = p") auto
  qed (use q assms(3) in auto)
qed

lemma points_sub:
  "points m infos f \<Longrightarrow> (\<And>x p. fmlookup m' x = Some p \<Longrightarrow> fmlookup m x = Some p) \<Longrightarrow> points m' infos f"
  unfolding points_def by blast

definition infos_inv :: "keyStore \<Rightarrow> bool" where
  "infos_inv k \<longleftrightarrow> points (keyToInfo k) (ks_infos k) ki_key \<and> points (addrToInfo k) (ks_infos k) ki_address
     \<and> points (subnetToInfo k) (ks_infos k) ki_subnet
     \<and> (\<forall>p i. fmlookup (ks_infos k) p = Some i \<longrightarrow> info_ok i \<and> p < ks_next k)"

definition buffers_inv :: "keyStore \<Rightarrow> bool" where
  "buffers_inv k \<longleftrightarrow>
     (\<forall>a b. fmlookup (addrBuffer k) a = Some b \<longrightarrow> Address_IsValid a \<and>
        (\<exists>f. fmlookup (ks_buffers k) b = Some f \<and> dst_addr (bf_packet f) = a)) \<and>
     (\<forall>s b. fmlookup (subnetBuffer k) s = Some b \<longrightarrow> Subnet_IsValid s \<and>
        (\<exists>f. fmlookup (ks_buffers k) b = Some f \<and> dst_subnet (bf_packet f) = s)) \<and>
     (\<forall>b f. fmlookup (ks_buffers k) b = Some f \<longrightarrow> b < ks_next k)"

definition ks_inv :: "keyStore \<Rightarrow> bool" where
  "ks_inv k \<longleftrightarrow> infos_inv k \<and> buffers_inv k"

text \<open>A packet handed to the core for a key whose address or subnet is the packet's destination.\<close>

definition well_sent :: "ks_out \<Rightarrow> bool" where
  "well_sent ev \<longleftrightarrow> (\<forall>bs key. ev = WriteTo bs key \<longrightarrow> length key = 32 \<and>
     (AddrForKey key = Some (dst_addr bs) \<or> SubnetForKey key = Some (dst_subnet bs)))"

lemma well_sent_simps [simp]:
  "well_sent (SendLookup x)" "well_sent (StopTimer t)" "well_sent (AfterFunc t c)"
  "well_sent (WriteTo bs key) \<longleftrightarrow> length key = 32 \<and>
     (AddrForKey key = Some (dst_addr bs) \<or> SubnetForKey key = Some (dst_subnet bs))"
  by (simp_all add: well_sent_def)

lemma stop_timer_sent [simp]: "ev \<in> set (stop_timer t) \<Longrightarrow> well_sent ev"
  by (auto simp: stop_timer_def split: option.splits)

lemma infos_invD:
  assumes "infos_inv k"
  shows "fmlookup (keyToInfo k) x = Some p \<Longrightarrow> \<exists>i. fmlookup (ks_infos k) p = Some i \<and> ki_key i = x"
    "fmlookup (addrToInfo k) a = Some p \<Longrightarrow> \<exists>i. fmlookup (ks_infos k) p = Some i \<and> ki_address i = a"
    "fmlookup (subnetToInfo k) s = Some p \<Longrightarrow> \<exists>i. fmlookup (ks_infos k) p = Some i \<and> ki_subnet i = s"
    "fmlookup (ks_infos k) p = Some i \<Longrightarrow> info_ok i \<and> p < ks_next k"
  using assms unfolding infos_inv_def by (blast dest: pointsD)+

lemma buffers_invD:
  assumes "buffers_inv k"
  shows "fmlookup (addrBuffer k) a = Some b \<Longrightarrow>
      Address_IsValid a \<and> (\<exists>f. fmlookup (ks_buffers k) b = Some f \<and> dst_addr (bf_packet f) = a)"
    "fmlookup (subnetBuffer k) s = Some b \<Longrightarrow>
      Subnet_IsValid s \<and> (\<exists>f. fmlookup (ks_buffers k) b = Some f \<and> dst_subnet (bf_packet f) = s)"
    "fmlookup (ks_buffers k) b = Some f \<Longrightarrow> b < ks_next k"
  using assms unfolding buffers_inv_def by blast+

lemma resetTimeout_infos:
  assumes "infos_inv k" "fmlookup (ks_infos k) p = Some i" "resetTimeout k p = (k', outs)"
  shows "infos_inv k' \<and> fmlookup (ks_infos k') p = Some (i\<lparr>ki_timeout := Some (ks_timer k)\<rparr>)"
proof -
  have k': "k' = k\<lparr>ks_infos := fmupd p (i\<lparr>ki_timeout := Some (ks_timer k)\<rparr>) (ks_infos k), ks_timer := ks_timer k + 1\<rparr>"
    using assms(2,3) by (simp add: resetTimeout_def the_info_def Let_def)
  have "info_ok (i\<lparr>ki_timeout := Some (ks_timer k)\<rparr>)" "p < ks_next k"
    using infos_invD(4) [OF assms(1,2)] by (simp_all add: info_ok_def)
  then show ?thesis using assms(1) unfolding infos_inv_def k' by (auto intro: points_upd [OF _ assms(2)])
qed

lemma resetTimeout_frame:
  assumes "resetTimeout k p = (k', outs)"
  shows "addrBuffer k' = addrBuffer k \<and> subnetBuffer k' = subnetBuffer k \<and> ks_buffers k' = ks_buffers k
    \<and> ks_next k' = ks_next k \<and> keyToInfo k' = keyToInfo k \<and> addrToInfo k' = addrToInfo k \<and> subnetToInfo k' = subnetToInfo k
    \<and> ks_address k' = ks_address k \<and> ks_subnet k' = ks_subnet k \<and> ks_mtu k' = ks_mtu k
    \<and> (\<forall>ev \<in> set outs. well_sent ev)"
  using assms by (auto simp: resetTimeout_def Let_def)

lemma buffers_inv_cong:
  assumes "buffers_inv k" "addrBuffer k' = addrBuffer k" "subnetBuffer k' = subnetBuffer k"
    "ks_buffers k' = ks_buffers k" "ks_next k \<le> ks_next k'"
  shows "buffers_inv k'"
  using assms(1,5) unfolding buffers_inv_def assms(2-4) using less_le_trans by blast

lemma infos_inv_cong:
  assumes "infos_inv k" "keyToInfo k' = keyToInfo k" "addrToInfo k' = addrToInfo k"
    "subnetToInfo k' = subnetToInfo k" "ks_infos k' = ks_infos k" "ks_next k \<le> ks_next k'"
  shows "infos_inv k'"
  using assms(1,6) unfolding infos_inv_def assms(2-5) using less_le_trans by blast

lemma fmdrop_if_sub: "fmlookup (fmdrop_if m x p) y = Some q \<Longrightarrow> fmlookup m y = Some q"
  by (auto simp: fmdrop_if_def split: if_splits)

lemma expireInfo_inv:
  assumes "ks_inv k"
  shows "ks_inv (expireInfo k p)"
proof -
  have "infos_inv (expireInfo k p)"
    using assms unfolding ks_inv_def infos_inv_def expireInfo_def Let_def
    by (auto intro: points_sub dest: fmdrop_if_sub)
  moreover have "buffers_inv (expireInfo k p)"
    by (rule buffers_inv_cong [of k]) (use assms in \<open>simp_all add: ks_inv_def expireInfo_def Let_def\<close>)
  ultimately show ?thesis by (simp add: ks_inv_def)
qed

lemma expire_buffer_inv:
  assumes "ks_inv k"
  shows "ks_inv (expireAddr k a b)" "ks_inv (expireSubnet k s b)"
proof -
  have "infos_inv (expireAddr k a b)" "infos_inv (expireSubnet k s b)"
    by (rule infos_inv_cong [of k], use assms in \<open>simp_all add: ks_inv_def expireAddr_def expireSubnet_def\<close>)+
  moreover have "buffers_inv (expireAddr k a b)" "buffers_inv (expireSubnet k s b)"
    using assms unfolding ks_inv_def buffers_inv_def expireAddr_def expireSubnet_def by (auto dest: fmdrop_if_sub)
  ultimately show "ks_inv (expireAddr k a b)" "ks_inv (expireSubnet k s b)" by (simp_all add: ks_inv_def)
qed

lemma buffers_inv_sub:
  assumes "buffers_inv k" "\<And>a b. fmlookup (addrBuffer k') a = Some b \<Longrightarrow> fmlookup (addrBuffer k) a = Some b"
    "\<And>s b. fmlookup (subnetBuffer k') s = Some b \<Longrightarrow> fmlookup (subnetBuffer k) s = Some b"
    "ks_buffers k' = ks_buffers k" "ks_next k \<le> ks_next k'"
  shows "buffers_inv k'"
  unfolding buffers_inv_def assms(4)
proof (intro conjI allI impI)
  fix a b assume "fmlookup (addrBuffer k') a = Some b"
  from buffers_invD(1) [OF assms(1) assms(2) [OF this]]
  show "Address_IsValid a" "\<exists>f. fmlookup (ks_buffers k) b = Some f \<and> dst_addr (bf_packet f) = a" by simp_all
next
  fix s b assume "fmlookup (subnetBuffer k') s = Some b"
  from buffers_invD(2) [OF assms(1) assms(3) [OF this]]
  show "Subnet_IsValid s" "\<exists>f. fmlookup (ks_buffers k) b = Some f \<and> dst_subnet (bf_packet f) = s" by simp_all
next
  fix b f assume "fmlookup (ks_buffers k) b = Some f"
  then show "b < ks_next k'" using buffers_invD(3) [OF assms(1)] assms(5) by (meson less_le_trans)
qed

lemma infos_inv_learn:
  assumes k: "infos_inv k" and i: "info_ok i" "ki_key i = key" "ki_address i = a" "ki_subnet i = s"
  shows "infos_inv (k\<lparr>ks_next := ks_next k + 1, ks_infos := fmupd (ks_next k) i (ks_infos k),
     keyToInfo := fmupd key (ks_next k) (keyToInfo k), addrToInfo := fmupd a (ks_next k) (addrToInfo k),
     subnetToInfo := fmupd s (ks_next k) (subnetToInfo k)\<rparr>)"
proof -
  have fresh: "fmlookup (ks_infos k) (ks_next k) = None"
    using infos_invD(4) [OF k, of "ks_next k"] by (cases "fmlookup (ks_infos k) (ks_next k)") auto
  show ?thesis
    using k i unfolding infos_inv_def by (auto intro!: points_new fresh simp: less_Suc_eq)
qed

lemma learn_ok:
  assumes k: "ks_inv k" and key: "length key = 32" "AddrForKey key = Some a" "SubnetForKey key = Some s"
    and l: "learn k key a s = (k', p, packets)"
  shows "ks_inv k' \<and> (\<exists>i. fmlookup (ks_infos k') p = Some i \<and> ki_key i = key)
    \<and> (\<forall>bs \<in> set packets. dst_addr bs = a \<or> dst_subnet bs = s)"
proof -
  let ?i = "\<lparr>ki_key = key, ki_address = a, ki_subnet = s, ki_timeout = None\<rparr>"
  let ?k1 = "k\<lparr>ks_next := ks_next k + 1, ks_infos := fmupd (ks_next k) ?i (ks_infos k),
     keyToInfo := fmupd key (ks_next k) (keyToInfo k), addrToInfo := fmupd a (ks_next k) (addrToInfo k),
     subnetToInfo := fmupd s (ks_next k) (subnetToInfo k)\<rparr>"
  have bi: "buffers_inv k" and ii: "infos_inv ?k1"
    using k infos_inv_learn [of k ?i key a s] key by (simp_all add: ks_inv_def info_ok_def)
  have eqs: "p = ks_next k" "ks_infos k' = ks_infos ?k1" "keyToInfo k' = keyToInfo ?k1" "addrToInfo k' = addrToInfo ?k1"
    "subnetToInfo k' = subnetToInfo ?k1" "ks_next k' = ks_next ?k1" "ks_buffers k' = ks_buffers k"
    "addrBuffer k' = fmdrop a (addrBuffer k) \<or> addrBuffer k' = addrBuffer k"
    "subnetBuffer k' = fmdrop s (subnetBuffer k) \<or> subnetBuffer k' = subnetBuffer k"
    using l by (auto simp: learn_def Let_def split: option.splits)
  have "infos_inv k'" by (rule infos_inv_cong [OF ii]) (use eqs in simp_all)
  moreover have "buffers_inv k'"
    by (rule buffers_inv_sub [OF bi]) (use eqs in \<open>auto split: if_splits\<close>)
  moreover have "dst_addr bs = a \<or> dst_subnet bs = s" if "bs \<in> set packets" for bs
    using that l buffers_invD(1) [OF bi, of a] buffers_invD(2) [OF bi, of s]
    by (auto simp: learn_def Let_def the_buffer_def split: option.splits)
  ultimately show ?thesis using eqs by (auto simp: ks_inv_def)
qed

lemma update_key_ok:
  assumes k: "ks_inv k"
  shows "\<exists>k' p outs i. update_key k publicKey = Ok (k', p, outs) \<and> ks_inv k' \<and> (\<forall>ev \<in> set outs. well_sent ev)
    \<and> fmlookup (ks_infos k') p = Some i \<and> ki_key i = array_of 32 publicKey"
proof -
  let ?key = "array_of 32 publicKey"
  have l: "length ?key = 32" by simp
  obtain a s where as: "AddrForKey ?key = Some a" "SubnetForKey ?key = Some s"
    using AddrForKey_eq [OF l] by (simp add: SubnetForKey_def Let_def)
  obtain k1 p packets i where 1: "(case fmlookup (keyToInfo k) ?key of Some p \<Rightarrow> Ok (k, p, [])
       | None \<Rightarrow> (case (AddrForKey ?key, SubnetForKey ?key) of (Some a, Some s) \<Rightarrow> Ok (learn k ?key a s) | _ \<Rightarrow> Panic))
       = Ok (k1, p, packets)" "ks_inv k1" "fmlookup (ks_infos k1) p = Some i" "ki_key i = ?key"
       "\<forall>bs \<in> set packets. dst_addr bs = a \<or> dst_subnet bs = s"
  proof (cases "fmlookup (keyToInfo k) ?key")
    case None
    obtain k1 p packets where "learn k ?key a s = (k1, p, packets)" by (cases "learn k ?key a s")
    then show ?thesis using learn_ok [OF k l as] that None as by force
  next
    case (Some p)
    then show ?thesis using k that [of k p "[]"] infos_invD(1) [of k] by (auto simp: ks_inv_def)
  qed
  obtain k2 outs where r: "resetTimeout k1 p = (k2, outs)" by (cases "resetTimeout k1 p")
  note f = resetTimeout_frame [OF r]
  have i2: "infos_inv k2" "fmlookup (ks_infos k2) p = Some (i\<lparr>ki_timeout := Some (ks_timer k1)\<rparr>)"
    using resetTimeout_infos [OF _ 1(3) r] 1(2) by (simp_all add: ks_inv_def)
  have "buffers_inv k2" by (rule buffers_inv_cong [of k1]) (use f 1(2) in \<open>simp_all add: ks_inv_def\<close>)
  moreover have "update_key k publicKey = Ok (k2, p, outs @ map (\<lambda>packet. WriteTo packet ?key) packets)"
    using 1(1,4) r i2(2) by (simp add: update_key_def Let_def the_info_def)
  moreover have "well_sent ev" if "ev \<in> set (outs @ map (\<lambda>packet. WriteTo packet ?key) packets)" for ev
    using that f 1(5) as l by auto
  ultimately show ?thesis using i2 1(4) by (auto simp: ks_inv_def)
qed

text \<open>Sending to a known key.\<close>

lemma send_known:
  assumes k: "ks_inv k" and p: "fmlookup (ks_infos k) p = Some i"
    and d: "ki_address i = dst_addr bs \<or> ki_subnet i = dst_subnet bs" and r: "resetTimeout k p = (k', outs)"
  shows "ks_inv k' \<and> (\<forall>ev \<in> set (outs @ [WriteTo bs (ki_key (the_info k' p))]). well_sent ev)"
proof -
  note f = resetTimeout_frame [OF r]
  have i2: "infos_inv k'" "fmlookup (ks_infos k') p = Some (i\<lparr>ki_timeout := Some (ks_timer k)\<rparr>)"
    using resetTimeout_infos [OF _ p r] k by (simp_all add: ks_inv_def)
  have "buffers_inv k'" by (rule buffers_inv_cong [of k]) (use f k in \<open>simp_all add: ks_inv_def\<close>)
  moreover have "info_ok i" using infos_invD(4) [of k p i] k p by (simp add: ks_inv_def)
  then have "well_sent (WriteTo bs (ki_key (the_info k' p)))"
    using d by (auto simp: the_info_def i2(2) info_ok_def)
  ultimately show ?thesis using f i2(1) by (auto simp: ks_inv_def)
qed

text \<open>Keeping a packet for a destination whose key is not known.\<close>

lemma buffers_put:
  assumes k: "buffers_inv k" and b: "b < ks_next k"
    and a: "\<And>a. fmlookup (addrBuffer k') a = Some b \<Longrightarrow> Address_IsValid a \<and> dst_addr (bf_packet f) = a"
      "\<And>s. fmlookup (subnetBuffer k') s = Some b \<Longrightarrow> Subnet_IsValid s \<and> dst_subnet (bf_packet f) = s"
    and other: "\<And>a c. c \<noteq> b \<Longrightarrow> fmlookup (addrBuffer k') a = Some c \<Longrightarrow> fmlookup (addrBuffer k) a = Some c"
      "\<And>s c. c \<noteq> b \<Longrightarrow> fmlookup (subnetBuffer k') s = Some c \<Longrightarrow> fmlookup (subnetBuffer k) s = Some c"
    and eqs: "ks_buffers k' = fmupd b f (ks_buffers k)" "ks_next k' = ks_next k"
  shows "buffers_inv k'"
  unfolding buffers_inv_def eqs
proof (intro conjI allI impI)
  fix a c assume l: "fmlookup (addrBuffer k') a = Some c"
  show "Address_IsValid a" "\<exists>g. fmlookup (fmupd b f (ks_buffers k)) c = Some g \<and> dst_addr (bf_packet g) = a"
    using a(1) buffers_invD(1) [OF k other(1) [OF _ l]] l by (cases "c = b"; auto)+
next
  fix s c assume l: "fmlookup (subnetBuffer k') s = Some c"
  show "Subnet_IsValid s" "\<exists>g. fmlookup (fmupd b f (ks_buffers k)) c = Some g \<and> dst_subnet (bf_packet g) = s"
    using a(2) buffers_invD(2) [OF k other(2) [OF _ l]] l by (cases "c = b"; auto)+
next
  fix c g assume "fmlookup (fmupd b f (ks_buffers k)) c = Some g"
  then show "c < ks_next k" using b buffers_invD(3) [OF k] by (cases "c = b") auto
qed

text \<open>An address and a subnet never share a buffer: they differ in the first byte of the destination.\<close>

lemma dst_disjoint: "Address_IsValid (dst_addr bs) \<Longrightarrow> \<not> Subnet_IsValid (dst_subnet bs)"
proof -
  assume "Address_IsValid (dst_addr bs)"
  moreover have "dst_subnet bs ! 0 = dst_addr bs ! 0"
    by (simp add: dst_subnet_def dst_addr_def nth_array_of)
  ultimately show ?thesis by (simp add: Address_IsValid_def Subnet_IsValid_def GetPrefix_def)
qed

lemma new_buffer_inv:
  assumes k: "buffers_inv k" and n: "new_buffer k = (k', b)"
  shows "buffers_inv k' \<and> b < ks_next k' \<and> addrBuffer k' = addrBuffer k \<and> subnetBuffer k' = subnetBuffer k
    \<and> fmlookup (addrBuffer k) a \<noteq> Some b \<and> fmlookup (subnetBuffer k) s \<noteq> Some b"
proof -
  have old: "fmlookup (ks_buffers k) c = Some f \<Longrightarrow> c < b" for c f
    using n buffers_invD(3) [OF k] by (simp add: new_buffer_def Let_def)
  have fresh: "fmlookup (addrBuffer k) a \<noteq> Some b" "fmlookup (subnetBuffer k) s \<noteq> Some b" for a s
    using buffers_invD(1) [OF k] buffers_invD(2) [OF k] old by (metis less_irrefl)+
  have k': "k' = k\<lparr>ks_next := b + 1, ks_buffers := fmupd b \<lparr>bf_packet = [], bf_timeout = None\<rparr> (ks_buffers k)\<rparr>" "b = ks_next k"
    using n by (auto simp: new_buffer_def Let_def)
  have "buffers_inv (k\<lparr>ks_next := b + 1\<rparr>)" by (rule buffers_inv_cong [OF k]) (simp_all add: k'(2))
  then have "buffers_inv k'"
    by (rule buffers_put [of "k\<lparr>ks_next := b + 1\<rparr>" b]) (use fresh in \<open>simp_all add: k'(1)\<close>)
  then show ?thesis using fresh by (simp add: k'(1))
qed

lemma new_buffer_infos:
  assumes "infos_inv k" "new_buffer k = (k', b)"
  shows "infos_inv k'"
  by (rule infos_inv_cong [OF assms(1)]) (use assms(2) in \<open>auto simp: new_buffer_def Let_def\<close>)

lemma put_buffer_frame:
  assumes "put_buffer k b bs callback = (k', outs)"
  shows "\<exists>f. ks_buffers k' = fmupd b f (ks_buffers k) \<and> bf_packet f = bs \<and> addrBuffer k' = addrBuffer k
    \<and> subnetBuffer k' = subnetBuffer k \<and> ks_next k' = ks_next k \<and> keyToInfo k' = keyToInfo k \<and> addrToInfo k' = addrToInfo k
    \<and> subnetToInfo k' = subnetToInfo k \<and> ks_infos k' = ks_infos k \<and> (\<forall>ev \<in> set outs. well_sent ev)"
  using assms by (intro exI [of _ "(the_buffer k b)\<lparr>bf_packet := bs, bf_timeout := Some (ks_timer k)\<rparr>"])
    (auto simp: put_buffer_def Let_def)

lemma put_buffer_infos:
  assumes "infos_inv k" "put_buffer k b bs callback = (k', outs)"
  shows "infos_inv k'"
  by (rule infos_inv_cong [OF assms(1)]) (use put_buffer_frame [OF assms(2)] in auto)

lemma hold_address:
  assumes k: "buffers_inv k" "infos_inv k" and a: "Address_IsValid (dst_addr bs)"
    and kb: "(case fmlookup (addrBuffer k) (dst_addr bs) of Some b \<Rightarrow> (k, b)
      | None \<Rightarrow> (let (k, b) = new_buffer k in (k\<lparr>addrBuffer := fmupd (dst_addr bs) b (addrBuffer k)\<rparr>, b))) = (k1, b)"
    and p: "put_buffer k1 b bs callback = (k2, outs)"
  shows "ks_inv k2"
proof -
  obtain f where f: "ks_buffers k2 = fmupd b f (ks_buffers k1)" "bf_packet f = bs" "addrBuffer k2 = addrBuffer k1"
    "subnetBuffer k2 = subnetBuffer k1" "ks_next k2 = ks_next k1"
    using put_buffer_frame [OF p] by blast
  have "buffers_inv k2 \<and> infos_inv k1"
  proof (cases "fmlookup (addrBuffer k) (dst_addr bs)")
    case (Some b0)
    then have e: "k1 = k" "b = b0" using kb by auto
    obtain g where g: "fmlookup (ks_buffers k) b = Some g" "dst_addr (bf_packet g) = dst_addr bs"
      using buffers_invD(1) [OF k(1) Some] e by blast
    have "buffers_inv k2"
    proof (rule buffers_put [OF k(1), of b k2 f])
      show "b < ks_next k" by (rule buffers_invD(3) [OF k(1) g(1)])
      show "Address_IsValid x \<and> dst_addr (bf_packet f) = x" if "fmlookup (addrBuffer k2) x = Some b" for x
        using that buffers_invD(1) [OF k(1), of x b] g f e by simp
      show "Subnet_IsValid x \<and> dst_subnet (bf_packet f) = x" if "fmlookup (subnetBuffer k2) x = Some b" for x
        using that buffers_invD(2) [OF k(1), of x b] g f e dst_disjoint [of "bf_packet g"] a by auto
    qed (use f e in simp_all)
    then show ?thesis using k(2) e by simp
  next
    case None
    obtain k0 where n: "new_buffer k = (k0, b)" "k1 = k0\<lparr>addrBuffer := fmupd (dst_addr bs) b (addrBuffer k0)\<rparr>"
      using kb None by (auto split: prod.splits)
    note nb = new_buffer_inv [OF k(1) n(1)]
    have "buffers_inv k2"
    proof (rule buffers_put [of k0 b k2 f])
      show "Address_IsValid x \<and> dst_addr (bf_packet f) = x" if "fmlookup (addrBuffer k2) x = Some b" for x
        using that nb f n(2) a by (auto split: if_splits)
      show "fmlookup (addrBuffer k0) x = Some c" if "c \<noteq> b" "fmlookup (addrBuffer k2) x = Some c" for x c
        using that f n(2) by (auto split: if_splits)
    qed (use nb f n(2) in auto)
    moreover have "infos_inv k1"
      by (rule infos_inv_cong [OF new_buffer_infos [OF k(2) n(1)]]) (simp_all add: n(2))
    ultimately show ?thesis by simp
  qed
  then show ?thesis using put_buffer_infos [OF _ p] by (simp add: ks_inv_def)
qed

lemma hold_subnet:
  assumes k: "buffers_inv k" "infos_inv k" and a: "Subnet_IsValid (dst_subnet bs)"
    and kb: "(case fmlookup (subnetBuffer k) (dst_subnet bs) of Some b \<Rightarrow> (k, b)
      | None \<Rightarrow> (let (k, b) = new_buffer k in (k\<lparr>subnetBuffer := fmupd (dst_subnet bs) b (subnetBuffer k)\<rparr>, b))) = (k1, b)"
    and p: "put_buffer k1 b bs callback = (k2, outs)"
  shows "ks_inv k2"
proof -
  obtain f where f: "ks_buffers k2 = fmupd b f (ks_buffers k1)" "bf_packet f = bs" "addrBuffer k2 = addrBuffer k1"
    "subnetBuffer k2 = subnetBuffer k1" "ks_next k2 = ks_next k1"
    using put_buffer_frame [OF p] by blast
  have "buffers_inv k2 \<and> infos_inv k1"
  proof (cases "fmlookup (subnetBuffer k) (dst_subnet bs)")
    case (Some b0)
    then have e: "k1 = k" "b = b0" using kb by auto
    obtain g where g: "fmlookup (ks_buffers k) b = Some g" "dst_subnet (bf_packet g) = dst_subnet bs"
      using buffers_invD(2) [OF k(1) Some] e by blast
    have "buffers_inv k2"
    proof (rule buffers_put [OF k(1), of b k2 f])
      show "b < ks_next k" by (rule buffers_invD(3) [OF k(1) g(1)])
      show "Address_IsValid x \<and> dst_addr (bf_packet f) = x" if "fmlookup (addrBuffer k2) x = Some b" for x
        using that buffers_invD(1) [OF k(1), of x b] g f e dst_disjoint [of "bf_packet g"] a by auto
      show "Subnet_IsValid x \<and> dst_subnet (bf_packet f) = x" if "fmlookup (subnetBuffer k2) x = Some b" for x
        using that buffers_invD(2) [OF k(1), of x b] g f e by simp
    qed (use f e in simp_all)
    then show ?thesis using k(2) e by simp
  next
    case None
    obtain k0 where n: "new_buffer k = (k0, b)" "k1 = k0\<lparr>subnetBuffer := fmupd (dst_subnet bs) b (subnetBuffer k0)\<rparr>"
      using kb None by (auto split: prod.splits)
    note nb = new_buffer_inv [OF k(1) n(1)]
    have "buffers_inv k2"
    proof (rule buffers_put [of k0 b k2 f])
      show "Subnet_IsValid x \<and> dst_subnet (bf_packet f) = x" if "fmlookup (subnetBuffer k2) x = Some b" for x
        using that nb f n(2) a by (auto split: if_splits)
      show "fmlookup (subnetBuffer k0) x = Some c" if "c \<noteq> b" "fmlookup (subnetBuffer k2) x = Some c" for x c
        using that f n(2) by (auto split: if_splits)
    qed (use nb f n(2) in auto)
    moreover have "infos_inv k1"
      by (rule infos_inv_cong [OF new_buffer_infos [OF k(2) n(1)]]) (simp_all add: n(2))
    ultimately show ?thesis by simp
  qed
  then show ?thesis using put_buffer_infos [OF _ p] by (simp add: ks_inv_def)
qed

lemma sendToAddress_ok:
  assumes k: "ks_inv k" and a: "Address_IsValid (dst_addr bs)" and s: "sendToAddress k (dst_addr bs) bs = (k', outs)"
  shows "ks_inv k' \<and> (\<forall>ev \<in> set outs. well_sent ev)"
proof (cases "fmlookup (addrToInfo k) (dst_addr bs)")
  case (Some p)
  then obtain i where i: "fmlookup (ks_infos k) p = Some i" "ki_address i = dst_addr bs"
    using infos_invD(2) [OF _ Some] k by (auto simp: ks_inv_def)
  obtain k1 o1 where r: "resetTimeout k p = (k1, o1)" by (cases "resetTimeout k p")
  have "k' = k1" "outs = o1 @ [WriteTo bs (ki_key (the_info k1 p))]" using s Some r by (auto simp: sendToAddress_def)
  then show ?thesis using send_known [OF k i(1) _ r] i(2) by auto
next
  case None
  obtain k1 b where kb: "(case fmlookup (addrBuffer k) (dst_addr bs) of Some b \<Rightarrow> (k, b)
      | None \<Rightarrow> (let (k, b) = new_buffer k in (k\<lparr>addrBuffer := fmupd (dst_addr bs) b (addrBuffer k)\<rparr>, b))) = (k1, b)"
    by (rule prod.exhaust)
  obtain k2 o2 where p: "put_buffer k1 b bs (ExpireAddr (dst_addr bs) b) = (k2, o2)" by (rule prod.exhaust)
  have "k' = k2" "outs = o2 @ [SendLookup (Address_GetKey (dst_addr bs))]"
    using s None kb p by (auto simp: sendToAddress_def Let_def)
  moreover have "\<forall>ev \<in> set o2. well_sent ev" using put_buffer_frame [OF p] by blast
  ultimately show ?thesis using hold_address [OF _ _ a kb p] k by (auto simp: ks_inv_def)
qed

lemma sendToSubnet_ok:
  assumes k: "ks_inv k" and a: "Subnet_IsValid (dst_subnet bs)" and s: "sendToSubnet k (dst_subnet bs) bs = (k', outs)"
  shows "ks_inv k' \<and> (\<forall>ev \<in> set outs. well_sent ev)"
proof (cases "fmlookup (subnetToInfo k) (dst_subnet bs)")
  case (Some p)
  then obtain i where i: "fmlookup (ks_infos k) p = Some i" "ki_subnet i = dst_subnet bs"
    using infos_invD(3) [OF _ Some] k by (auto simp: ks_inv_def)
  obtain k1 o1 where r: "resetTimeout k p = (k1, o1)" by (cases "resetTimeout k p")
  have "k' = k1" "outs = o1 @ [WriteTo bs (ki_key (the_info k1 p))]" using s Some r by (auto simp: sendToSubnet_def)
  then show ?thesis using send_known [OF k i(1) _ r] i(2) by auto
next
  case None
  obtain k1 b where kb: "(case fmlookup (subnetBuffer k) (dst_subnet bs) of Some b \<Rightarrow> (k, b)
      | None \<Rightarrow> (let (k, b) = new_buffer k in (k\<lparr>subnetBuffer := fmupd (dst_subnet bs) b (subnetBuffer k)\<rparr>, b))) = (k1, b)"
    by (rule prod.exhaust)
  obtain k2 o2 where p: "put_buffer k1 b bs (ExpireSubnet (dst_subnet bs) b) = (k2, o2)" by (rule prod.exhaust)
  have "k' = k2" "outs = o2 @ [SendLookup (Subnet_GetKey (dst_subnet bs))]"
    using s None kb p by (auto simp: sendToSubnet_def Let_def)
  moreover have "\<forall>ev \<in> set o2. well_sent ev" using put_buffer_frame [OF p] by blast
  ultimately show ?thesis using hold_subnet [OF _ _ a kb p] k by (auto simp: ks_inv_def)
qed

lemma writePC_ok:
  assumes "ks_inv k" "writePC k bs = (res, k', outs)"
  shows "ks_inv k' \<and> (\<forall>ev \<in> set outs. well_sent ev)"
  using assms sendToAddress_ok [OF assms(1), of bs] sendToSubnet_ok [OF assms(1), of bs]
  by (auto simp: writePC_def split: if_splits prod.splits)

section \<open>Runs of the key store\<close>

text \<open>
  What can happen to a key store: the host sends a packet, a packet arrives from a key, the core
  reports a path to a key, a timer fires, the MTU is set. A fired timer may be a late one that was
  already stopped or replaced.
\<close>

datatype ks_event = HostPacket bytes | NetPacket bytes bytes | PathNotify bytes | TimerFired ks_callback | NewMTU u64 u64

definition ks_step :: "icmp_marshal \<Rightarrow> keyStore \<Rightarrow> ks_event \<Rightarrow> (keyStore \<times> ks_out list) go" where
  "ks_step marshal k ev =
     (case ev of
        HostPacket bs \<Rightarrow> Ok (snd (writePC k bs))
      | NetPacket bs from \<Rightarrow> go_bind (readPC_packet marshal k bs from) (\<lambda>(_, k, outs). Ok (k, outs))
      | PathNotify key \<Rightarrow> go_bind (update_key k key) (\<lambda>(k, _, outs). Ok (k, outs))
      | TimerFired (ExpireInfo p) \<Rightarrow> Ok (expireInfo k p, [])
      | TimerFired (ExpireAddr a b) \<Rightarrow> Ok (expireAddr k a b, [])
      | TimerFired (ExpireSubnet s b) \<Rightarrow> Ok (expireSubnet k s b, [])
      | NewMTU maxMTU mtu \<Rightarrow> Ok (SetMTU maxMTU k mtu, []))"

lemma readPC_packet_ok:
  assumes "ks_inv k"
  shows "\<exists>res k' outs. readPC_packet marshal k bs from = Ok (res, k', outs) \<and> ks_inv k' \<and> (\<forall>ev \<in> set outs. well_sent ev)"
proof -
  obtain k1 p o1 where u: "update_key k from = Ok (k1, p, o1)" "ks_inv k1" "\<forall>ev \<in> set o1. well_sent ev"
    using update_key_ok [OF assms] by blast
  show ?thesis
    using assms u writePC_ok [OF assms]
    by (auto simp: readPC_packet_def Let_def split: option.splits prod.splits) (metis snd_conv surj_pair)+
qed

lemma ks_step_ok:
  assumes "ks_inv k"
  shows "\<exists>k' outs. ks_step marshal k ev = Ok (k', outs) \<and> ks_inv k' \<and> (\<forall>x \<in> set outs. well_sent x)"
proof (cases ev)
  case (HostPacket bs)
  obtain res k' outs where "writePC k bs = (res, k', outs)" by (cases "writePC k bs")
  then show ?thesis using writePC_ok [OF assms] by (simp add: ks_step_def HostPacket)
next
  case (NetPacket bs sender)
  show ?thesis using readPC_packet_ok [OF assms, of marshal bs sender] by (auto simp: ks_step_def NetPacket)
next
  case (PathNotify key)
  show ?thesis using update_key_ok [OF assms, of key] by (auto simp: ks_step_def PathNotify)
next
  case (TimerFired c)
  show ?thesis using assms by (cases c) (simp_all add: ks_step_def TimerFired expireInfo_inv expire_buffer_inv)
next
  case (NewMTU a b)
  have "ks_inv (SetMTU a k b)"
    using assms infos_inv_cong [of k "SetMTU a k b"] buffers_inv_cong [of k "SetMTU a k b"] by (simp add: ks_inv_def SetMTU_def Let_def)
  then show ?thesis by (simp add: ks_step_def NewMTU)
qed

interpretation key_store: event_invariant "ks_step marshal" ks_inv well_sent
  by unfold_locales (rule ks_step_ok)

lemma keyStore_init_ok:
  assumes "length publicKey = publicKeySize"
  shows "\<exists>k. keyStore_init publicKey = Ok k \<and> ks_inv k"
proof -
  have l: "length publicKey = 32" using assms by simp
  obtain a s where "AddrForKey publicKey = Some a" "SubnetForKey publicKey = Some s"
    using AddrForKey_eq [OF l] by (simp add: SubnetForKey_def Let_def)
  then show ?thesis
    by (simp add: keyStore_init_def ks_inv_def infos_inv_def buffers_inv_def points_def)
qed

text \<open>A packet that \<^verbatim>\<open>readPC\<close> passes on.\<close>

definition genuine :: "keyStore \<Rightarrow> bytes \<Rightarrow> bytes \<Rightarrow> bool" where
  "genuine k bs key \<longleftrightarrow> 40 \<le> length bs \<and> length bs \<le> unat (ks_mtu k) \<and> bs ! 0 AND 0xf0 = 0x60
     \<and> (dst_addr bs = ks_address k \<or> dst_subnet bs = ks_subnet k)
     \<and> (AddrForKey key = Some (src_addr bs) \<or> SubnetForKey key = Some (src_subnet bs))"

definition same_node :: "keyStore \<Rightarrow> keyStore \<Rightarrow> bool" where
  "same_node k k' \<longleftrightarrow> ks_address k' = ks_address k \<and> ks_subnet k' = ks_subnet k \<and> ks_mtu k' = ks_mtu k"

lemma same_node_refl [simp]: "same_node k k"
  by (simp add: same_node_def)

lemma resetTimeout_same: "same_node k (fst (resetTimeout k p))"
  by (simp add: resetTimeout_def same_node_def Let_def)

lemma learn_same: "same_node k (fst (learn k key a s))"
  by (simp add: learn_def same_node_def Let_def split: option.splits)

lemma update_key_same:
  assumes "update_key k key = Ok (k', p, outs)"
  shows "same_node k k'"
proof -
  let ?key = "array_of publicKeySize key"
  let ?l = "case fmlookup (keyToInfo k) ?key of Some p \<Rightarrow> Ok (k, p, [])
       | None \<Rightarrow> (case (AddrForKey ?key, SubnetForKey ?key) of (Some a, Some s) \<Rightarrow> Ok (learn k ?key a s) | _ \<Rightarrow> Panic)"
  obtain k1 p1 packets where l: "?l = Ok (k1, p1, packets)" "k' = fst (resetTimeout k1 p1)"
    using assms unfolding update_key_def Let_def by (cases ?l) (auto split: prod.splits)
  have "same_node k k1"
    using l(1) learn_same [of k ?key] by (auto split: option.splits) (metis fst_conv)
  then show ?thesis using resetTimeout_same [of k1 p1] unfolding l(2) same_node_def by simp
qed

lemma writePC_same:
  assumes "writePC k bs = (res, k', outs)"
  shows "same_node k k'"
  using assms
  by (auto simp: same_node_def writePC_def sendToAddress_def sendToSubnet_def resetTimeout_def put_buffer_def new_buffer_def Let_def
      split: if_splits option.splits)

lemma readPC_packet_genuine:
  assumes k: "ks_inv k" and r: "readPC_packet marshal k bs sender = Ok (res, k', outs)"
  shows "(\<forall>packet. res = Some packet \<longrightarrow> packet = bs \<and> genuine k bs (array_of 32 sender))
    \<and> same_node k k'"
proof -
  obtain k1 p o1 i where u: "update_key k sender = Ok (k1, p, o1)" "ks_inv k1" "fmlookup (ks_infos k1) p = Some i"
      "ki_key i = array_of 32 sender"
    using update_key_ok [OF k] by blast
  have "info_ok i" using infos_invD(4) [of k1 p i] u(2,3) by (simp add: ks_inv_def)
  then have i: "AddrForKey (array_of 32 sender) = Some (ki_address (the_info k1 p))"
      "SubnetForKey (array_of 32 sender) = Some (ki_subnet (the_info k1 p))"
    using u(3,4) by (simp_all add: info_ok_def the_info_def)
  note f = update_key_same [OF u(1)]
  show ?thesis
  proof (cases "unat (ks_mtu k) < length bs")
    case True
    then show ?thesis using r writePC_same [of k]
      by (auto simp: readPC_packet_def Let_def split: option.splits if_splits) (metis snd_conv surj_pair)+
  next
    case False
    then show ?thesis using r u(1) i f by (auto simp: readPC_packet_def genuine_def split: if_splits)
  qed
qed

lemma readPC_genuine:
  assumes "ks_inv k" "readPC marshal n k es = Ok (Some (Inr p), k', outs)"
  shows "\<exists>bs sender. ReadPacket bs sender \<in> set es \<and> p = take n bs \<and> genuine k bs (array_of 32 sender)"
  using assms
proof (induction es arbitrary: k outs)
  case (Cons e es)
  show ?case
  proof (cases e)
    case (ReadPacket bs sender)
    obtain res k1 o1 where 1: "readPC_packet marshal k bs sender = Ok (res, k1, o1)" "ks_inv k1"
      using readPC_packet_ok [OF Cons.prems(1)] by blast
    note g = readPC_packet_genuine [OF Cons.prems(1) 1(1)]
    show ?thesis
    proof (cases res)
      case None
      then obtain o2 where "readPC marshal n k1 es = Ok (Some (Inr p), k', o2)"
        using Cons.prems(2) 1(1) ReadPacket by (auto simp: go_bind_eq_Ok)
      from Cons.IH [OF 1(2) this] show ?thesis using g by (auto simp: genuine_def same_node_def)
    next
      case (Some packet)
      then show ?thesis using Cons.prems(2) 1(1) ReadPacket g by auto
    qed
  qed (use Cons.prems in simp)
qed simp

section \<open>Properties\<close>

text \<open>
  C15. A key store never misdelivers and never panics: from its start and through any sequence of
  packets from the host and from the network, path notifications and timers (late ones included),
  its tables stay consistent, and a packet is handed to the core only for a key whose address or
  subnet is the packet's destination.
\<close>

theorem keystore_no_misdelivery:
  assumes "length publicKey = publicKeySize"
  shows "\<exists>k. keyStore_init publicKey = Ok k \<and>
    (\<forall>es. \<exists>k' outs. run_events (ks_step marshal) k es = Ok (k', outs) \<and> ks_inv k' \<and>
      (\<forall>bs key. WriteTo bs key \<in> set outs \<longrightarrow> length key = publicKeySize \<and>
         (AddrForKey key = Some (dst_addr bs) \<or> SubnetForKey key = Some (dst_subnet bs))))"
proof -
  obtain k where k: "keyStore_init publicKey = Ok k" "ks_inv k" using keyStore_init_ok [OF assms] by blast
  have "\<exists>k' outs. run_events (ks_step marshal) k es = Ok (k', outs) \<and> ks_inv k' \<and>
      (\<forall>bs key. WriteTo bs key \<in> set outs \<longrightarrow> length key = publicKeySize \<and>
         (AddrForKey key = Some (dst_addr bs) \<or> SubnetForKey key = Some (dst_subnet bs)))" for es
  proof -
    obtain k' outs where r: "run_events (ks_step marshal) k es = Ok (k', outs)" "ks_inv k'" "\<forall>x \<in> set outs. well_sent x"
      using key_store.run_ok [OF k(2)] by blast
    have "length key = publicKeySize \<and> (AddrForKey key = Some (dst_addr bs) \<or> SubnetForKey key = Some (dst_subnet bs))"
      if "WriteTo bs key \<in> set outs" for bs key
      using r(3) that by fastforce
    then show ?thesis using r(1,2) by blast
  qed
  then show ?thesis using k(1) by blast
qed

theorem keystore_no_misdelivery_witness:
  "\<exists>k k' outs. keyStore_init sample_pk = Ok k
     \<and> run_events (ks_step (\<lambda>_ _ _ _. None)) k [PathNotify sample_twin] = Ok (k', outs) \<and> ks_inv k'"
proof -
  have "length sample_pk = publicKeySize" by (simp add: sample_twin_facts)
  from keystore_no_misdelivery [OF this, of "\<lambda>_ _ _ _. None"] show ?thesis by blast
qed

text \<open>
  C16. A reader only ever sees genuine packets, cut to its buffer: an IPv6 packet with a whole header, no
  longer than the MTU, for this node's address or subnet, whose source address or subnet belongs to the key it came from;
  packets that are not are passed over.
\<close>

theorem readPC_no_spoofing:
  assumes "ks_inv k" "readPC marshal n k es = Ok (Some (Inr p), k', outs)"
  shows "\<exists>bs sender. ReadPacket bs sender \<in> set es \<and> p = take n bs
    \<and> 40 \<le> length bs \<and> length bs \<le> unat (ks_mtu k) \<and> bs ! 0 AND 0xf0 = 0x60
    \<and> (dst_addr bs = ks_address k \<or> dst_subnet bs = ks_subnet k)
    \<and> (AddrForKey (array_of 32 sender) = Some (src_addr bs) \<or> SubnetForKey (array_of 32 sender) = Some (src_subnet bs))"
  using readPC_genuine [OF assms] unfolding genuine_def by blast

text \<open>A packet of \<open>n\<close> bytes between two addresses.\<close>

definition sample_v6 :: "address \<Rightarrow> address \<Rightarrow> bytes" where
  "sample_v6 src dst = [0x60, 0, 0, 0, 0, 0, 59, 64] @ src @ dst"

lemma sample_v6_addrs:
  assumes "length src = 16" "length dst = 16"
  shows "src_addr (sample_v6 src dst) = src" "dst_addr (sample_v6 src dst) = dst" "length (sample_v6 src dst) = 40"
    "sample_v6 src dst ! 0 = 0x60"
proof -
  have "drop 24 (sample_v6 src dst) = dst" using assms by (simp add: sample_v6_def)
  then show "dst_addr (sample_v6 src dst) = dst" using assms by (simp add: dst_addr_def)
  show "src_addr (sample_v6 src dst) = src" using assms by (simp add: src_addr_def sample_v6_def array_of_def)
qed (use assms in \<open>simp_all add: sample_v6_def\<close>)

lemma sample_read:
  "\<exists>k bs k' outs. keyStore_init sample_pk = Ok k \<and> ks_inv k
     \<and> readPC marshal 1500 k [ReadPacket bs sample_twin] = Ok (Some (Inr bs), k', outs)"
proof -
  have l: "length sample_pk = 32" "length sample_twin = 32" by (simp_all add: sample_twin_facts)
  have "length sample_pk = publicKeySize" using l by simp
  then obtain k where k: "keyStore_init sample_pk = Ok k" "ks_inv k" using keyStore_init_ok by blast
  obtain a where a: "AddrForKey sample_pk = Some a" using AddrForKey_eq [OF l(1)] by blast
  have la: "length a = 16" using AddrForKey_canonical [OF l(1) a] canonicalD(1) by blast
  have t: "AddrForKey sample_twin = Some a" using a sample_twin_address by simp
  have own: "ks_address k = a" "ks_mtu k = 1280"
    using k(1) a by (auto simp: keyStore_init_def split: option.splits)
  obtain k1 p o1 i where u: "update_key k sample_twin = Ok (k1, p, o1)" "ks_inv k1" "fmlookup (ks_infos k1) p = Some i"
      "ki_key i = array_of 32 sample_twin" using update_key_ok [OF k(2)] by blast
  have "info_ok i" using infos_invD(4) [of k1 p i] u(2,3) by (simp add: ks_inv_def)
  then have i: "ki_address (the_info k1 p) = a" using u(3,4) t l by (simp add: info_ok_def the_info_def)
  have "readPC_packet marshal k (sample_v6 a a) sample_twin = Ok (Some (sample_v6 a a), k1, o1)"
    using sample_v6_addrs [OF la la] own u(1) i by (simp add: readPC_packet_def)
  then have "readPC marshal 1500 k [ReadPacket (sample_v6 a a) sample_twin] = Ok (Some (Inr (sample_v6 a a)), k1, o1)"
    using sample_v6_addrs(3) [OF la la] by simp
  then show ?thesis using k by blast
qed

theorem readPC_no_spoofing_witness:
  "\<exists>k bs k' outs. readPC (\<lambda>_ _ _ _. None) 1500 k [ReadPacket bs sample_twin] = Ok (Some (Inr bs), k', outs)
     \<and> (AddrForKey (array_of 32 sample_twin) = Some (src_addr bs) \<or> SubnetForKey (array_of 32 sample_twin) = Some (src_subnet bs))"
proof -
  obtain k bs k' outs where r: "ks_inv k" "readPC (\<lambda>_ _ _ _. None) 1500 k [ReadPacket bs sample_twin] = Ok (Some (Inr bs), k', outs)"
    using sample_read [of "\<lambda>_ _ _ _. None"] by blast
  from readPC_no_spoofing [OF r] have "AddrForKey (array_of 32 sample_twin) = Some (src_addr bs) \<or> SubnetForKey (array_of 32 sample_twin) = Some (src_subnet bs)"
    by auto
  then show ?thesis using r(2) by blast
qed

section \<open>Looking up a key\<close>

lemma hold_waiting:
  assumes "put_buffer k1 b bs callback = (k2, outs)"
  shows "fmlookup (ks_buffers k2) b = Some ((the_buffer k1 b)\<lparr>bf_packet := bs, bf_timeout := Some (ks_timer k1)\<rparr>)"
  using assms by (auto simp: put_buffer_def Let_def)

lemma sendToAddress_waiting:
  assumes "fmlookup (addrToInfo k) a = None" "sendToAddress k a bs = (k', outs)"
  shows "SendLookup (Address_GetKey a) \<in> set outs \<and> keyToInfo k' = keyToInfo k
    \<and> (\<exists>b. fmlookup (addrBuffer k') a = Some b \<and> bf_packet (the_buffer k' b) = bs)"
  using assms
  by (auto simp: sendToAddress_def put_buffer_def new_buffer_def the_buffer_def Let_def split: option.splits)

lemma learn_flushes:
  assumes "fmlookup (addrBuffer k) a = Some b"
  shows "bf_packet (the_buffer k b) \<in> set (snd (snd (learn k key a s)))
    \<and> fmlookup (addrToInfo (fst (learn k key a s))) a = Some (fst (snd (learn k key a s)))"
  using assms by (auto simp: learn_def Let_def the_buffer_def split: option.splits)

lemma update_key_flushes:
  assumes k: "ks_inv k" and key: "length key = 32" "AddrForKey key = Some a" "fmlookup (keyToInfo k) key = None"
    and b: "fmlookup (addrBuffer k) a = Some b"
  shows "\<exists>k' p outs. update_key k key = Ok (k', p, outs) \<and> WriteTo (bf_packet (the_buffer k b)) key \<in> set outs
    \<and> fmlookup (addrToInfo k') a = Some p"
proof -
  obtain s where s: "SubnetForKey key = Some s" using key(2) by (simp add: SubnetForKey_def Let_def)
  obtain k1 p packets where l: "learn k key a s = (k1, p, packets)" by (cases "learn k key a s")
  note lo = learn_ok [OF k key(1,2) s l]
  obtain i where i: "fmlookup (ks_infos k1) p = Some i" "ki_key i = key" using lo by blast
  obtain k2 outs where r: "resetTimeout k1 p = (k2, outs)" by (cases "resetTimeout k1 p")
  have i2: "fmlookup (ks_infos k2) p = Some (i\<lparr>ki_timeout := Some (ks_timer k1)\<rparr>)"
    using resetTimeout_infos [OF _ i(1) r] lo by (simp add: ks_inv_def)
  have "update_key k key = Ok (k2, p, outs @ map (\<lambda>packet. WriteTo packet key) packets)"
    using key s l r i i2 by (simp add: update_key_def Let_def the_info_def)
  then show ?thesis using learn_flushes [OF b, of key s] l resetTimeout_frame [OF r] by auto
qed

text \<open>
  A packet that waits for its address, and the events that may end the wait: another packet to the
  address, which takes its place, the timer of the address, and a key with the address becoming known.
\<close>

definition waits :: "keyStore \<Rightarrow> address \<Rightarrow> bytes \<Rightarrow> bool" where
  "waits k a bs \<longleftrightarrow> (\<exists>b. fmlookup (addrBuffer k) a = Some b \<and> bf_packet (the_buffer k b) = bs)"

fun ends_wait :: "address \<Rightarrow> ks_event \<Rightarrow> bool" where
  "ends_wait a (HostPacket bs) \<longleftrightarrow> dst_addr bs = a"
| "ends_wait a (NetPacket bs key) \<longleftrightarrow> src_addr bs = a \<or> AddrForKey (array_of publicKeySize key) = Some a"
| "ends_wait a (PathNotify key) \<longleftrightarrow> AddrForKey (array_of publicKeySize key) = Some a"
| "ends_wait a (TimerFired (ExpireAddr a' b)) \<longleftrightarrow> a' = a"
| "ends_wait a _ \<longleftrightarrow> False"

lemma waits_frame:
  assumes "waits k a bs" "addrBuffer k' = addrBuffer k" "ks_buffers k' = ks_buffers k"
  shows "waits k' a bs"
  using assms by (simp add: waits_def the_buffer_def)

lemma resetTimeout_waits: "waits k a bs \<Longrightarrow> waits (fst (resetTimeout k p)) a bs"
  by (rule waits_frame) (simp_all add: resetTimeout_def Let_def)

lemma resetTimeout_keys: "keyToInfo (fst (resetTimeout k p)) = keyToInfo k"
  by (simp add: resetTimeout_def Let_def)

lemma learn_keys: "keyToInfo (fst (learn k key a s)) = fmupd key (ks_next k) (keyToInfo k)"
  by (simp add: learn_def Let_def split: option.split)

lemma learn_waits:
  assumes "waits k a bs" "a' \<noteq> a"
  shows "waits (fst (learn k key a' s)) a bs"
proof -
  have "fmlookup (addrBuffer (fst (learn k key a' s))) a = fmlookup (addrBuffer k) a"
    "ks_buffers (fst (learn k key a' s)) = ks_buffers k"
    using assms(2) by (auto simp: learn_def Let_def split: option.splits)
  then show ?thesis using assms(1) by (simp add: waits_def the_buffer_def)
qed

lemma update_key_waits:
  assumes "waits k a bs" "AddrForKey (array_of 32 key) \<noteq> Some a" "update_key k key = Ok (k', p, outs)"
  shows "waits k' a bs \<and> (\<forall>x. x \<noteq> array_of 32 key \<longrightarrow> fmlookup (keyToInfo k') x = fmlookup (keyToInfo k) x)"
proof (cases "fmlookup (keyToInfo k) (array_of 32 key)")
  case (Some q)
  then have "k' = fst (resetTimeout k q)"
    using assms(3) by (auto simp: update_key_def Let_def split: prod.splits)
  then show ?thesis using resetTimeout_waits [OF assms(1)] by (simp add: resetTimeout_keys)
next
  case None
  then obtain a' s where as: "AddrForKey (array_of 32 key) = Some a'" "SubnetForKey (array_of 32 key) = Some s"
    using assms(3) by (auto simp: update_key_def Let_def split: option.splits)
  obtain k1 q packets where l: "learn k (array_of 32 key) a' s = (k1, q, packets)" by (rule prod_cases3)
  have "k' = fst (resetTimeout k1 q)"
    using assms(3) None as l by (auto simp: update_key_def Let_def split: prod.splits)
  moreover have "waits k1 a bs" using learn_waits [OF assms(1), of a' "array_of 32 key" s] as(1) assms(2) l by simp
  moreover have "keyToInfo k1 = fmupd (array_of 32 key) (ks_next k) (keyToInfo k)"
    using learn_keys [of k "array_of 32 key" a' s] l by simp
  ultimately show ?thesis using resetTimeout_waits by (simp add: resetTimeout_keys)
qed

text \<open>The buffer of an address is used for no other destination.\<close>

lemma buffer_of_address:
  assumes "ks_inv k" "fmlookup (addrBuffer k) a = Some b"
  shows "a' \<noteq> a \<Longrightarrow> fmlookup (addrBuffer k) a' \<noteq> Some b" "fmlookup (subnetBuffer k) s \<noteq> Some b" "b < ks_next k"
proof -
  have bi: "buffers_inv k" using assms(1) by (simp add: ks_inv_def)
  obtain f where f: "Address_IsValid a" "fmlookup (ks_buffers k) b = Some f" "dst_addr (bf_packet f) = a"
    using buffers_invD(1) [OF bi assms(2)] by blast
  show "a' \<noteq> a \<Longrightarrow> fmlookup (addrBuffer k) a' \<noteq> Some b" using buffers_invD(1) [OF bi, of a' b] f by auto
  show "fmlookup (subnetBuffer k) s \<noteq> Some b" using buffers_invD(2) [OF bi, of s b] f dst_disjoint by fastforce
  show "b < ks_next k" by (rule buffers_invD(3) [OF bi f(2)])
qed

lemma send_waits:
  assumes k: "ks_inv k" and w: "waits k a bs"
  shows "a' \<noteq> a \<Longrightarrow> waits (fst (sendToAddress k a' bs')) a bs" "waits (fst (sendToSubnet k s bs')) a bs"
    "keyToInfo (fst (sendToAddress k a' bs')) = keyToInfo k" "keyToInfo (fst (sendToSubnet k s bs')) = keyToInfo k"
proof -
  obtain b where b: "fmlookup (addrBuffer k) a = Some b" "bf_packet (the_buffer k b) = bs" using w by (auto simp: waits_def)
  note other = buffer_of_address [OF k b(1)]
  show "waits (fst (sendToAddress k a' bs')) a bs" if "a' \<noteq> a"
    using b w other(1) [OF that] other(3) that
    by (auto simp: sendToAddress_def put_buffer_def new_buffer_def waits_def the_buffer_def
        resetTimeout_def Let_def split: option.split)
  show "waits (fst (sendToSubnet k s bs')) a bs"
    using b w other(2) [of s] other(3)
    by (auto simp: sendToSubnet_def put_buffer_def new_buffer_def waits_def the_buffer_def
        resetTimeout_def Let_def split: option.split)
qed (auto simp: sendToAddress_def sendToSubnet_def put_buffer_def new_buffer_def resetTimeout_def Let_def split: option.split)

lemma writePC_waits:
  assumes "ks_inv k" "waits k a bs" "dst_addr bs' \<noteq> a"
  shows "waits (fst (snd (writePC k bs'))) a bs \<and> keyToInfo (fst (snd (writePC k bs'))) = keyToInfo k"
  using send_waits [OF assms(1,2)] assms(2,3) by (simp add: writePC_def)

lemma CreateICMPv6_dst:
  assumes "CreateICMPv6 marshal dst src mtu data = Some p" "length dst = 16" "length src = 16"
  shows "dst_addr p = dst"
  using assms by (auto simp: CreateICMPv6_def ipv6Header_Marshal_def be16_def dst_addr_def array_of_def split: option.splits)

lemma readPC_waits:
  assumes k: "ks_inv k" "waits k a bs" and e: "src_addr bs' \<noteq> a" "AddrForKey (array_of 32 key) \<noteq> Some a"
    and r: "readPC_packet marshal k bs' key = Ok (res, k', outs)"
  shows "waits k' a bs \<and> (\<forall>x. x \<noteq> array_of 32 key \<longrightarrow> fmlookup (keyToInfo k') x = fmlookup (keyToInfo k) x)"
proof -
  have src: "take 16 (drop 8 (array_of 512 bs')) = src_addr bs'" if "40 \<le> length bs'"
    using that by (auto simp: src_addr_def array_of_def drop_take)
  have icmp: "waits (fst (snd (writePC k p))) a bs \<and> keyToInfo (fst (snd (writePC k p))) = keyToInfo k"
    if "40 \<le> length bs'" "CreateICMPv6 marshal (take 16 (drop 8 (array_of 512 bs'))) (take 16 (drop 24 (array_of 512 bs'))) n d = Some p" for n d p
    using CreateICMPv6_dst [OF that(2)] src [OF that(1)] e(1) writePC_waits [OF k, of p]
    by (simp add: src_addr_def)
  obtain k1 p o1 where u: "update_key k key = Ok (k1, p, o1)" using update_key_ok [OF k(1)] by blast
  show ?thesis
    using r k(2) icmp u update_key_waits [OF k(2) e(2) u]
    by (auto simp: readPC_packet_def Let_def not_less split: if_splits option.splits) (metis fst_conv snd_conv)+
qed

lemma ks_step_waits:
  assumes k: "ks_inv k" "waits k a bs" "fmlookup (keyToInfo k) key = None" "AddrForKey key = Some a"
    and e: "\<not> ends_wait a e" and st: "ks_step marshal k e = Ok (k', outs)"
  shows "waits k' a bs \<and> fmlookup (keyToInfo k') key = None"
proof (cases e)
  case (HostPacket bs')
  have "k' = fst (snd (writePC k bs'))" using st HostPacket by (cases "writePC k bs'") (simp add: ks_step_def)
  then show ?thesis using writePC_waits [OF k(1,2), of bs'] e HostPacket k(3) by simp
next
  case (NetPacket bs' sender)
  then obtain res where "readPC_packet marshal k bs' sender = Ok (res, k', outs)"
    using st by (auto simp: ks_step_def go_bind_eq_Ok)
  from readPC_waits [OF k(1,2) _ _ this] show ?thesis using e NetPacket k(3,4) by (cases "key = array_of 32 sender") auto
next
  case (PathNotify found)
  then obtain p where "update_key k found = Ok (k', p, outs)" using st by (auto simp: ks_step_def go_bind_eq_Ok)
  from update_key_waits [OF k(2) _ this] show ?thesis using e PathNotify k(3,4) by (cases "key = array_of 32 found") auto
next
  case (TimerFired c)
  have sub: "fmlookup (fmdrop_if m x p) y = None" if "fmlookup m y = None" for m :: "(bytes, ptr) fmap" and x p y
    using that by (simp add: fmdrop_if_def)
  show ?thesis
    using st TimerFired k e sub
    by (cases c) (auto simp: ks_step_def expireInfo_def expireAddr_def expireSubnet_def waits_def the_buffer_def
        fmdrop_if_def Let_def)
next
  case (NewMTU m n)
  then show ?thesis using st k by (auto simp: ks_step_def SetMTU_def Let_def waits_def the_buffer_def)
qed

lemma ks_run_waits:
  assumes "ks_inv k" "waits k a bs" "fmlookup (keyToInfo k) key = None" "AddrForKey key = Some a" "list_all (\<lambda>e. \<not> ends_wait a e) es"
  shows "\<exists>k' outs. run_events (ks_step marshal) k es = Ok (k', outs) \<and> ks_inv k' \<and> waits k' a bs \<and> fmlookup (keyToInfo k') key = None"
  using assms
proof (induction es arbitrary: k)
  case (Cons e es)
  obtain k1 o1 where 1: "ks_step marshal k e = Ok (k1, o1)" "ks_inv k1" using ks_step_ok [OF Cons.prems(1)] by blast
  have "waits k1 a bs \<and> fmlookup (keyToInfo k1) key = None" using ks_step_waits [OF Cons.prems(1-4) _ 1(1)] Cons.prems(5) by simp
  then obtain k2 o2 where "run_events (ks_step marshal) k1 es = Ok (k2, o2)" "ks_inv k2" "waits k2 a bs" "fmlookup (keyToInfo k2) key = None"
    using Cons.IH [OF 1(2)] Cons.prems(4,5) by auto
  then show ?case using 1(1) by (intro exI [of _ k2] exI [of _ "o1 @ o2"]) simp
qed simp

text \<open>
  C17. A packet from this node for a valid address that is not known is kept, and the store asks for the
  partial key of the address, which has that address itself. Whatever else happens in the meantime, as
  long as no newer packet for the address takes its place, the wait does not time out, and no
  key with the address turns up, the notification of a path to a key that has the address, and that was
  not already known as a key when the packet was sent, sends the waiting packet to that key, and the
  address is known from then on.
\<close>

theorem lookup_delivers:
  assumes "ks_inv k" "length bs \<ge> 40" "bs ! 0 AND 0xf0 = 0x60" "src_addr bs = ks_address k \<or> src_subnet bs = ks_subnet k"
    and "Address_IsValid (dst_addr bs)" "fmlookup (addrToInfo k) (dst_addr bs) = None"
    and "length key = publicKeySize" "AddrForKey key = Some (dst_addr bs)" "fmlookup (keyToInfo k) key = None"
    and "list_all (\<lambda>e. \<not> ends_wait (dst_addr bs) e) es"
  shows "\<exists>k1 o1 partial k2 o2 k3 o3. writePC k bs = (Inr (length bs), k1, o1)
    \<and> SendLookup partial \<in> set o1 \<and> AddrForKey partial = Some (dst_addr bs)
    \<and> run_events (ks_step marshal) k1 es = Ok (k2, o2)
    \<and> ks_step marshal k2 (PathNotify key) = Ok (k3, o3) \<and> WriteTo bs key \<in> set o3
    \<and> fmlookup (addrToInfo k3) (dst_addr bs) \<noteq> None"
proof -
  obtain k1 o1 where s: "sendToAddress k (dst_addr bs) bs = (k1, o1)" by (cases "sendToAddress k (dst_addr bs) bs")
  have w: "writePC k bs = (Inr (length bs), k1, o1)" using assms(2-5) s by (auto simp: writePC_def)
  have b: "SendLookup (Address_GetKey (dst_addr bs)) \<in> set o1" "keyToInfo k1 = keyToInfo k" "waits k1 (dst_addr bs) bs"
    using sendToAddress_waiting [OF assms(6) s] by (auto simp: waits_def)
  have k1: "ks_inv k1" using writePC_ok [OF assms(1) w] by blast
  have l: "length key = 32" using assms(7) by simp
  have u1: "fmlookup (keyToInfo k1) key = None" using assms(9) b(2) by simp
  obtain k2 o2 where r: "run_events (ks_step marshal) k1 es = Ok (k2, o2)" "ks_inv k2" "waits k2 (dst_addr bs) bs"
      "fmlookup (keyToInfo k2) key = None"
    using ks_run_waits [OF k1 b(3) u1 assms(8,10)] by blast
  obtain k3 p o3 where "update_key k2 key = Ok (k3, p, o3)" "WriteTo bs key \<in> set o3" "fmlookup (addrToInfo k3) (dst_addr bs) = Some p"
    using update_key_flushes [OF r(2) l assms(8) r(4)] r(3) by (auto simp: waits_def)
  moreover from this have "ks_step marshal k2 (PathNotify key) = Ok (k3, o3)" by (simp add: ks_step_def)
  moreover have "AddrForKey (Address_GetKey (dst_addr bs)) = Some (dst_addr bs)" by (rule GetKey_address [OF l assms(8)])
  ultimately show ?thesis using w b(1) r(1) by blast
qed

theorem lookup_delivers_witness:
  "\<exists>k bs k1 o1 k2 o2 k3 o3. keyStore_init sample_pk = Ok k \<and> writePC k bs = (Inr 40, k1, o1)
     \<and> run_events (ks_step (\<lambda>_ _ _ _. None)) k1 [NewMTU 65535 1400, TimerFired (ExpireSubnet [] 0)] = Ok (k2, o2)
     \<and> ks_step (\<lambda>_ _ _ _. None) k2 (PathNotify sample_twin) = Ok (k3, o3) \<and> WriteTo bs sample_twin \<in> set o3"
proof -
  have l: "length sample_pk = 32" "length sample_twin = publicKeySize" by (simp_all add: sample_twin_facts)
  have "length sample_pk = publicKeySize" using l by simp
  then obtain k where k: "keyStore_init sample_pk = Ok k" "ks_inv k" using keyStore_init_ok by blast
  obtain a where a: "AddrForKey sample_pk = Some a" using AddrForKey_eq [OF l(1)] by blast
  have la: "length a = 16" "a ! 0 = 2" using AddrForKey_canonical [OF l(1) a] canonicalD(1) by blast+
  note v = sample_v6_addrs [OF la(1) la(1)]
  have own: "ks_address k = a" "addrToInfo k = fmempty" "keyToInfo k = fmempty"
    using k(1) a by (auto simp: keyStore_init_def split: option.splits)
  have "Address_IsValid a" using la(2) by (simp add: Address_IsValid_def GetPrefix_def)
  moreover have "list_all (\<lambda>e. \<not> ends_wait a e) [NewMTU 65535 1400, TimerFired (ExpireSubnet [] 0)]" by simp
  ultimately show ?thesis
    using lookup_delivers [OF k(2), of "sample_v6 a a" sample_twin "[NewMTU 65535 1400, TimerFired (ExpireSubnet [] 0)]"
        "\<lambda>_ _ _ _. None"] v own l(2) a sample_twin_address k(1)
    by force
qed

section \<open>Answers to packets that are too big\<close>

text \<open>
  C18. An ICMPv6 answer is a well-formed IPv6 packet: header and message, version 6, the message's
  length in the payload field (when it fits in 16 bits), protocol 58, hop limit 255, and the two
  addresses in place, so that the store's own check of the source accepts it for this node's address.
\<close>

theorem CreateICMPv6_wellformed:
  assumes "length src = 16" "length dst = 16" "marshal src dst mtu data = Some msg" "length msg < 2 ^ 16"
  shows "\<exists>p. CreateICMPv6 marshal dst src mtu data = Some p \<and> length p = 40 + length msg \<and> drop 40 p = msg
    \<and> p ! 0 AND 0xf0 = 0x60 \<and> unat (unbe 0 (take 2 (drop 4 p)) :: u16) = length msg \<and> p ! 6 = 58 \<and> p ! 7 = 255
    \<and> src_addr p = src \<and> dst_addr p = dst \<and> (ks_address k = src \<longrightarrow> fst (writePC k p) \<noteq> Inl ErrSource)"
proof -
  define h where "h = ipv6Header_Marshal \<lparr>h_Version = 6, h_TrafficClass = 0, h_FlowLabel = 0,
      h_PayloadLen = length msg, h_NextHeader = 58, h_HopLimit = 255, h_Src = src, h_Dst = dst\<rparr>"
  have h: "h = [0x60, 0, 0, 0] @ be16 (of_nat (length msg)) @ [58, 255] @ src @ dst"
    using assms(1,2) by (simp add: h_def ipv6Header_Marshal_def)
  let ?p = "h @ msg"
  have l: "length h = 40" using assms(1,2) by (simp add: h)
  have "CreateICMPv6 marshal dst src mtu data = Some ?p" using assms(3) by (simp add: CreateICMPv6_def h_def)
  moreover have "?p ! 0 AND 0xf0 = 0x60" "?p ! 6 = 58" "?p ! 7 = 255"
    by (simp_all add: h nth_append be16_def)
  moreover have "unat (unbe 0 (take 2 (drop 4 ?p)) :: u16) = length msg"
    using assms(4) by (simp add: h unat_of_nat)
  moreover have "drop 24 ?p = dst @ msg" "drop 8 ?p = src @ dst @ msg" using assms(1,2) by (simp_all add: h)
  then have "src_addr ?p = src" "dst_addr ?p = dst"
    using assms(1,2) by (simp_all add: src_addr_def dst_addr_def array_of_def)
  moreover from this have "ks_address k = src \<longrightarrow> fst (writePC k ?p) \<noteq> Inl ErrSource"
    by (simp add: writePC_def)
  ultimately show ?thesis using l by (intro exI [of _ ?p]) simp
qed

theorem CreateICMPv6_wellformed_witness:
  "\<exists>p. CreateICMPv6 (\<lambda>_ _ _ data. Some (2 # data)) (replicate 16 3) (replicate 16 2) 1280 [9] = Some p
     \<and> length p = 42 \<and> src_addr p = replicate 16 2"
  using CreateICMPv6_wellformed [of "replicate 16 2" "replicate 16 3" "\<lambda>_ _ _ data. Some (2 # data)" 1280 "[9]" "[2, 9]"]
  by auto

section \<open>Keys that share an address\<close>

text \<open>
  C19. When two keys share an address, the entry of the second replaces that of the first. After the
  second one's timer has run out, the first is still known by its key, so \<^verbatim>\<open>update\<close> does not register it
  again: a packet for the address waits for a path to a key, the path to the first key is found,
  and the packet is still not sent.
\<close>

theorem shared_address_stalls:
  assumes "length key1 = publicKeySize" "AddrForKey key1 = Some (dst_addr bs)"
    and "length key2 = publicKeySize" "AddrForKey key2 = Some (dst_addr bs)" "key1 \<noteq> key2"
    and "keyStore_init publicKey = Ok k" "length bs \<ge> 40" "bs ! 0 AND 0xf0 = 0x60" "src_addr bs = ks_address k"
    and "Address_IsValid (dst_addr bs)"
  shows "\<exists>k' outs. run_events (ks_step marshal) k [PathNotify key1, PathNotify key2, TimerFired (ExpireInfo 1),
      HostPacket bs, PathNotify key1] = Ok (k', outs) \<and> (\<forall>key. WriteTo bs key \<notin> set outs)"
proof -
  obtain s where s: "SubnetForKey key1 = Some s" "SubnetForKey key2 = Some s"
    using assms(2,4) by (simp add: SubnetForKey_def Let_def)
  have k: "keyToInfo k = fmempty" "addrToInfo k = fmempty" "subnetToInfo k = fmempty" "addrBuffer k = fmempty"
    "subnetBuffer k = fmempty" "ks_infos k = fmempty" "ks_buffers k = fmempty" "ks_next k = 0" "ks_timer k = 0"
    using assms(6) by (auto simp: keyStore_init_def split: option.splits prod.splits)
  show ?thesis
    using assms s k
    by (simp add: ks_step_def update_key_def learn_def resetTimeout_def expireInfo_def fmdrop_if_def the_info_def
        writePC_def sendToAddress_def put_buffer_def new_buffer_def the_buffer_def stop_timer_def Let_def)
qed

theorem shared_address_stalls_witness:
  "\<exists>k bs k' outs. keyStore_init (replicate 32 0xff) = Ok k \<and> AddrForKey sample_pk = Some (dst_addr bs)
     \<and> run_events (ks_step (\<lambda>_ _ _ _. None)) k [PathNotify sample_pk, PathNotify sample_twin, TimerFired (ExpireInfo 1),
         HostPacket bs, PathNotify sample_pk] = Ok (k', outs) \<and> WriteTo bs sample_pk \<notin> set outs"
proof -
  have l: "length sample_pk = publicKeySize" "length sample_twin = publicKeySize" "length (replicate 32 0xff :: bytes) = publicKeySize"
    by (simp_all add: sample_twin_facts)
  then obtain k where k: "keyStore_init (replicate 32 0xff) = Ok k" using keyStore_init_ok by blast
  obtain a where a: "AddrForKey sample_pk = Some a" using AddrForKey_eq [OF sample_twin_facts(1)] by blast
  have la: "length a = 16" "a ! 0 = 2" using AddrForKey_canonical [OF _ a] canonicalD(1) sample_twin_facts(1) by blast+
  have own: "length (ks_address k) = 16"
    using k AddrForKey_canonical [of "replicate 32 0xff"] canonicalD(1)
    by (auto simp: keyStore_init_def split: option.splits)
  have "Address_IsValid a" using la(2) by (simp add: Address_IsValid_def GetPrefix_def)
  then show ?thesis
    using shared_address_stalls [OF l(1) _ l(2) _ _ k, of "sample_v6 (ks_address k) a" "\<lambda>_ _ _ _. None"]
      sample_v6_addrs [OF own la(1)] a sample_twin_address sample_twin_other k by force
qed

end
