(* ===== verification/Json.thy ===== *)
theory Json
  imports Strings "HOL-Library.List_Lexorder" "HOL-Library.Char_ord" "HOL-Library.Finite_Map"
begin

text \<open>
  The part of Go's \<^verbatim>\<open>encoding/json\<close> that the program uses: values, and \<^verbatim>\<open>json.Marshal\<close>, which writes a map
  with its keys in order and escapes the characters of strings. \<open>JBad\<close> stands for a Go value that
  \<^verbatim>\<open>Marshal\<close> refuses (a channel, a function, a number that is not finite).
\<close>

datatype json =
    JNull | JBool bool | JNum string | JStr string | JArr "json list" | JObj "(string \<times> json) list" | JBad

definition json_escape :: "char \<Rightarrow> string" where
  "json_escape c =
     (let n = of_char c :: nat
      in if n = 34 \<or> n = 92 then [char_of (92 :: nat), c]
         else if n = 8 then [char_of (92 :: nat), CHR ''b'']
         else if n = 9 then [char_of (92 :: nat), CHR ''t'']
         else if n = 10 then [char_of (92 :: nat), CHR ''n'']
         else if n = 12 then [char_of (92 :: nat), CHR ''f'']
         else if n = 13 then [char_of (92 :: nat), CHR ''r'']
         else if n < 32 \<or> n = 60 \<or> n = 62 \<or> n = 38
         then char_of (92 :: nat) # ''u00'' @ [hexdigit (n div 16), hexdigit (n mod 16)]
         else [c])"

definition json_string :: "string \<Rightarrow> string" where
  "json_string s = CHR 0x22 # concat (map json_escape s) @ [CHR 0x22]"

fun commas :: "string list \<Rightarrow> string" where
  "commas [] = []"
| "commas [s] = s"
| "commas (s # t # ss) = s @ '','' @ commas (t # ss)"

fun all_some :: "'a option list \<Rightarrow> 'a list option" where
  "all_some [] = Some []"
| "all_some (None # xs) = None"
| "all_some (Some x # xs) = map_option ((#) x) (all_some xs)"

lemma all_some_map_Some [simp]: "all_some (map (\<lambda>x. Some (f x)) xs) = Some (map f xs)"
  by (induction xs) simp_all

primrec json_Marshal :: "json \<Rightarrow> string option" where
  "json_Marshal JNull = Some ''null''"
| "json_Marshal (JBool b) = Some (if b then ''true'' else ''false'')"
| "json_Marshal (JNum s) = Some s"
| "json_Marshal (JStr s) = Some (json_string s)"
| "json_Marshal (JArr vs) =
     map_option (\<lambda>ss. ''['' @ commas ss @ '']'') (all_some (map json_Marshal vs))"
| "json_Marshal (JObj kvs) =
     map_option (\<lambda>ss. ''{'' @ commas ss @ ''}'')
       (all_some (map (\<lambda>(k, m). map_option (\<lambda>s. json_string k @ '':'' @ s) m)
          (sort_key fst (map (map_prod id json_Marshal) kvs))))"
| "json_Marshal JBad = None"

text \<open>A Go map as a JSON object.\<close>

definition json_map :: "(string, json) fmap \<Rightarrow> json" where
  "json_map m = JObj (map (\<lambda>k. (k, the (fmlookup m k))) (sorted_list_of_fset (fmdom m)))"

end
