(* ===== verification/Proto.thy ===== *)
theory Proto
  imports Json Address Events
begin

text \<open>
  The in-band protocol of \<^verbatim>\<open>src/core/proto.go\<close> and \<^verbatim>\<open>src/core/nodeinfo.go\<close>: the requests one node sends
  another for its own description, its peers, its tree and its node information, the tables that
  remember who is waiting for an answer, the answers themselves, and the admin handlers on top; with
  them the demultiplexing of session packets of \<^verbatim>\<open>src/core/core.go\<close>. What the handlers ask of the node
  (its key, its peers, its tree, the MTU of the encrypted packet connection) is the record \<open>core_view\<close>.
  A callback is named by a number: it is the send on the channel of the admin request that waits for
  it. A timer is named by the request record it belongs to.
\<close>

section \<open>Packet types and session packets\<close>

definition typeSessionDummy :: byte where "typeSessionDummy = 0"
definition typeSessionTraffic :: byte where "typeSessionTraffic = 1"
definition typeSessionProto :: byte where "typeSessionProto = 2"

definition typeProtoDummy :: byte where "typeProtoDummy = 0"
definition typeProtoNodeInfoRequest :: byte where "typeProtoNodeInfoRequest = 1"
definition typeProtoNodeInfoResponse :: byte where "typeProtoNodeInfoResponse = 2"
definition typeProtoDebug :: byte where "typeProtoDebug = 255"

definition typeDebugDummy :: byte where "typeDebugDummy = 0"
definition typeDebugGetSelfRequest :: byte where "typeDebugGetSelfRequest = 1"
definition typeDebugGetSelfResponse :: byte where "typeDebugGetSelfResponse = 2"
definition typeDebugGetPeersRequest :: byte where "typeDebugGetPeersRequest = 3"
definition typeDebugGetPeersResponse :: byte where "typeDebugGetPeersResponse = 4"
definition typeDebugGetTreeRequest :: byte where "typeDebugGetTreeRequest = 5"
definition typeDebugGetTreeResponse :: byte where "typeDebugGetTreeResponse = 6"

lemmas type_defs =
  typeSessionDummy_def typeSessionTraffic_def typeSessionProto_def
  typeProtoDummy_def typeProtoNodeInfoRequest_def typeProtoNodeInfoResponse_def typeProtoDebug_def
  typeDebugDummy_def typeDebugGetSelfRequest_def typeDebugGetSelfResponse_def
  typeDebugGetPeersRequest_def typeDebugGetPeersResponse_def
  typeDebugGetTreeRequest_def typeDebugGetTreeResponse_def

record core_view =
  cv_key :: publicKey
  cv_routing_entries :: nat
  cv_peers :: "bytes list"
  cv_tree :: "bytes list"
  cv_pc_mtu :: u64

definition Core_MTU :: "u64 \<Rightarrow> u64" where
  "Core_MTU pc_mtu = (let mtu = pc_mtu - 1 in if mtu > 65535 then 65535 else mtu)"

text \<open>
  \<open>Core_ReadFrom\<close> reads from the packet connection, given as what its calls return, until traffic
  arrives for a reader with a buffer of \<open>plen\<close> bytes; protocol packets on the way are handed to the
  protocol handler.
\<close>

datatype pc_read = PcError | PcPacket bytes bytes

fun Core_ReadFrom :: "nat \<Rightarrow> pc_read list \<Rightarrow> ((bytes \<times> bytes) option \<times> (bytes \<times> bytes) list) option" where
  "Core_ReadFrom plen [] = None"
| "Core_ReadFrom plen (PcError # rs) = Some (None, [])"
| "Core_ReadFrom plen (PcPacket sender bs # rs) =
     (if bs = [] then Core_ReadFrom plen rs
      else if hd bs = typeSessionTraffic then Some (Some (sender, take plen (tl bs)), [])
      else if hd bs = typeSessionProto
      then map_option (\<lambda>(r, ps). (r, (array_of 32 sender, tl bs) # ps)) (Core_ReadFrom plen rs)
      else Core_ReadFrom plen rs)"

text \<open>\<open>Core_WriteTo\<close> gives the packet it writes and turns the count of the connection into its own.\<close>

definition Core_WriteTo :: "(bytes \<Rightarrow> 'e + int) \<Rightarrow> bytes \<Rightarrow> 'e + int" where
  "Core_WriteTo pc_write p =
     (case pc_write (typeSessionTraffic # p) of
        Inl e \<Rightarrow> Inl e
      | Inr n \<Rightarrow> Inr (if n > 0 then n - 1 else n))"

section \<open>The node information actor\<close>

record nodeinfoCallback =
  nc_call :: nat
  created :: nat

record nodeinfo =
  myNodeInfo :: bytes
  ni_callbacks :: "(publicKey, nodeinfoCallback) fmap"

datatype proto_out =
    PcWriteTo bytes publicKey
  | Callback nat bytes
  | StopTimer nat
  | AfterMinute nat
  | AfterHalfMinute

definition minute :: nat where "minute = 60000000000"

definition nodeinfo_cleanup :: "nat \<Rightarrow> nodeinfo \<Rightarrow> nodeinfo \<times> proto_out list" where
  "nodeinfo_cleanup now m =
     (m\<lparr>ni_callbacks := fmfilter (\<lambda>k. \<not> now - created (the (fmlookup (ni_callbacks m) k)) > minute) (ni_callbacks m)\<rparr>,
      [AfterHalfMinute])"

definition nodeinfo_init :: "nat \<Rightarrow> nodeinfo \<times> proto_out list" where
  "nodeinfo_init now = nodeinfo_cleanup now \<lparr>myNodeInfo = [], ni_callbacks = fmempty\<rparr>"

definition nodeinfo_addCallback :: "nat \<Rightarrow> publicKey \<Rightarrow> nat \<Rightarrow> nodeinfo \<Rightarrow> nodeinfo" where
  "nodeinfo_addCallback now sender cb m =
     m\<lparr>ni_callbacks := fmupd sender \<lparr>nc_call = cb, created = now\<rparr> (ni_callbacks m)\<rparr>"

definition nodeinfo_callback :: "publicKey \<Rightarrow> bytes \<Rightarrow> nodeinfo \<Rightarrow> nodeinfo \<times> proto_out list" where
  "nodeinfo_callback sender info m =
     (case fmlookup (ni_callbacks m) sender of
        None \<Rightarrow> (m, [])
      | Some c \<Rightarrow> (m\<lparr>ni_callbacks := fmdrop sender (ni_callbacks m)\<rparr>, [Callback (nc_call c) info]))"

definition BuildName :: "string \<Rightarrow> string" where
  "BuildName buildName = (if buildName = '''' then ''unknown'' else buildName)"

definition BuildVersion :: "string \<Rightarrow> string" where
  "BuildVersion buildVersion = (if buildVersion = '''' then ''unknown'' else buildVersion)"

record build =
  buildName :: string
  buildVersion :: string
  goos :: string
  goarch :: string

datatype nodeinfo_error = ErrMarshalling | ErrNodeInfoTooLong

definition nodeinfo_map :: "build \<Rightarrow> (string, json) fmap \<Rightarrow> bool \<Rightarrow> (string, json) fmap" where
  "nodeinfo_map b given privacy =
     (if privacy then given
      else fmupd ''buildarch'' (JStr (goarch b))
             (fmupd ''buildplatform'' (JStr (goos b))
               (fmupd ''buildversion'' (JStr (BuildVersion (buildVersion b)))
                 (fmupd ''buildname'' (JStr (BuildName (buildName b))) given))))"

definition setNodeInfo ::
  "build \<Rightarrow> (string, json) fmap \<Rightarrow> bool \<Rightarrow> nodeinfo \<Rightarrow> nodeinfo_error option \<times> nodeinfo" where
  "setNodeInfo b given privacy m =
     (case json_Marshal (json_map (nodeinfo_map b given privacy)) of
        None \<Rightarrow> (Some ErrMarshalling, m)
      | Some newjson \<Rightarrow>
          if length newjson > 16384 then (Some ErrNodeInfoTooLong, m)
          else (None, m\<lparr>myNodeInfo := ascii newjson\<rparr>))"

definition nodeinfo_sendReq ::
  "nat \<Rightarrow> publicKey \<Rightarrow> nat option \<Rightarrow> nodeinfo \<Rightarrow> nodeinfo \<times> proto_out list" where
  "nodeinfo_sendReq now key callback m =
     (case callback of None \<Rightarrow> m | Some cb \<Rightarrow> nodeinfo_addCallback now key cb m,
      [PcWriteTo [typeSessionProto, typeProtoNodeInfoRequest] key])"

definition nodeinfo_sendRes :: "publicKey \<Rightarrow> nodeinfo \<Rightarrow> proto_out list" where
  "nodeinfo_sendRes key m =
     [PcWriteTo ([typeSessionProto, typeProtoNodeInfoResponse] @ myNodeInfo m) key]"

section \<open>The protocol handler\<close>

record reqInfo =
  req_ptr :: nat
  callback :: nat

type_synonym request_table = "(publicKey, reqInfo) fmap"

record protoHandler =
  ph_nodeinfo :: nodeinfo
  selfRequests :: request_table
  peersRequests :: request_table
  treeRequests :: request_table
  next_req :: nat

definition proto_init :: "nat \<Rightarrow> protoHandler \<times> proto_out list" where
  "proto_init now =
     (let (ni, outs) = nodeinfo_init now
      in (\<lparr>ph_nodeinfo = ni, selfRequests = fmempty, peersRequests = fmempty, treeRequests = fmempty,
           next_req = 0\<rparr>, outs))"

definition sendDebug :: "publicKey \<Rightarrow> byte \<Rightarrow> bytes \<Rightarrow> proto_out list" where
  "sendDebug key dType bs = [PcWriteTo ([typeSessionProto, typeProtoDebug, dType] @ bs) key]"

text \<open>What the three request functions do to their table, and what the three response handlers do.\<close>

definition put_request :: "nat \<Rightarrow> publicKey \<Rightarrow> nat \<Rightarrow> request_table \<Rightarrow> request_table \<times> proto_out list" where
  "put_request ptr key cb m =
     (let (m, stopped) = (case fmlookup m key of
            None \<Rightarrow> (m, [])
          | Some info \<Rightarrow> (fmdrop key m, [StopTimer (req_ptr info)]))
      in (fmupd key \<lparr>req_ptr = ptr, callback = cb\<rparr> m, stopped @ [AfterMinute ptr]))"

definition expire_request :: "publicKey \<Rightarrow> nat \<Rightarrow> request_table \<Rightarrow> request_table" where
  "expire_request key ptr m =
     (case fmlookup m key of
        None \<Rightarrow> m
      | Some info \<Rightarrow> if req_ptr info = ptr then fmdrop key m else m)"

definition answer_request :: "publicKey \<Rightarrow> bytes \<Rightarrow> request_table \<Rightarrow> request_table \<times> proto_out list" where
  "answer_request key bs m =
     (case fmlookup m key of
        None \<Rightarrow> (m, [])
      | Some info \<Rightarrow> (fmdrop key m, [StopTimer (req_ptr info), Callback (callback info) bs]))"

subsection \<open>Get self\<close>

definition sendGetSelfRequest :: "publicKey \<Rightarrow> nat \<Rightarrow> protoHandler \<Rightarrow> protoHandler \<times> proto_out list" where
  "sendGetSelfRequest key cb p =
     (let (m, outs) = put_request (next_req p) key cb (selfRequests p)
      in (p\<lparr>selfRequests := m, next_req := Suc (next_req p)\<rparr>, outs @ sendDebug key typeDebugGetSelfRequest []))"

definition self_json :: "core_view \<Rightarrow> json" where
  "self_json c =
     json_map (fmupd ''routing_entries'' (JStr (show_nat (cv_routing_entries c)))
       (fmupd ''key'' (JStr (hex_encode (cv_key c))) fmempty))"

definition handleGetSelfRequest :: "core_view \<Rightarrow> publicKey \<Rightarrow> proto_out list" where
  "handleGetSelfRequest c key =
     (case json_Marshal (self_json c) of
        None \<Rightarrow> []
      | Some bs \<Rightarrow> sendDebug key typeDebugGetSelfResponse (ascii bs))"

definition handleGetSelfResponse :: "publicKey \<Rightarrow> bytes \<Rightarrow> protoHandler \<Rightarrow> protoHandler \<times> proto_out list" where
  "handleGetSelfResponse key bs p =
     (let (m, outs) = answer_request key bs (selfRequests p) in (p\<lparr>selfRequests := m\<rparr>, outs))"

subsection \<open>Get peers\<close>

definition sendGetPeersRequest :: "publicKey \<Rightarrow> nat \<Rightarrow> protoHandler \<Rightarrow> protoHandler \<times> proto_out list" where
  "sendGetPeersRequest key cb p =
     (let (m, outs) = put_request (next_req p) key cb (peersRequests p)
      in (p\<lparr>peersRequests := m, next_req := Suc (next_req p)\<rparr>, outs @ sendDebug key typeDebugGetPeersRequest []))"

fun collect_keys :: "u64 \<Rightarrow> bytes \<Rightarrow> bytes list \<Rightarrow> bytes" where
  "collect_keys mtu bs [] = bs"
| "collect_keys mtu bs (k # ks) =
     (let tmp = bs @ k
      in if of_nat (length tmp) + 2 > mtu then bs else collect_keys mtu tmp ks)"

definition handleGetPeersRequest :: "core_view \<Rightarrow> publicKey \<Rightarrow> proto_out list" where
  "handleGetPeersRequest c key =
     sendDebug key typeDebugGetPeersResponse (collect_keys (Core_MTU (cv_pc_mtu c)) [] (cv_peers c))"

definition handleGetPeersResponse :: "publicKey \<Rightarrow> bytes \<Rightarrow> protoHandler \<Rightarrow> protoHandler \<times> proto_out list" where
  "handleGetPeersResponse key bs p =
     (let (m, outs) = answer_request key bs (peersRequests p) in (p\<lparr>peersRequests := m\<rparr>, outs))"

subsection \<open>Get tree\<close>

definition sendGetTreeRequest :: "publicKey \<Rightarrow> nat \<Rightarrow> protoHandler \<Rightarrow> protoHandler \<times> proto_out list" where
  "sendGetTreeRequest key cb p =
     (let (m, outs) = put_request (next_req p) key cb (treeRequests p)
      in (p\<lparr>treeRequests := m, next_req := Suc (next_req p)\<rparr>, outs @ sendDebug key typeDebugGetTreeRequest []))"

definition handleGetTreeRequest :: "core_view \<Rightarrow> publicKey \<Rightarrow> proto_out list" where
  "handleGetTreeRequest c key =
     sendDebug key typeDebugGetTreeResponse (collect_keys (Core_MTU (cv_pc_mtu c)) [] (cv_tree c))"

definition handleGetTreeResponse :: "publicKey \<Rightarrow> bytes \<Rightarrow> protoHandler \<Rightarrow> protoHandler \<times> proto_out list" where
  "handleGetTreeResponse key bs p =
     (let (m, outs) = answer_request key bs (treeRequests p) in (p\<lparr>treeRequests := m\<rparr>, outs))"

subsection \<open>Dispatch\<close>

definition handleDebug :: "core_view \<Rightarrow> publicKey \<Rightarrow> bytes \<Rightarrow> protoHandler \<Rightarrow> protoHandler \<times> proto_out list" where
  "handleDebug c key bs p =
     (if bs = [] then (p, [])
      else if hd bs = typeDebugDummy then (p, [])
      else if hd bs = typeDebugGetSelfRequest then (p, handleGetSelfRequest c key)
      else if hd bs = typeDebugGetSelfResponse then handleGetSelfResponse key (tl bs) p
      else if hd bs = typeDebugGetPeersRequest then (p, handleGetPeersRequest c key)
      else if hd bs = typeDebugGetPeersResponse then handleGetPeersResponse key (tl bs) p
      else if hd bs = typeDebugGetTreeRequest then (p, handleGetTreeRequest c key)
      else if hd bs = typeDebugGetTreeResponse then handleGetTreeResponse key (tl bs) p
      else (p, []))"

definition handleProto :: "core_view \<Rightarrow> publicKey \<Rightarrow> bytes \<Rightarrow> protoHandler \<Rightarrow> protoHandler \<times> proto_out list" where
  "handleProto c key bs p =
     (if bs = [] then (p, [])
      else if hd bs = typeProtoDummy then (p, [])
      else if hd bs = typeProtoNodeInfoRequest then (p, nodeinfo_sendRes key (ph_nodeinfo p))
      else if hd bs = typeProtoNodeInfoResponse
      then (let (m, outs) = nodeinfo_callback key (tl bs) (ph_nodeinfo p) in (p\<lparr>ph_nodeinfo := m\<rparr>, outs))
      else if hd bs = typeProtoDebug then handleDebug c key (tl bs) p
      else (p, []))"

section \<open>Admin handlers\<close>

text \<open>
  An admin handler gets the key field of the request, or \<open>None\<close> when the request is not valid JSON,
  sends its question and waits: \<open>reply\<close> is what arrives on its channel, or \<open>None\<close> when the six seconds
  pass first.
\<close>

datatype proto_error = ErrUnmarshal | ErrNoKey | ErrHex | ErrKeyLength | ErrNoReply

definition handler_key :: "string \<Rightarrow> proto_error + publicKey" where
  "handler_key s =
     (case hex_decode s of
        None \<Rightarrow> Inl ErrHex
      | Some kbs \<Rightarrow> if length kbs \<noteq> publicKeySize then Inl ErrKeyLength else Inr (array_of 32 kbs))"

definition reply_for :: "publicKey \<Rightarrow> bytes \<Rightarrow> (proto_error + (address \<times> bytes)) go" where
  "reply_for kbs msg = (case AddrForKey kbs of None \<Rightarrow> Panic | Some ip \<Rightarrow> Ok (Inr (ip, msg)))"

definition getSelfHandler ::
  "string option \<Rightarrow> nat \<Rightarrow> bytes option \<Rightarrow> protoHandler \<Rightarrow>
     ((proto_error + (address \<times> bytes)) \<times> protoHandler \<times> proto_out list) go" where
  "getSelfHandler req ch reply p =
     (case req of
        None \<Rightarrow> Ok (Inl ErrUnmarshal, p, [])
      | Some s \<Rightarrow>
          (case handler_key s of
             Inl e \<Rightarrow> Ok (Inl e, p, [])
           | Inr key \<Rightarrow>
               (let sent = sendGetSelfRequest key ch p
                in case reply of
                     None \<Rightarrow> Ok (Inl ErrNoReply, sent)
                   | Some info \<Rightarrow> go_bind (reply_for key info) (\<lambda>r. Ok (r, sent)))))"

function split_keys :: "bytes \<Rightarrow> string list" where
  "split_keys bs =
     (if length bs \<ge> 32 then hex_encode (take 32 bs) # split_keys (drop 32 bs) else [])"
  by pat_completeness auto
termination by (relation "measure length") auto

declare split_keys.simps [simp del]

text \<open>The map \<open>ks\<close> has the entry \<open>keys\<close> only when the loop ran.\<close>

definition keys_json :: "string list \<Rightarrow> json" where
  "keys_json ks = (if ks = [] then JObj [] else JObj [(''keys'', JArr (map JStr ks))])"

definition getPeersHandler ::
  "string option \<Rightarrow> nat \<Rightarrow> bytes option \<Rightarrow> protoHandler \<Rightarrow>
     ((proto_error + (address \<times> bytes)) \<times> protoHandler \<times> proto_out list) go" where
  "getPeersHandler req ch reply p =
     (case req of
        None \<Rightarrow> Ok (Inl ErrUnmarshal, p, [])
      | Some s \<Rightarrow>
          (case handler_key s of
             Inl e \<Rightarrow> Ok (Inl e, p, [])
           | Inr key \<Rightarrow>
               (let sent = sendGetPeersRequest key ch p
                in case reply of
                     None \<Rightarrow> Ok (Inl ErrNoReply, sent)
                   | Some info \<Rightarrow>
                       (case json_Marshal (keys_json (split_keys info)) of
                          None \<Rightarrow> Ok (Inl ErrUnmarshal, sent)
                        | Some js \<Rightarrow> go_bind (reply_for key (ascii js)) (\<lambda>r. Ok (r, sent))))))"

definition getTreeHandler ::
  "string option \<Rightarrow> nat \<Rightarrow> bytes option \<Rightarrow> protoHandler \<Rightarrow>
     ((proto_error + (address \<times> bytes)) \<times> protoHandler \<times> proto_out list) go" where
  "getTreeHandler req ch reply p =
     (case req of
        None \<Rightarrow> Ok (Inl ErrUnmarshal, p, [])
      | Some s \<Rightarrow>
          (case handler_key s of
             Inl e \<Rightarrow> Ok (Inl e, p, [])
           | Inr key \<Rightarrow>
               (let sent = sendGetTreeRequest key ch p
                in case reply of
                     None \<Rightarrow> Ok (Inl ErrNoReply, sent)
                   | Some info \<Rightarrow>
                       (case json_Marshal (keys_json (split_keys info)) of
                          None \<Rightarrow> Ok (Inl ErrUnmarshal, sent)
                        | Some js \<Rightarrow> go_bind (reply_for key (ascii js)) (\<lambda>r. Ok (r, sent))))))"

definition nodeInfoAdminHandler ::
  "nat \<Rightarrow> string option \<Rightarrow> nat \<Rightarrow> bytes option \<Rightarrow> nodeinfo \<Rightarrow>
     (proto_error + (string \<times> bytes)) \<times> nodeinfo \<times> proto_out list" where
  "nodeInfoAdminHandler now req ch reply m =
     (case req of
        None \<Rightarrow> (Inl ErrUnmarshal, m, [])
      | Some s \<Rightarrow>
          if s = '''' then (Inl ErrNoKey, m, [])
          else
            (case handler_key s of
               Inl e \<Rightarrow> (Inl e, m, [])
             | Inr key \<Rightarrow>
                 (let sent = nodeinfo_sendReq now key (Some ch) m
                  in case reply of
                       None \<Rightarrow> (Inl ErrNoReply, sent)
                     | Some info \<Rightarrow> (Inr (hex_encode key, info), sent))))"

section \<open>Runs of the protocol handler\<close>

text \<open>
  The events of the handler: a local question for a node, a protocol packet from a node (with what
  the handler sees of its own node at that time), the timer of a request, the periodic cleanup of the
  node information actor, and a new node information.
\<close>

datatype request_kind = AskSelf | AskPeers | AskTree | AskNodeInfo

datatype proto_event =
    Ask request_kind publicKey nat nat
  | Receive publicKey bytes core_view
  | Expire request_kind publicKey nat
  | Cleanup nat
  | SetInfo build "(string, json) fmap" bool

definition ask :: "request_kind \<Rightarrow> publicKey \<Rightarrow> nat \<Rightarrow> nat \<Rightarrow> protoHandler \<Rightarrow> protoHandler \<times> proto_out list" where
  "ask t key cb now p =
     (case t of
        AskSelf \<Rightarrow> sendGetSelfRequest key cb p
      | AskPeers \<Rightarrow> sendGetPeersRequest key cb p
      | AskTree \<Rightarrow> sendGetTreeRequest key cb p
      | AskNodeInfo \<Rightarrow>
          (let (m, outs) = nodeinfo_sendReq now key (Some cb) (ph_nodeinfo p) in (p\<lparr>ph_nodeinfo := m\<rparr>, outs)))"

definition expire :: "request_kind \<Rightarrow> publicKey \<Rightarrow> nat \<Rightarrow> protoHandler \<Rightarrow> protoHandler" where
  "expire t key ptr p =
     (case t of
        AskSelf \<Rightarrow> p\<lparr>selfRequests := expire_request key ptr (selfRequests p)\<rparr>
      | AskPeers \<Rightarrow> p\<lparr>peersRequests := expire_request key ptr (peersRequests p)\<rparr>
      | AskTree \<Rightarrow> p\<lparr>treeRequests := expire_request key ptr (treeRequests p)\<rparr>
      | AskNodeInfo \<Rightarrow> p)"

fun proto_step :: "protoHandler \<Rightarrow> proto_event \<Rightarrow> (protoHandler \<times> proto_out list) go" where
  "proto_step p (Ask t key cb now) = Ok (ask t key cb now p)"
| "proto_step p (Receive key bs c) = Ok (handleProto c key bs p)"
| "proto_step p (Expire t key ptr) = Ok (expire t key ptr p, [])"
| "proto_step p (Cleanup now) =
     Ok (let (m, outs) = nodeinfo_cleanup now (ph_nodeinfo p) in (p\<lparr>ph_nodeinfo := m\<rparr>, outs))"
| "proto_step p (SetInfo b given privacy) =
     Ok (p\<lparr>ph_nodeinfo := snd (setNodeInfo b given privacy (ph_nodeinfo p))\<rparr>, [])"

definition proto_start :: protoHandler where
  "proto_start = fst (proto_init 0)"

text \<open>
  Who waits for an answer of a given kind from a given node: the callback, and the stamp by which its
  timeout finds it (the request record, or the time for node information).
\<close>

definition entry :: "request_kind \<Rightarrow> protoHandler \<Rightarrow> publicKey \<Rightarrow> (nat \<times> nat) option" where
  "entry t p k =
     (case t of
        AskSelf \<Rightarrow> map_option (\<lambda>i. (callback i, req_ptr i)) (fmlookup (selfRequests p) k)
      | AskPeers \<Rightarrow> map_option (\<lambda>i. (callback i, req_ptr i)) (fmlookup (peersRequests p) k)
      | AskTree \<Rightarrow> map_option (\<lambda>i. (callback i, req_ptr i)) (fmlookup (treeRequests p) k)
      | AskNodeInfo \<Rightarrow> map_option (\<lambda>i. (nc_call i, created i)) (fmlookup (ni_callbacks (ph_nodeinfo p)) k))"

fun response_header :: "request_kind \<Rightarrow> bytes" where
  "response_header AskSelf = [typeProtoDebug, typeDebugGetSelfResponse]"
| "response_header AskPeers = [typeProtoDebug, typeDebugGetPeersResponse]"
| "response_header AskTree = [typeProtoDebug, typeDebugGetTreeResponse]"
| "response_header AskNodeInfo = [typeProtoNodeInfoResponse]"

fun stamp :: "request_kind \<Rightarrow> nat \<Rightarrow> protoHandler \<Rightarrow> nat" where
  "stamp AskNodeInfo now p = now"
| "stamp t now p = next_req p"

lemmas table_defs = put_request_def expire_request_def answer_request_def
lemmas send_defs = sendGetSelfRequest_def sendGetPeersRequest_def sendGetTreeRequest_def
  nodeinfo_sendReq_def nodeinfo_addCallback_def

lemma entry_ask:
  "entry t' (fst (ask t k cb now p)) k' = (if t' = t \<and> k' = k then Some (cb, stamp t now p) else entry t' p k')"
  by (cases t; cases t') (auto simp: entry_def ask_def send_defs table_defs Let_def split: option.splits)

lemma entry_expire:
  "entry t' (expire t k q p) k' =
     (if t' = t \<and> k' = k \<and> t \<noteq> AskNodeInfo \<and> map_option snd (entry t p k) = Some q then None else entry t' p k')"
  by (cases t; cases t') (auto simp: entry_def expire_def table_defs split: option.splits)

lemma entry_set_info: "entry t (p\<lparr>ph_nodeinfo := snd (setNodeInfo b g pr (ph_nodeinfo p))\<rparr>) k = entry t p k"
  by (cases t) (auto simp: entry_def setNodeInfo_def split: option.splits)

lemma entry_cleanup:
  "entry t (p\<lparr>ph_nodeinfo := fst (nodeinfo_cleanup now (ph_nodeinfo p))\<rparr>) k =
     (case entry t p k of
        None \<Rightarrow> None
      | Some (c, s) \<Rightarrow> if t = AskNodeInfo \<and> now - s > minute then None else Some (c, s))"
  by (cases t) (auto simp: entry_def nodeinfo_cleanup_def split: option.splits)

text \<open>A packet is a response of at most one kind.\<close>

definition response_kind :: "bytes \<Rightarrow> request_kind option" where
  "response_kind bs =
     (if take 1 bs = response_header AskNodeInfo then Some AskNodeInfo
      else if take 2 bs = response_header AskSelf then Some AskSelf
      else if take 2 bs = response_header AskPeers then Some AskPeers
      else if take 2 bs = response_header AskTree then Some AskTree
      else None)"

lemma response_kind_header [simp]: "response_kind (response_header t @ bs) = Some t"
  by (cases t) (simp_all add: response_kind_def type_defs)

lemma response_kindD: "response_kind bs = Some t \<Longrightarrow> \<exists>rest. bs = response_header t @ rest"
  by (cases bs; cases "tl bs") (auto simp: response_kind_def split: if_splits)

lemma handleProto_other:
  "response_kind bs = None \<Longrightarrow> fst (handleProto c k bs p) = p \<and> (\<forall>x b. Callback x b \<notin> set (snd (handleProto c k bs p)))"
  by (cases bs; cases "tl bs")
     (auto simp: handleProto_def handleDebug_def response_kind_def nodeinfo_sendRes_def
        handleGetSelfRequest_def handleGetPeersRequest_def handleGetTreeRequest_def sendDebug_def
        split: if_splits option.splits)

text \<open>What a response does, whatever its kind.\<close>

lemma handleProto_response:
  "entry t' (fst (handleProto c k (response_header t @ bs) p)) k' = (if t' = t \<and> k' = k then None else entry t' p k')"
  "Callback x b \<in> set (snd (handleProto c k (response_header t @ bs) p)) \<longleftrightarrow> (\<exists>s. entry t p k = Some (x, s)) \<and> b = bs"
  by (cases t; cases t';
      auto simp: handleProto_def handleDebug_def type_defs entry_def nodeinfo_callback_def answer_request_def
        handleGetSelfResponse_def handleGetPeersResponse_def handleGetTreeResponse_def Let_def
        split: option.splits prod.splits)+

fun called :: "proto_out list \<Rightarrow> nat list" where
  "called [] = []"
| "called (Callback c bs # outs) = c # called outs"
| "called (_ # outs) = called outs"

lemma called_append [simp]: "called (a @ b) = called a @ called b"
  by (induction a rule: called.induct) simp_all

lemma in_called: "c \<in> set (called outs) \<longleftrightarrow> (\<exists>bs. Callback c bs \<in> set outs)"
  by (induction outs rule: called.induct) auto

lemma called_response:
  "called (snd (handleProto c k (response_header t @ bs) p)) = (case entry t p k of None \<Rightarrow> [] | Some (x, _) \<Rightarrow> [x])"
  by (cases t)
     (auto simp: handleProto_def handleDebug_def type_defs entry_def nodeinfo_callback_def answer_request_def
        handleGetSelfResponse_def handleGetPeersResponse_def handleGetTreeResponse_def Let_def
        split: option.splits prod.splits)

lemma ask_no_callback [simp]: "called (snd (ask t k cb now p)) = []"
  by (cases t) (auto simp: ask_def send_defs table_defs sendDebug_def Let_def split: option.splits)

lemma cleanup_no_callback [simp]: "called (snd (nodeinfo_cleanup now m)) = []"
  by (simp add: nodeinfo_cleanup_def)


lemma step_callback:
  assumes "proto_step p e = Ok (p', outs)" "Callback x b \<in> set outs"
  shows "\<exists>t k c s. e = Receive k (response_header t @ b) c \<and> entry t p k = Some (x, s)"
proof (cases e)
  case (Receive k bs c)
  with assms have out: "Callback x b \<in> set (snd (handleProto c k bs p))" by (metis go.inject proto_step.simps(2) snd_conv)
  then obtain t where "response_kind bs = Some t" using handleProto_other by (cases "response_kind bs") auto
  then obtain rest where bs: "bs = response_header t @ rest" using response_kindD by blast
  with out Receive show ?thesis using handleProto_response(2) [of x b c k t rest p] by blast
next
  case (Ask t k c now)
  then have "x \<in> set (called (snd (ask t k c now p)))" using assms by (auto simp: in_called)
  then show ?thesis by simp
next
  case (Cleanup now)
  then show ?thesis using assms by (auto simp: nodeinfo_cleanup_def)
qed (use assms in auto)

lemma entry_receive:
  "entry t (fst (handleProto c k' bs p)) k = (if response_kind bs = Some t \<and> k = k' then None else entry t p k)"
proof (cases "response_kind bs")
  case None
  then show ?thesis using handleProto_other [of bs c k' p] by simp
next
  case (Some t')
  then obtain rest where bs: "bs = response_header t' @ rest" using response_kindD by blast
  show ?thesis by (simp add: bs handleProto_response(1))
qed

lemma step_entry:
  assumes "proto_step p e = Ok (p', outs)" "entry t p' k = Some (x, s)"
  shows "entry t p k = Some (x, s) \<or> (\<exists>now. e = Ask t k x now)"
proof (cases e)
  case (Ask t' k' c now)
  with assms have "entry t (fst (ask t' k' c now p)) k = Some (x, s)" by simp
  then show ?thesis using Ask by (auto simp: entry_ask split: if_splits)
next
  case (Receive k' bs c)
  with assms have "entry t (fst (handleProto c k' bs p)) k = Some (x, s)" by simp
  then show ?thesis by (auto simp: entry_receive split: if_splits)
next
  case (Expire t' k' q)
  with assms have "entry t (expire t' k' q p) k = Some (x, s)" by simp
  then show ?thesis by (auto simp: entry_expire split: if_splits)
next
  case (Cleanup now)
  with assms have "p' = p\<lparr>ph_nodeinfo := fst (nodeinfo_cleanup now (ph_nodeinfo p))\<rparr>"
    by (simp add: Let_def split: prod.splits)
  with assms show ?thesis using entry_cleanup [where t = t and p = p and now = now and k = k] by (auto split: option.splits if_splits)
next
  case (SetInfo b g pr)
  with assms show ?thesis using entry_set_info [where t = t and p = p and k = k] by auto
qed

lemma entry_start [simp]: "entry t proto_start k = None"
  by (cases t) (simp_all add: entry_def proto_start_def proto_init_def nodeinfo_init_def nodeinfo_cleanup_def)

lemma run_snoc_Ok:
  assumes "run_events step s (es @ [e]) = Ok (s'', outs)"
  obtains s' o1 o2 where "run_events step s es = Ok (s', o1)" "step s' e = Ok (s'', o2)" "outs = o1 @ o2"
proof -
  obtain s' o1 where 1: "run_events step s es = Ok (s', o1)"
    using assms by (cases "run_events step s es") (auto simp: run_events_append)
  obtain s2 o2 where 2: "step s' e = Ok (s2, o2)"
    using assms 1 by (cases "step s' e") (auto simp: run_events_append)
  show ?thesis using that [OF 1] assms 1 2 by (auto simp: run_events_append)
qed

lemma entry_was_asked:
  assumes "run_events proto_step proto_start es = Ok (p, outs)" "entry t p k = Some (x, s)"
  shows "\<exists>pre now post. es = pre @ Ask t k x now # post"
  using assms
proof (induction es arbitrary: p outs rule: rev_induct)
  case (snoc e es)
  obtain q o1 o2 where r: "run_events proto_step proto_start es = Ok (q, o1)" "proto_step q e = Ok (p, o2)"
    using run_snoc_Ok [OF snoc.prems(1)] by metis
  show ?case
  proof (cases "entry t q k = Some (x, s)")
    case True
    then obtain pre now post where "es = pre @ Ask t k x now # post" using snoc.IH [OF r(1)] by blast
    then show ?thesis by (intro exI [of _ pre] exI [of _ now] exI [of _ "post @ [e]"]) simp
  next
    case False
    then obtain now where "e = Ask t k x now" using step_entry [OF r(2) snoc.prems(2)] by blast
    then show ?thesis by blast
  qed
qed simp

lemma answer_traced:
  assumes "run_events proto_step proto_start es = Ok (p, outs)" "Callback x b \<in> set outs"
  shows "\<exists>pre t k now mid c post. es = pre @ Ask t k x now # mid @ Receive k (response_header t @ b) c # post"
  using assms
proof (induction es arbitrary: p outs rule: rev_induct)
  case (snoc e es)
  obtain q o1 o2 where r: "run_events proto_step proto_start es = Ok (q, o1)" "proto_step q e = Ok (p, o2)" "outs = o1 @ o2"
    using run_snoc_Ok [OF snoc.prems(1)] by metis
  show ?case
  proof (cases "Callback x b \<in> set o1")
    case True
    obtain pre t k now mid c post
      where "es = pre @ Ask t k x now # mid @ Receive k (response_header t @ b) c # post"
      using snoc.IH [OF r(1) True] by blast
    then have "es @ [e] = pre @ Ask t k x now # mid @ Receive k (response_header t @ b) c # post @ [e]" by simp
    then show ?thesis by blast
  next
    case False
    then have "Callback x b \<in> set o2" using snoc.prems(2) r(3) by simp
    from step_callback [OF r(2) this] obtain t k c s
      where e: "e = Receive k (response_header t @ b) c" "entry t q k = Some (x, s)" by blast
    obtain pre now post where "es = pre @ Ask t k x now # post" using entry_was_asked [OF r(1) e(2)] by blast
    then have "es @ [e] = pre @ Ask t k x now # post @ Receive k (response_header t @ b) c # []" by (simp add: e)
    then show ?thesis by blast
  qed
qed simp


subsection \<open>Every callback is called at most once\<close>

fun asked :: "proto_event list \<Rightarrow> nat list" where
  "asked [] = []"
| "asked (Ask t k c now # es) = c # asked es"
| "asked (_ # es) = asked es"

text \<open>The callbacks that wait in state \<open>p\<close> are asked and not yet called, and none waits twice.\<close>

definition tracked :: "nat set \<Rightarrow> nat set \<Rightarrow> protoHandler \<Rightarrow> bool" where
  "tracked A C p \<longleftrightarrow>
     C \<subseteq> A \<and>
     (\<forall>t k x s. entry t p k = Some (x, s) \<longrightarrow> x \<in> A - C) \<and>
     (\<forall>t k x s t' k' s'. entry t p k = Some (x, s) \<longrightarrow> entry t' p k' = Some (x, s') \<longrightarrow> t' = t \<and> k' = k)"

lemma tracked_sub:
  assumes "tracked A C p" "\<And>t k x s. entry t p' k = Some (x, s) \<Longrightarrow> entry t p k = Some (x, s)"
  shows "tracked A C p'"
  using assms unfolding tracked_def by blast

lemma tracked_ask:
  assumes "tracked A C p" "x \<notin> A"
  shows "tracked (insert x A) C (fst (ask t k x now p))"
proof -
  have no: "entry t' p k' \<noteq> Some (x, s)" for t' k' s
    using assms unfolding tracked_def by blast
  have keep: "\<exists>s. entry t' p k' = Some (y, s)"
    if "entry t' (fst (ask t k x now p)) k' = Some (y, s)" "y \<noteq> x" for t' k' y s
    using that by (auto simp: entry_ask split: if_splits)
  have new: "t' = t \<and> k' = k" if "entry t' (fst (ask t k x now p)) k' = Some (x, s)" for t' k' s
    using that no by (auto simp: entry_ask split: if_splits)
  show ?thesis unfolding tracked_def
  proof (intro conjI allI impI)
    fix t1 k1 y s1 assume e: "entry t1 (fst (ask t k x now p)) k1 = Some (y, s1)"
    show "y \<in> insert x A - C"
      using keep [OF e] assms unfolding tracked_def by (cases "y = x") blast+
    fix t2 k2 s2 assume e2: "entry t2 (fst (ask t k x now p)) k2 = Some (y, s2)"
    have "t2 = t1 \<and> k2 = k1"
    proof (cases "y = x")
      case True
      then show ?thesis using new e e2 by metis
    next
      case False
      then show ?thesis using keep [OF e] keep [OF e2] assms(1) unfolding tracked_def by blast
    qed
    then show "t2 = t1" "k2 = k1" by auto
  qed (use assms in \<open>auto simp: tracked_def\<close>)
qed

lemma trackedD:
  assumes "tracked A C p" "entry t p k = Some (x, s)"
  shows "x \<in> A" "x \<notin> C" "entry t' p k' = Some (x, s') \<Longrightarrow> t' = t \<and> k' = k"
  using assms unfolding tracked_def by blast+

lemma tracked_drop:
  assumes "tracked A C p" "entry t p k = Some (x, s)"
    "\<And>t' k'. entry t' p' k' = (if t' = t \<and> k' = k then None else entry t' p k')"
  shows "tracked A (insert x C) p'"
proof -
  have sub: "entry t' p k' = Some (y, r) \<and> y \<noteq> x" if "entry t' p' k' = Some (y, r)" for t' k' y r
  proof -
    have "entry t' p k' = Some (y, r)" "\<not> (t' = t \<and> k' = k)"
      using that unfolding assms(3) by (auto split: if_splits)
    then show ?thesis using trackedD(3) [OF assms(1,2)] by blast
  qed
  have "tracked A C p'" by (rule tracked_sub [OF assms(1)]) (use sub in blast)
  moreover have "x \<in> A" by (rule trackedD(1) [OF assms(1,2)])
  ultimately show ?thesis using sub unfolding tracked_def by blast
qed

lemma tracked_receive:
  assumes "tracked A C p"
  shows "tracked A (C \<union> set (called (snd (handleProto c k bs p)))) (fst (handleProto c k bs p))
    \<and> distinct (called (snd (handleProto c k bs p)))
    \<and> set (called (snd (handleProto c k bs p))) \<subseteq> A - C"
proof (cases "response_kind bs")
  case None
  have "x \<notin> set (called (snd (handleProto c k bs p)))" for x
    using handleProto_other [OF None] by (simp add: in_called)
  then have "called (snd (handleProto c k bs p)) = []" by (meson last_in_set)
  then show ?thesis using assms handleProto_other [OF None] by simp
next
  case (Some t)
  then obtain rest where bs: "bs = response_header t @ rest" using response_kindD by blast
  show ?thesis
  proof (cases "entry t p k")
    case None
    then have "tracked A C (fst (handleProto c k bs p))"
      by (intro tracked_sub [OF assms]) (auto simp: entry_receive split: if_splits)
    then show ?thesis using None by (simp add: bs called_response)
  next
    case (Some xs)
    obtain x s where xs: "xs = (x, s)" by (cases xs)
    have "called (snd (handleProto c k bs p)) = [x]" using Some by (simp add: bs called_response xs)
    moreover have "tracked A (insert x C) (fst (handleProto c k bs p))"
      by (rule tracked_drop [OF assms Some [unfolded xs]]) (simp add: bs handleProto_response(1))
    ultimately show ?thesis using trackedD(1,2) [OF assms Some [unfolded xs]] by simp
  qed
qed

lemma tracked_step:
  assumes "tracked A C p" "proto_step p e = Ok (p', outs)" "set (asked [e]) \<inter> A = {}"
  shows "tracked (A \<union> set (asked [e])) (C \<union> set (called outs)) p' \<and> distinct (called outs) \<and> set (called outs) \<subseteq> A - C"
proof (cases e)
  case (Ask t k x now)
  then show ?thesis using tracked_ask [OF assms(1), of x t k now] assms(2,3) ask_no_callback [of t k x now p] by auto
next
  case (Receive k bs c)
  then show ?thesis using tracked_receive [OF assms(1), of c k bs] assms(2) by auto
next
  case (Expire t k q)
  then have "tracked A C p'"
    using assms by (intro tracked_sub [OF assms(1)]) (auto simp: entry_expire split: if_splits)
  then show ?thesis using Expire assms(2) by auto
next
  case (Cleanup now)
  then have p': "p' = p\<lparr>ph_nodeinfo := fst (nodeinfo_cleanup now (ph_nodeinfo p))\<rparr>" "called outs = []"
    using assms(2) by (auto simp: Let_def nodeinfo_cleanup_def split: prod.splits)
  have "tracked A C p'"
    unfolding p' by (intro tracked_sub [OF assms(1)]) (auto simp: entry_cleanup split: option.splits if_splits)
  then show ?thesis using Cleanup p'(2) by auto
next
  case (SetInfo b g pr)
  then have "tracked A C p'"
    using assms by (intro tracked_sub [OF assms(1)]) (auto simp: entry_set_info)
  then show ?thesis using SetInfo assms(2) by auto
qed

lemma tracked_run:
  assumes "tracked A C p" "run_events proto_step p es = Ok (p', outs)" "distinct (asked es)" "set (asked es) \<inter> A = {}"
  shows "distinct (called outs) \<and> set (called outs) \<inter> C = {}"
  using assms
proof (induction es arbitrary: A C p outs)
  case (Cons e es)
  obtain p1 o1 where 1: "proto_step p e = Ok (p1, o1)" by (cases "proto_step p e") (use Cons.prems in auto)
  obtain p2 o2 where 2: "run_events proto_step p1 es = Ok (p2, o2)" "outs = o1 @ o2"
    by (cases "run_events proto_step p1 es") (use Cons.prems 1 in auto)
  have split: "asked (e # es) = asked [e] @ asked es" by (cases e) auto
  have step: "tracked (A \<union> set (asked [e])) (C \<union> set (called o1)) p1" "distinct (called o1)" "set (called o1) \<subseteq> A - C"
    using tracked_step [OF Cons.prems(1) 1] Cons.prems(4) unfolding split by auto
  have p2: "p2 = p'" using Cons.prems(2) 1 2 by simp
  have "distinct (called o2) \<and> set (called o2) \<inter> (C \<union> set (called o1)) = {}"
    using Cons.prems(3,4) 2(1) unfolding split p2 by (intro Cons.IH [OF step(1)]) auto
  then show ?case using step 2(2) by auto
qed simp

lemma tracked_start: "tracked {} {} proto_start"
  by (simp add: tracked_def)

lemma proto_step_total: "\<exists>p' outs. proto_step p e = Ok (p', outs)"
  by (cases e) auto

lemma proto_run_total: "\<exists>p' outs. run_events proto_step p es = Ok (p', outs)"
proof (induction es arbitrary: p)
  case (Cons e es)
  obtain p1 o1 where 1: "proto_step p e = Ok (p1, o1)" using proto_step_total by metis
  obtain p2 o2 where 2: "run_events proto_step p1 es = Ok (p2, o2)" using Cons by blast
  show ?case using run_events_Cons_Ok [OF 1 2] by blast
qed simp

text \<open>
  C20. The protocol handler answers every question at most once, and only with what the questioned
  node itself sent. Through any sequence of questions, packets, timeouts and cleanups, when each
  question has its own channel: no channel receives two answers (so the send on a channel of
  capacity one never blocks the actor), and an answer on a channel is the body of a response of the
  asked kind, received from the very key the question was for, after the question.
\<close>

theorem answers_once_and_genuine:
  assumes "distinct (asked es)"
  shows "\<exists>p outs. run_events proto_step proto_start es = Ok (p, outs)
    \<and> distinct (called outs)
    \<and> (\<forall>x b. Callback x b \<in> set outs \<longrightarrow>
         (\<exists>pre t k now mid c post.
            es = pre @ Ask t k x now # mid @ Receive k (response_header t @ b) c # post))"
proof -
  obtain p outs where run: "run_events proto_step proto_start es = Ok (p, outs)"
    using proto_run_total by metis
  then show ?thesis using tracked_run [OF tracked_start run assms] answer_traced [OF run] by auto
qed


definition sample_key :: publicKey where "sample_key = replicate 32 7"

definition sample_view :: core_view where
  "sample_view = \<lparr>cv_key = replicate 32 9, cv_routing_entries = 3, cv_peers = [replicate 32 1, [], replicate 32 2],
     cv_tree = [replicate 32 3], cv_pc_mtu = 1200\<rparr>"

theorem answers_once_and_genuine_witness:
  "distinct (asked [Ask AskPeers sample_key 5 0, Receive sample_key [255, 4, 1] sample_view, Receive sample_key [255, 4, 2] sample_view])
   \<and> (\<exists>p outs. run_events proto_step proto_start
        [Ask AskPeers sample_key 5 0, Receive sample_key [255, 4, 1] sample_view, Receive sample_key [255, 4, 2] sample_view]
          = Ok (p, outs) \<and> distinct (called outs))"
  using answers_once_and_genuine [of "[Ask AskPeers sample_key 5 0, Receive sample_key [255, 4, 1] sample_view,
    Receive sample_key [255, 4, 2] sample_view]"] by auto

subsection \<open>An answer in time is delivered\<close>

text \<open>The events that leave a question of kind \<open>t\<close> to \<open>k\<close> with stamp \<open>q\<close> alone.\<close>

fun undisturbed :: "request_kind \<Rightarrow> publicKey \<Rightarrow> nat \<Rightarrow> proto_event \<Rightarrow> bool" where
  "undisturbed t k q (Ask t' k' x now) \<longleftrightarrow> \<not> (t' = t \<and> k' = k)"
| "undisturbed t k q (Receive k' bs c) \<longleftrightarrow> \<not> (k' = k \<and> response_kind bs = Some t)"
| "undisturbed t k q (Expire t' k' q') \<longleftrightarrow> \<not> (t' = t \<and> k' = k \<and> q' = q)"
| "undisturbed t k q (Cleanup now) \<longleftrightarrow> t \<noteq> AskNodeInfo \<or> now \<le> q + minute"
| "undisturbed t k q (SetInfo b g pr) \<longleftrightarrow> True"

lemma undisturbed_step:
  assumes "undisturbed t k q e" "proto_step p e = Ok (p', outs)" "entry t p k = Some (x, q)"
  shows "entry t p' k = Some (x, q)"
proof (cases e)
  case (Ask t' k' c now)
  then have "p' = fst (ask t' k' c now p)" using assms(2) by simp
  then show ?thesis using assms Ask by (auto simp: entry_ask)
next
  case (Receive k' bs c)
  then have "p' = fst (handleProto c k' bs p)" using assms(2) by simp
  then show ?thesis using assms Receive by (auto simp: entry_receive)
next
  case (Expire t' k' q')
  then show ?thesis using assms by (auto simp: entry_expire)
next
  case (Cleanup now)
  then have p': "p' = p\<lparr>ph_nodeinfo := fst (nodeinfo_cleanup now (ph_nodeinfo p))\<rparr>"
    using assms(2) by (auto simp: Let_def nodeinfo_cleanup_def)
  show ?thesis unfolding p' entry_cleanup using assms Cleanup by auto
next
  case (SetInfo b g pr)
  then show ?thesis using assms by (auto simp: entry_set_info)
qed

lemma undisturbed_run:
  assumes "run_events proto_step p es = Ok (p', outs)" "\<forall>e \<in> set es. undisturbed t k q e" "entry t p k = Some (x, q)"
  shows "entry t p' k = Some (x, q)"
  using assms
proof (induction es arbitrary: p outs)
  case (Cons e es)
  obtain p1 o1 where 1: "proto_step p e = Ok (p1, o1)" using proto_step_total by metis
  obtain p2 o2 where 2: "run_events proto_step p1 es = Ok (p2, o2)" using proto_run_total by metis
  have p2: "p2 = p'" using Cons.prems(1) 1 2 by simp
  have "entry t p1 k = Some (x, q)" using undisturbed_step [OF _ 1] Cons.prems by simp
  then show ?case using Cons.IH [OF 2 [unfolded p2]] Cons.prems(2) by simp
qed simp

text \<open>
  C21. A question is answered: in every state, if after a question of some kind to a node the first
  response of that kind from that node arrives before the question is repeated, before its own
  one-minute timer fires and, for node information, before a cleanup more than a minute later, then
  the asker's channel receives exactly the body of that response. Timers left over from earlier
  questions to the same node do no harm.
\<close>

theorem answer_delivered:
  assumes "\<forall>e \<in> set mid. undisturbed t k (stamp t now p) e"
  shows "\<exists>p' outs. run_events proto_step p (Ask t k x now # mid @ [Receive k (response_header t @ bs) c]) = Ok (p', outs)
    \<and> Callback x bs \<in> set outs \<and> entry t p' k = None"
proof -
  obtain p1 o1 where 1: "proto_step p (Ask t k x now) = Ok (p1, o1)" using proto_step_total by metis
  then have "entry t p1 k = Some (x, stamp t now p)" using entry_ask [of t t k x now p k] by simp
  moreover obtain p2 o2 where 2: "run_events proto_step p1 mid = Ok (p2, o2)" using proto_run_total by metis
  ultimately have e: "entry t p2 k = Some (x, stamp t now p)" using undisturbed_run assms by blast
  obtain p3 o3 where 3: "handleProto c k (response_header t @ bs) p2 = (p3, o3)" by fastforce
  have "Callback x bs \<in> set o3" "entry t p3 k = None"
    using handleProto_response(1) [of t c k t bs p2 k] handleProto_response(2) [of x bs c k t bs p2] e 3 by auto
  then show ?thesis using 1 2 3 by (auto simp: run_events_append)
qed

theorem answer_delivered_witness:
  "\<exists>p' outs. run_events proto_step proto_start
      (Ask AskTree sample_key 8 0 # [Expire AskTree sample_key 4, Cleanup 99999999999] @ [Receive sample_key (response_header AskTree @ [6, 6]) sample_view])
        = Ok (p', outs) \<and> Callback 8 [6, 6] \<in> set outs \<and> entry AskTree p' sample_key = None"
  by (rule answer_delivered) (simp add: proto_start_def proto_init_def nodeinfo_init_def nodeinfo_cleanup_def)

section \<open>The answers fit\<close>

lemma of_nat_plus_2_gt:
  fixes mtu :: u64
  assumes "n < 2 ^ 63"
  shows "of_nat n + 2 > mtu \<longleftrightarrow> n + 2 > unat mtu"
proof -
  have "unat (of_nat n + 2 :: u64) = n + 2" using assms by (simp add: unat_word_ariths unat_of_nat)
  then show ?thesis by (simp add: word_less_nat_alt)
qed

lemma collect_keys_prefix:
  assumes "length bs + length (concat ks) < 2 ^ 63"
  shows "\<exists>n \<le> length ks. collect_keys mtu bs ks = bs @ concat (take n ks)
    \<and> (n > 0 \<longrightarrow> length (bs @ concat (take n ks)) + 2 \<le> unat mtu)
    \<and> (n < length ks \<longrightarrow> length (bs @ concat (take (Suc n) ks)) + 2 > unat mtu)"
  using assms
proof (induction ks arbitrary: bs)
  case (Cons k ks)
  have small: "length (bs @ k) < 2 ^ 63" using Cons.prems by simp
  note gt = of_nat_plus_2_gt [OF small, of mtu]
  show ?case
  proof (cases "of_nat (length (bs @ k)) + 2 > mtu")
    case True
    then have "length (bs @ k) + 2 > unat mtu" using gt by blast
    with True show ?thesis by (intro exI [of _ 0]) (simp add: Let_def)
  next
    case False
    then have le: "length (bs @ k) + 2 \<le> unat mtu" using gt by simp
    obtain n where n: "n \<le> length ks" "collect_keys mtu (bs @ k) ks = (bs @ k) @ concat (take n ks)"
      "n > 0 \<longrightarrow> length ((bs @ k) @ concat (take n ks)) + 2 \<le> unat mtu"
      "n < length ks \<longrightarrow> length ((bs @ k) @ concat (take (Suc n) ks)) + 2 > unat mtu"
      using Cons.IH [of "bs @ k"] Cons.prems by auto
    have "collect_keys mtu bs (k # ks) = (bs @ k) @ concat (take n ks)"
      using False n(2) by (simp add: Let_def)
    then show ?thesis using n le by (intro exI [of _ "Suc n"]) (cases n; simp)
  qed
qed simp

lemma unat_Core_MTU:
  assumes "pc_mtu \<noteq> 0"
  shows "unat (Core_MTU pc_mtu) = min (unat pc_mtu - 1) 65535"
proof -
  have "unat (pc_mtu - 1) = unat pc_mtu - 1" using assms by (simp add: unat_minus_one)
  then show ?thesis by (auto simp: Core_MTU_def Let_def word_less_nat_alt min_def)
qed

lemma split_keys_concat:
  assumes "\<forall>k \<in> set ks. length k = 32 \<or> k = []"
  shows "split_keys (concat ks) = map hex_encode (filter (\<lambda>k. k \<noteq> []) ks)"
  using assms
proof (induction ks)
  case Nil
  then show ?case by (simp add: split_keys.simps)
next
  case (Cons k ks)
  then show ?case
    by (cases "k = []") (auto simp: split_keys.simps [of "k @ concat ks"])
qed

lemma handler_key_hex [simp]: "length k = 32 \<Longrightarrow> handler_key (hex_encode k) = Inr k"
  by (simp add: handler_key_def publicKeySize_def array_of_def)


lemma keys_json_Marshal: "\<exists>js. json_Marshal (keys_json ks) = Some js"
  by (simp add: keys_json_def comp_def)

lemma reply_for_32: "length k = 32 \<Longrightarrow> \<exists>ip. AddrForKey k = Some ip \<and> reply_for k msg = Ok (Inr (ip, msg))"
  by (simp add: reply_for_def AddrForKey_def publicKeySize_def Let_def)

text \<open>
  C22. Asking a node for its peers gives its peers. When a node with an MTU of at least three bytes
  is asked, its answer fits into its MTU and into 65536 bytes, and it holds the keys of its peers in
  order, up to the first that would not fit; the admin handler of the asker turns the answer back
  into exactly the hexadecimal keys of these peers (a peer without a key is not counted) and files
  them under the address of the asked node.
\<close>

theorem peers_query:
  assumes "\<forall>k \<in> set (cv_peers c). length k = 32 \<or> k = []" "length (concat (cv_peers c)) < 2 ^ 63"
    "3 \<le> unat (cv_pc_mtu c)" "length key = 32"
  shows "\<exists>n \<le> length (cv_peers c). \<exists>bs js ip.
      handleGetPeersRequest c asker = [PcWriteTo ([typeSessionProto] @ response_header AskPeers @ bs) asker]
    \<and> 3 + length bs \<le> min (unat (cv_pc_mtu c)) 65536
    \<and> (n < length (cv_peers c) \<longrightarrow>
         3 + length (concat (take (Suc n) (cv_peers c))) > min (unat (cv_pc_mtu c)) 65536)
    \<and> json_Marshal (keys_json (map hex_encode (filter (\<lambda>k. k \<noteq> []) (take n (cv_peers c))))) = Some js
    \<and> AddrForKey key = Some ip
    \<and> getPeersHandler (Some (hex_encode key)) ch (Some bs) p = Ok (Inr (ip, ascii js), sendGetPeersRequest key ch p)"
proof -
  have "cv_pc_mtu c \<noteq> 0" using assms(3) by auto
  then have mtu: "unat (Core_MTU (cv_pc_mtu c)) + 1 = min (unat (cv_pc_mtu c)) 65536"
    using assms(3) by (simp add: unat_Core_MTU)
  obtain n where n: "n \<le> length (cv_peers c)"
    "collect_keys (Core_MTU (cv_pc_mtu c)) [] (cv_peers c) = concat (take n (cv_peers c))"
    "n > 0 \<longrightarrow> length (concat (take n (cv_peers c))) + 2 \<le> unat (Core_MTU (cv_pc_mtu c))"
    "n < length (cv_peers c) \<longrightarrow> length (concat (take (Suc n) (cv_peers c))) + 2 > unat (Core_MTU (cv_pc_mtu c))"
    using collect_keys_prefix [of "[]" "cv_peers c" "Core_MTU (cv_pc_mtu c)"] assms(2) by auto
  define bs where "bs = concat (take n (cv_peers c))"
  have split: "split_keys bs = map hex_encode (filter (\<lambda>k. k \<noteq> []) (take n (cv_peers c)))"
    unfolding bs_def by (rule split_keys_concat) (use assms(1) in \<open>auto dest: in_set_takeD\<close>)
  obtain js where js: "json_Marshal (keys_json (split_keys bs)) = Some js" using keys_json_Marshal by blast
  obtain ip where ip: "AddrForKey key = Some ip" "reply_for key (ascii js) = Ok (Inr (ip, ascii js))"
    using reply_for_32 [OF assms(4)] by blast
  have "handleGetPeersRequest c asker = [PcWriteTo ([typeSessionProto] @ response_header AskPeers @ bs) asker]"
    by (simp add: handleGetPeersRequest_def sendDebug_def n(2) bs_def)
  moreover have "3 + length bs \<le> min (unat (cv_pc_mtu c)) 65536"
    using n(3) mtu assms(3) by (cases "n > 0") (auto simp: bs_def)
  moreover have "getPeersHandler (Some (hex_encode key)) ch (Some bs) p = Ok (Inr (ip, ascii js), sendGetPeersRequest key ch p)"
    using js ip(2) by (simp add: getPeersHandler_def handler_key_hex [OF assms(4)] Let_def)
  moreover have "n < length (cv_peers c) \<longrightarrow>
      3 + length (concat (take (Suc n) (cv_peers c))) > min (unat (cv_pc_mtu c)) 65536"
    using n(4) mtu by linarith
  ultimately show ?thesis using n(1) js ip(1) unfolding split by metis
qed

theorem peers_query_witness:
  "\<exists>n \<le> length (cv_peers sample_view). \<exists>bs js ip.
      handleGetPeersRequest sample_view [] = [PcWriteTo ([typeSessionProto] @ response_header AskPeers @ bs) []]
    \<and> AddrForKey sample_key = Some ip
    \<and> getPeersHandler (Some (hex_encode sample_key)) 0 (Some bs) proto_start
        = Ok (Inr (ip, ascii js), sendGetPeersRequest sample_key 0 proto_start)"
  using peers_query [of sample_view sample_key "[]" 0 proto_start]
  by (fastforce simp: sample_view_def sample_key_def)

section \<open>What the handler sends\<close>

definition packet_headers :: "bytes list" where
  "packet_headers =
     [[typeSessionProto, typeProtoNodeInfoRequest], [typeSessionProto, typeProtoNodeInfoResponse]]
     @ map (\<lambda>d. [typeSessionProto, typeProtoDebug, d])
         [typeDebugGetSelfRequest, typeDebugGetSelfResponse, typeDebugGetPeersRequest,
          typeDebugGetPeersResponse, typeDebugGetTreeRequest, typeDebugGetTreeResponse]"

fun proto_out_ok :: "proto_out \<Rightarrow> bool" where
  "proto_out_ok (PcWriteTo bs k) \<longleftrightarrow>
     (\<exists>h \<in> set packet_headers. take (length h) bs = h)
     \<and> (take 2 bs = [typeSessionProto, typeProtoNodeInfoResponse] \<longrightarrow> length bs \<le> 2 + 16384)"
| "proto_out_ok _ \<longleftrightarrow> True"

definition proto_inv :: "protoHandler \<Rightarrow> bool" where
  "proto_inv p \<longleftrightarrow>
     length (myNodeInfo (ph_nodeinfo p)) \<le> 16384
     \<and> (\<forall>t k x s. t \<noteq> AskNodeInfo \<longrightarrow> entry t p k = Some (x, s) \<longrightarrow> s < next_req p)"

lemma sendDebug_ok:
  "d \<in> {typeDebugGetSelfRequest, typeDebugGetSelfResponse, typeDebugGetPeersRequest,
          typeDebugGetPeersResponse, typeDebugGetTreeRequest, typeDebugGetTreeResponse} \<Longrightarrow>
   x \<in> set (sendDebug k d bs) \<Longrightarrow> proto_out_ok x"
  by (auto simp: sendDebug_def packet_headers_def type_defs)

lemma ask_out_ok: "x \<in> set (snd (ask t k cb now p)) \<Longrightarrow> proto_out_ok x"
  by (cases t)
     (auto simp: ask_def send_defs table_defs Let_def packet_headers_def type_defs sendDebug_def split: option.splits)

lemma handleProto_out_ok:
  "length (myNodeInfo (ph_nodeinfo p)) \<le> 16384 \<Longrightarrow> x \<in> set (snd (handleProto c k bs p)) \<Longrightarrow> proto_out_ok x"
  by (cases bs; cases "tl bs")
     (auto simp: handleProto_def handleDebug_def type_defs nodeinfo_callback_def answer_request_def nodeinfo_sendRes_def
        handleGetSelfResponse_def handleGetPeersResponse_def handleGetTreeResponse_def Let_def packet_headers_def
        handleGetSelfRequest_def handleGetPeersRequest_def handleGetTreeRequest_def sendDebug_def
        split: option.splits prod.splits if_splits)

lemma handleProto_keeps:
  "myNodeInfo (ph_nodeinfo (fst (handleProto c k bs p))) = myNodeInfo (ph_nodeinfo p)
   \<and> next_req (fst (handleProto c k bs p)) = next_req p"
  by (auto simp: handleProto_def handleDebug_def nodeinfo_callback_def answer_request_def
        handleGetSelfResponse_def handleGetPeersResponse_def handleGetTreeResponse_def Let_def
        split: option.splits prod.splits if_splits)

lemma ask_keeps:
  "myNodeInfo (ph_nodeinfo (fst (ask t k cb now p))) = myNodeInfo (ph_nodeinfo p)
   \<and> next_req (fst (ask t k cb now p)) = (if t = AskNodeInfo then next_req p else Suc (next_req p))"
  by (cases t) (auto simp: ask_def send_defs table_defs Let_def split: option.splits)

lemma expire_keeps: "ph_nodeinfo (expire t k q p) = ph_nodeinfo p \<and> next_req (expire t k q p) = next_req p"
  by (cases t) (auto simp: expire_def)

lemma setNodeInfo_bounded:
  "length (myNodeInfo m) \<le> 16384 \<Longrightarrow> length (myNodeInfo (snd (setNodeInfo b g pr m))) \<le> 16384"
  by (auto simp: setNodeInfo_def split: option.splits)

lemma stamp_debug: "t \<noteq> AskNodeInfo \<Longrightarrow> stamp t now p = next_req p"
  by (cases t) auto


lemma proto_step_ok:
  assumes "proto_inv p"
  shows "\<exists>p' outs. proto_step p e = Ok (p', outs) \<and> proto_inv p' \<and> (\<forall>x \<in> set outs. proto_out_ok x)"
proof -
  have info: "length (myNodeInfo (ph_nodeinfo p)) \<le> 16384"
    and old: "t \<noteq> AskNodeInfo \<Longrightarrow> entry t p k = Some (x, s) \<Longrightarrow> s < next_req p" for t k x s
    using assms unfolding proto_inv_def by blast+
  show ?thesis
  proof (cases e)
    case (Ask t k cb now)
    have "proto_inv (fst (ask t k cb now p))"
      unfolding proto_inv_def entry_ask using info old ask_keeps [of t k cb now p]
      by (fastforce simp: stamp_debug less_SucI split: if_splits)
    then show ?thesis using Ask ask_out_ok by (metis fst_conv proto_step.simps(1) snd_conv surj_pair)
  next
    case (Receive k bs c)
    have "proto_inv (fst (handleProto c k bs p))"
      unfolding proto_inv_def entry_receive using info old handleProto_keeps [of c k bs p] by (auto split: if_splits)
    then show ?thesis
      using Receive handleProto_out_ok [OF info] by (metis fst_conv proto_step.simps(2) snd_conv surj_pair)
  next
    case (Expire t k q)
    have "proto_inv (expire t k q p)"
      unfolding proto_inv_def entry_expire using info old expire_keeps [of t k q p] by (auto split: if_splits)
    then show ?thesis using Expire by simp
  next
    case (Cleanup now)
    have "proto_inv (p\<lparr>ph_nodeinfo := fst (nodeinfo_cleanup now (ph_nodeinfo p))\<rparr>)"
      unfolding proto_inv_def entry_cleanup using info old
      by (auto simp: nodeinfo_cleanup_def split: option.splits if_splits)
    then show ?thesis using Cleanup by (simp add: nodeinfo_cleanup_def)
  next
    case (SetInfo b g pr)
    have "proto_inv (p\<lparr>ph_nodeinfo := snd (setNodeInfo b g pr (ph_nodeinfo p))\<rparr>)"
      unfolding proto_inv_def entry_set_info using setNodeInfo_bounded [OF info] old by auto
    then show ?thesis using SetInfo by simp
  qed
qed

interpretation proto_handler: event_invariant proto_step proto_inv proto_out_ok
  by unfold_locales (rule proto_step_ok)

lemma proto_inv_start: "proto_inv proto_start"
  by (simp add: proto_inv_def) (simp add: proto_start_def proto_init_def nodeinfo_init_def nodeinfo_cleanup_def)

text \<open>
  C23. Through any sequence of events, every packet the protocol handler writes starts with the
  header of one of the eight protocol messages (so no other node takes it for traffic), and a node
  information response never exceeds 16384 bytes of information; the request tables only hold
  requests made before.
\<close>

theorem proto_packets_typed:
  "\<exists>p outs. run_events proto_step proto_start es = Ok (p, outs) \<and> proto_inv p \<and> list_all proto_out_ok outs"
  using proto_handler.run_ok [OF proto_inv_start, of es] by (auto simp: list_all_iff)

section \<open>Node information and session packets\<close>

lemma fmlookup_nodeinfo_map:
  "fmlookup (nodeinfo_map b given privacy) k =
     (if privacy then fmlookup given k
      else if k = ''buildname'' then Some (JStr (BuildName (buildName b)))
      else if k = ''buildversion'' then Some (JStr (BuildVersion (buildVersion b)))
      else if k = ''buildplatform'' then Some (JStr (goos b))
      else if k = ''buildarch'' then Some (JStr (goarch b))
      else fmlookup given k)"
  by (auto simp: nodeinfo_map_def)

text \<open>
  C24. What a node publishes about itself. Setting the node information either fails and leaves the
  published text alone, or publishes the JSON text of a map of at most 16384 bytes; with privacy on
  the map is exactly the configured one, so no build or platform field appears that the
  configuration does not name, and with privacy off the four build fields override configured ones
  and everything else is as configured. The response to any node carries exactly that text.
\<close>

theorem nodeinfo_published:
  "case setNodeInfo b given privacy m of
     (Some e, m') \<Rightarrow> m' = m
   | (None, m') \<Rightarrow>
       (\<exists>f js. json_Marshal (json_map f) = Some js \<and> length js \<le> 16384
          \<and> nodeinfo_sendRes k m' = [PcWriteTo ([typeSessionProto] @ response_header AskNodeInfo @ ascii js) k]
          \<and> ni_callbacks m' = ni_callbacks m
          \<and> (if privacy then f = given
             else fmlookup f ''buildname'' = Some (JStr (BuildName (buildName b)))
                  \<and> fmlookup f ''buildversion'' = Some (JStr (BuildVersion (buildVersion b)))
                  \<and> fmlookup f ''buildplatform'' = Some (JStr (goos b))
                  \<and> fmlookup f ''buildarch'' = Some (JStr (goarch b))
                  \<and> fmdrop_set {''buildname'', ''buildversion'', ''buildplatform'', ''buildarch''} f
                    = fmdrop_set {''buildname'', ''buildversion'', ''buildplatform'', ''buildarch''} given))"
proof (cases "json_Marshal (json_map (nodeinfo_map b given privacy))")
  case None
  then show ?thesis by (simp add: setNodeInfo_def)
next
  case (Some js)
  have same: "fmdrop_set {''buildname'', ''buildversion'', ''buildplatform'', ''buildarch''} (nodeinfo_map b given privacy)
      = fmdrop_set {''buildname'', ''buildversion'', ''buildplatform'', ''buildarch''} given"
    by (rule fmap_ext) (auto simp: fmlookup_nodeinfo_map)
  show ?thesis
  proof (cases "length js > 16384")
    case True
    then show ?thesis using Some by (simp add: setNodeInfo_def)
  next
    case False
    then show ?thesis
      using Some same
      by (auto simp: setNodeInfo_def nodeinfo_sendRes_def fmlookup_nodeinfo_map
            intro!: exI [of _ "nodeinfo_map b given privacy"] simp: nodeinfo_map_def)
  qed
qed

fun is_traffic :: "pc_read \<Rightarrow> bool" where
  "is_traffic PcError \<longleftrightarrow> True"
| "is_traffic (PcPacket s bs) \<longleftrightarrow> bs \<noteq> [] \<and> hd bs = typeSessionTraffic"

fun proto_payloads :: "pc_read list \<Rightarrow> (bytes \<times> bytes) list" where
  "proto_payloads [] = []"
| "proto_payloads (PcPacket s bs # rs) =
     (if bs \<noteq> [] \<and> hd bs = typeSessionProto then [(array_of 32 s, tl bs)] else []) @ proto_payloads rs"
| "proto_payloads (PcError # rs) = proto_payloads rs"

text \<open>
  C25. Traffic crosses the session layer unchanged: what \<open>WriteTo\<close> puts on the packet connection for
  a payload is what \<open>ReadFrom\<close> of the receiver returns as that payload, cut to the reader's buffer,
  with the sender's key, whatever empty, unknown and protocol packets arrived before it; each
  protocol packet on the way is handed to the protocol handler exactly once and in order, and none
  is returned as traffic. A payload within the MTU the node reports fits its connection.
\<close>

theorem traffic_demultiplexed:
  assumes "\<forall>r \<in> set before. \<not> is_traffic r"
  shows "Core_WriteTo (\<lambda>pkt. if pkt = typeSessionTraffic # payload then Inr (int (length pkt)) else Inl ()) payload
      = Inr (int (length payload))
    \<and> Core_ReadFrom plen (before @ PcPacket sender (typeSessionTraffic # payload) # rest)
      = Some (Some (sender, take plen payload), proto_payloads before)
    \<and> (pc_mtu \<noteq> 0 \<longrightarrow> length payload \<le> unat (Core_MTU pc_mtu) \<longrightarrow>
         length (typeSessionTraffic # payload) \<le> unat pc_mtu)"
proof (intro conjI impI)
  show "Core_ReadFrom plen (before @ PcPacket sender (typeSessionTraffic # payload) # rest)
      = Some (Some (sender, take plen payload), proto_payloads before)"
    using assms by (induction before rule: proto_payloads.induct) auto
  assume "pc_mtu \<noteq> 0" "length payload \<le> unat (Core_MTU pc_mtu)"
  moreover have "unat pc_mtu > 0" using \<open>pc_mtu \<noteq> 0\<close> by (simp add: unat_gt_0)
  ultimately show "length (typeSessionTraffic # payload) \<le> unat pc_mtu"
    using unat_Core_MTU [of pc_mtu] by simp linarith
qed (simp add: Core_WriteTo_def)

theorem traffic_demultiplexed_witness:
  "Core_ReadFrom 2 ([PcPacket sample_key [], PcPacket sample_key [2, 1], PcPacket sample_key [9]]
       @ PcPacket sample_key (typeSessionTraffic # [10, 11, 12]) # [])
     = Some (Some (sample_key, [10, 11]), [(array_of 32 sample_key, [1])])"
  using traffic_demultiplexed [of "[PcPacket sample_key [], PcPacket sample_key [2, 1], PcPacket sample_key [9]]"
      "[10, 11, 12]" 2 sample_key "[]" 1]
  by (simp add: type_defs)


section \<open>The tables implement one table of open questions\<close>

text \<open>
  The abstract specification of the handler: one table of open questions, indexed by the kind of the
  question and the node it went to, and a counter that numbers the debug questions. A response
  closes the question of its kind to its sender and passes its body to who asked; a timeout closes
  the question it belongs to. Nothing else changes the table, and nobody else is called.
\<close>

record pending =
  waiting :: "request_kind \<times> publicKey \<Rightarrow> (nat \<times> nat) option"
  issued :: nat

fun pending_step :: "pending \<Rightarrow> proto_event \<Rightarrow> pending \<times> (nat \<times> bytes) list" where
  "pending_step a (Ask t k cb now) =
     (if t = AskNodeInfo then (a\<lparr>waiting := (waiting a)((t, k) \<mapsto> (cb, now))\<rparr>, [])
      else (a\<lparr>waiting := (waiting a)((t, k) \<mapsto> (cb, issued a)), issued := Suc (issued a)\<rparr>, []))"
| "pending_step a (Receive k bs c) =
     (case response_kind bs of
        None \<Rightarrow> (a, [])
      | Some t \<Rightarrow>
          (case waiting a (t, k) of
             None \<Rightarrow> (a, [])
           | Some (cb, _) \<Rightarrow>
               (a\<lparr>waiting := (waiting a)((t, k) := None)\<rparr>, [(cb, drop (length (response_header t)) bs)])))"
| "pending_step a (Expire t k q) =
     (case waiting a (t, k) of
        Some (cb, s) \<Rightarrow>
          if t \<noteq> AskNodeInfo \<and> s = q then (a\<lparr>waiting := (waiting a)((t, k) := None)\<rparr>, []) else (a, [])
      | None \<Rightarrow> (a, []))"
| "pending_step a (Cleanup now) =
     (a\<lparr>waiting := (\<lambda>(t, k). case waiting a (t, k) of
           Some (cb, s) \<Rightarrow> if t = AskNodeInfo \<and> now - s > minute then None else Some (cb, s)
         | None \<Rightarrow> None)\<rparr>, [])"
| "pending_step a (SetInfo b given privacy) = (a, [])"

definition pending_of :: "protoHandler \<Rightarrow> pending" where
  "pending_of p = \<lparr>waiting = (\<lambda>(t, k). entry t p k), issued = next_req p\<rparr>"

fun answers :: "proto_out list \<Rightarrow> (nat \<times> bytes) list" where
  "answers [] = []"
| "answers (Callback c bs # outs) = (c, bs) # answers outs"
| "answers (_ # outs) = answers outs"

lemma answers_append: "answers (xs @ ys) = answers xs @ answers ys"
  by (induction xs rule: answers.induct) simp_all

lemma next_req_ask: "next_req (fst (ask t k cb now p)) = (if t = AskNodeInfo then next_req p else Suc (next_req p))"
  by (cases t) (auto simp: ask_def send_defs table_defs Let_def split: option.splits)

lemma next_req_receive: "next_req (fst (handleProto c k bs p)) = next_req p"
  by (auto simp: handleProto_def handleDebug_def handleGetSelfResponse_def handleGetPeersResponse_def
        handleGetTreeResponse_def answer_request_def nodeinfo_callback_def Let_def
        split: option.splits prod.splits list.splits)

lemma answers_none: "\<forall>x b. Callback x b \<notin> set outs \<Longrightarrow> answers outs = []"
  by (induction outs rule: answers.induct) auto

lemma answers_response:
  "answers (snd (handleProto c k (response_header t @ bs) p)) = (case entry t p k of None \<Rightarrow> [] | Some (x, _) \<Rightarrow> [(x, bs)])"
  by (cases t)
     (auto simp: handleProto_def handleDebug_def type_defs entry_def nodeinfo_callback_def answer_request_def
        handleGetSelfResponse_def handleGetPeersResponse_def handleGetTreeResponse_def Let_def
        split: option.splits prod.splits)

lemma answers_of_called: "called outs = [] \<Longrightarrow> answers outs = []"
  by (induction outs rule: answers.induct) auto

lemma refines_receive:
  "pending_step (pending_of p) (Receive k bs c)
     = (pending_of (fst (handleProto c k bs p)), answers (snd (handleProto c k bs p)))"
proof (cases "response_kind bs")
  case None
  then show ?thesis using handleProto_other [OF None, of c k p] answers_none by simp
next
  case (Some t)
  then obtain rest where bs: "bs = response_header t @ rest" using response_kindD by blast
  have w: "waiting (pending_of (fst (handleProto c k bs p))) = (waiting (pending_of p))((t, k) := None)"
    by (auto simp: pending_of_def fun_eq_iff entry_receive Some)
  have i: "issued (pending_of (fst (handleProto c k bs p))) = issued (pending_of p)"
    by (simp add: pending_of_def next_req_receive)
  have eq: "pending_of (fst (handleProto c k bs p)) = (pending_of p)\<lparr>waiting := (waiting (pending_of p))((t, k) := None)\<rparr>"
    using w i by simp
  show ?thesis
  proof (cases "entry t p k")
    case None
    then have "pending_of (fst (handleProto c k bs p)) = pending_of p"
      using eq by (simp add: pending_of_def fun_upd_idem)
    then show ?thesis using Some None answers_response [of c k t rest p] by (simp add: bs) (simp add: pending_of_def)
  next
    case e: (Some v)
    obtain x s where v: "v = (x, s)" by (cases v)
    have "waiting (pending_of p) (t, k) = Some (x, s)" using e v by (simp add: pending_of_def)
    then show ?thesis using Some e v eq answers_response [of c k t rest p] by (simp add: bs)
  qed
qed

lemma refines_ask:
  "pending_step (pending_of p) (Ask t k cb now) = (pending_of (fst (ask t k cb now p)), answers (snd (ask t k cb now p)))"
proof -
  have "answers (snd (ask t k cb now p)) = []" by (simp add: answers_of_called)
  then show ?thesis by (cases t) (auto simp: pending_of_def fun_eq_iff entry_ask next_req_ask)
qed

lemma refines_expire: "pending_step (pending_of p) (Expire t k q) = (pending_of (expire t k q p), [])"
proof -
  have "next_req (expire t k q p) = next_req p" by (cases t) (simp_all add: expire_def)
  then show ?thesis
    by (auto simp: pending_of_def fun_eq_iff entry_expire split: option.splits)
qed

lemma refines_cleanup:
  "pending_step (pending_of p) (Cleanup now)
     = (pending_of (p\<lparr>ph_nodeinfo := fst (nodeinfo_cleanup now (ph_nodeinfo p))\<rparr>), [])"
proof -
  have "entry t (p\<lparr>ph_nodeinfo := fst (nodeinfo_cleanup now (ph_nodeinfo p))\<rparr>) k =
     (case entry t p k of
        None \<Rightarrow> None
      | Some (c, s) \<Rightarrow> if t = AskNodeInfo \<and> now - s > minute then None else Some (c, s))" for t k
    by (rule entry_cleanup)
  then show ?thesis by (auto simp: pending_of_def fun_eq_iff split: option.splits)
qed

interpretation open_questions: refinement proto_step pending_of pending_step answers
proof unfold_locales
  show "answers [] = []" by simp
  show "answers (xs @ ys) = answers xs @ answers ys" for xs ys by (rule answers_append)
  show "\<exists>p' outs. proto_step p e = Ok (p', outs) \<and> pending_step (pending_of p) e = (pending_of p', answers outs)" for p e
  proof (cases e)
    case (Ask t k cb now)
    then show ?thesis using refines_ask by (metis prod.collapse proto_step.simps(1))
  next
    case (Receive k bs c)
    then show ?thesis using refines_receive by (metis prod.collapse proto_step.simps(2))
  next
    case (Expire t k q)
    then show ?thesis using refines_expire by (metis answers.simps(1) proto_step.simps(3))
  next
    case (Cleanup now)
    have "answers (snd (nodeinfo_cleanup now (ph_nodeinfo p))) = []" by (simp add: answers_of_called)
    then show ?thesis using Cleanup refines_cleanup [of p now] by (simp add: case_prod_beta Let_def)
  next
    case (SetInfo b g pr)
    have "pending_of (p\<lparr>ph_nodeinfo := snd (setNodeInfo b g pr (ph_nodeinfo p))\<rparr>) = pending_of p"
    proof -
      have "entry t (p\<lparr>ph_nodeinfo := snd (setNodeInfo b g pr (ph_nodeinfo p))\<rparr>) k = entry t p k" for t k
        by (rule entry_set_info)
      then show ?thesis by (simp add: pending_of_def)
    qed
    then show ?thesis using SetInfo by simp
  qed
qed

text \<open>
  C36. The protocol handler implements the table of open questions: over every sequence of events, its
  three request tables with their timers and the callback table of the node information actor with
  its periodic cleanup do exactly what the one abstract table does. It never panics, the open
  questions are those of the specification, and the calls to who asked, in their order and with their
  contents, are those of the specification.
\<close>

theorem proto_refines_pending:
  "\<exists>p outs. run_events proto_step proto_start es = Ok (p, outs)
    \<and> run_spec pending_step \<lparr>waiting = (\<lambda>_. None), issued = 0\<rparr> es = (pending_of p, answers outs)"
proof -
  have "pending_of proto_start = \<lparr>waiting = (\<lambda>_. None), issued = 0\<rparr>"
    by (simp add: pending_of_def fun_eq_iff) (simp add: proto_start_def proto_init_def case_prod_beta)
  then show ?thesis using open_questions.run_refines [of proto_start es] by simp
qed

end
