(* ===== verification/NetIP.thy ===== *)
theory NetIP
  imports Keys Strings
begin

text \<open>
  The part of Go's package \<^verbatim>\<open>net\<close> that the program uses on addresses: the classification of IP addresses
  (four or sixteen bytes), and the splitting and joining of host and port.
\<close>

type_synonym ip = bytes

definition v4_prefix :: bytes where "v4_prefix = replicate 10 0 @ [255, 255]"

definition To4 :: "ip \<Rightarrow> ip option" where
  "To4 ip =
     (if length ip = 4 then Some ip
      else if length ip = 16 \<and> take 12 ip = v4_prefix then Some (drop 12 ip)
      else None)"

definition ip_Equal :: "ip \<Rightarrow> ip \<Rightarrow> bool" where
  "ip_Equal a b \<longleftrightarrow>
     (if length a = length b then a = b
      else if length a = 4 \<and> length b = 16 then take 12 b = v4_prefix \<and> a = drop 12 b
      else if length a = 16 \<and> length b = 4 then take 12 a = v4_prefix \<and> drop 12 a = b
      else False)"

definition IPv4 :: "byte \<Rightarrow> byte \<Rightarrow> byte \<Rightarrow> byte \<Rightarrow> ip" where
  "IPv4 a b c d = v4_prefix @ [a, b, c, d]"

definition IsUnspecified :: "ip \<Rightarrow> bool" where
  "IsUnspecified ip \<longleftrightarrow> ip_Equal ip (IPv4 0 0 0 0) \<or> ip_Equal ip (replicate 16 0)"

definition IsLoopback :: "ip \<Rightarrow> bool" where
  "IsLoopback ip \<longleftrightarrow>
     (case To4 ip of Some ip4 \<Rightarrow> ip4 ! 0 = 127 | None \<Rightarrow> ip_Equal ip (replicate 15 0 @ [1]))"

definition IsMulticast :: "ip \<Rightarrow> bool" where
  "IsMulticast ip \<longleftrightarrow>
     (case To4 ip of Some ip4 \<Rightarrow> ip4 ! 0 AND 0xf0 = 0xe0 | None \<Rightarrow> length ip = 16 \<and> ip ! 0 = 0xff)"

definition IsInterfaceLocalMulticast :: "ip \<Rightarrow> bool" where
  "IsInterfaceLocalMulticast ip \<longleftrightarrow> length ip = 16 \<and> ip ! 0 = 0xff \<and> ip ! 1 AND 0x0f = 0x01"

definition IsLinkLocalMulticast :: "ip \<Rightarrow> bool" where
  "IsLinkLocalMulticast ip \<longleftrightarrow>
     (case To4 ip of
        Some ip4 \<Rightarrow> ip4 ! 0 = 224 \<and> ip4 ! 1 = 0 \<and> ip4 ! 2 = 0
      | None \<Rightarrow> length ip = 16 \<and> ip ! 0 = 0xff \<and> ip ! 1 AND 0x0f = 0x02)"

definition IsLinkLocalUnicast :: "ip \<Rightarrow> bool" where
  "IsLinkLocalUnicast ip \<longleftrightarrow>
     (case To4 ip of
        Some ip4 \<Rightarrow> ip4 ! 0 = 169 \<and> ip4 ! 1 = 254
      | None \<Rightarrow> length ip = 16 \<and> ip ! 0 = 0xfe \<and> ip ! 1 AND 0xc0 = 0x80)"

definition IsGlobalUnicast :: "ip \<Rightarrow> bool" where
  "IsGlobalUnicast ip \<longleftrightarrow>
     (length ip = 4 \<or> length ip = 16) \<and> \<not> ip_Equal ip (IPv4 255 255 255 255) \<and> \<not> IsUnspecified ip
     \<and> \<not> IsLoopback ip \<and> \<not> IsMulticast ip \<and> \<not> IsLinkLocalUnicast ip"

lemma global_not_link_local [simp]: "IsGlobalUnicast ip \<Longrightarrow> \<not> IsLinkLocalUnicast ip"
  by (simp add: IsGlobalUnicast_def)

lemma IsLinkLocalMulticast_IsMulticast: "IsLinkLocalMulticast ip \<Longrightarrow> IsMulticast ip"
  by (auto simp: IsLinkLocalMulticast_def IsMulticast_def split: option.splits)

section \<open>Host and port\<close>

definition colon :: char where "colon = CHR '':''"
definition lbracket :: char where "lbracket = CHR ''[''"
definition rbracket :: char where "rbracket = CHR '']''"

text \<open>The text before and after the last, or the first, occurrence of a character.\<close>

fun cut_first :: "char \<Rightarrow> string \<Rightarrow> (string \<times> string) option" where
  "cut_first c [] = None"
| "cut_first c (x # xs) = (if x = c then Some ([], xs) else map_option (\<lambda>(a, b). (x # a, b)) (cut_first c xs))"

definition cut_last :: "char \<Rightarrow> string \<Rightarrow> (string \<times> string) option" where
  "cut_last c s = map_option (\<lambda>(a, b). (rev b, rev a)) (cut_first c (rev s))"

definition SplitHostPort :: "string \<Rightarrow> (string \<times> string) option" where
  "SplitHostPort hostport =
     (case cut_last colon hostport of
        None \<Rightarrow> None
      | Some (before_port, port) \<Rightarrow>
          if hd hostport = lbracket then
            (case cut_first rbracket (tl hostport) of
               None \<Rightarrow> None
             | Some (host, after) \<Rightarrow>
                 if after = colon # port
                    \<and> lbracket \<notin> set (tl hostport) \<and> rbracket \<notin> set after
                 then Some (host, port) else None)
          else if colon \<in> set before_port \<or> lbracket \<in> set hostport \<or> rbracket \<in> set hostport then None
          else Some (before_port, port))"

definition JoinHostPort :: "string \<Rightarrow> string \<Rightarrow> string" where
  "JoinHostPort host port =
     (if colon \<in> set host then lbracket # host @ rbracket # colon # port else host @ colon # port)"

lemma cut_first_append [simp]: "c \<notin> set a \<Longrightarrow> cut_first c (a @ c # b) = Some (a, b)"
  by (induction a) auto

lemma cut_last_append [simp]: "c \<notin> set b \<Longrightarrow> cut_last c (a @ c # b) = Some (a, b)"
  by (simp add: cut_last_def)

lemma split_join_host_port:
  assumes "{lbracket, rbracket} \<inter> set host = {}" "{colon, lbracket, rbracket} \<inter> set port = {}"
  shows "SplitHostPort (JoinHostPort host port) = Some (host, port)"
proof (cases "colon \<in> set host")
  case True
  have "cut_last colon ((lbracket # host @ [rbracket]) @ colon # port) = Some (lbracket # host @ [rbracket], port)"
    using assms by (intro cut_last_append) auto
  then show ?thesis
    using True assms by (auto simp: SplitHostPort_def JoinHostPort_def colon_def lbracket_def rbracket_def)
next
  case False
  have "hd (host @ colon # port) \<noteq> lbracket"
    using assms(1) by (cases host) (auto simp: colon_def lbracket_def)
  then show ?thesis
    using False assms by (auto simp: SplitHostPort_def JoinHostPort_def colon_def lbracket_def rbracket_def)
qed

text \<open>\<^verbatim>\<open>strconv.Atoi\<close> on a 64-bit machine.\<close>

definition Atoi :: "string \<Rightarrow> int option" where
  "Atoi s =
     (let (neg, ds) = (case s of
            [] \<Rightarrow> (False, [])
          | c # cs \<Rightarrow> if c = CHR ''-'' then (True, cs) else if c = CHR ''+'' then (False, cs) else (False, s))
      in if ds = [] then None
         else case digits_val 0 ds of
                None \<Rightarrow> None
              | Some n \<Rightarrow>
                  if neg then if n \<le> 2 ^ 63 then Some (- int n) else None
                  else if n < 2 ^ 63 then Some (int n) else None)"

lemma digit_not_sign: "digit_val c = Some d \<Longrightarrow> c \<noteq> CHR ''-'' \<and> c \<noteq> CHR ''+''"
  by (auto simp: digit_val_def Let_def)

lemma hd_show_nat: "\<exists>d. digit_val (hd (show_nat n)) = Some d"
proof (induction n rule: show_nat.induct)
  case (1 n)
  then show ?case
    by (cases "n < 10") (simp_all add: show_nat.simps [of n])
qed

lemma Atoi_show [simp]: "n < 2 ^ 63 \<Longrightarrow> Atoi (show_nat n) = Some (int n)"
proof -
  assume n: "n < 2 ^ 63"
  obtain c cs where s: "show_nat n = c # cs" by (cases "show_nat n") auto
  obtain d where "digit_val c = Some d" using hd_show_nat [of n] s by auto
  then have "c \<noteq> CHR ''-''" "c \<noteq> CHR ''+''" using digit_not_sign by auto
  moreover have "digits_val 0 (c # cs) = Some n" using digits_val_show [of n] s by simp
  ultimately show ?thesis using n unfolding Atoi_def s by (simp add: Let_def split: option.splits)
qed

end
