(* ===== verification/Transports.thy ===== *)
theory Transports
  imports NetIP Handshake
begin

text \<open>
  The carriers of a link: \<^verbatim>\<open>src/core/link_tcp.go\<close>, \<^verbatim>\<open>link_tls.go\<close>, \<^verbatim>\<open>link_unix.go\<close>, \<^verbatim>\<open>link_socks.go\<close>,
  \<^verbatim>\<open>link_quic.go\<close>, \<^verbatim>\<open>link_ws.go\<close> and \<^verbatim>\<open>link_wss.go\<close>, with the choice of a carrier and of an address in
  \<^verbatim>\<open>link.go\<close>. What the operating system and the transport libraries answer (name resolution, the list
  of interfaces, the outcome of a dial) is the record \<open>net_env\<close>; a dial is the value \<open>dial_plan\<close> that the
  code hands to the library, so that the theorems speak about what is dialled and how.
\<close>

section \<open>URLs\<close>

text \<open>
  A parsed URL. The user part is kept in the form in which \<^verbatim>\<open>String\<close> writes it, the path is one that needs
  no escaping;
  \<open>u_user\<close> holds the decoded user name and password; \<open>u_query\<close> is what \<^verbatim>\<open>Query\<close> gives for the raw query.
\<close>

record url =
  u_scheme :: string
  u_userinfo :: string
  u_user :: "(string \<times> string option) option"
  u_host :: string
  u_path :: string
  u_rawquery :: string
  u_query :: "(string \<times> string) list"

definition url_String :: "url \<Rightarrow> string" where
  "url_String u =
     u_scheme u @ ''://'' @ u_userinfo u @ u_host u @ u_path u
     @ (if u_rawquery u = '''' then '''' else ''?'' @ u_rawquery u)"

definition query_values :: "url \<Rightarrow> string \<Rightarrow> string list" where
  "query_values u k = map snd (filter (\<lambda>(k', v). k' = k) (u_query u))"

definition query_Get :: "url \<Rightarrow> string \<Rightarrow> string" where
  "query_Get u k = (case query_values u k of [] \<Rightarrow> '''' | v # vs \<Rightarrow> v)"

definition urlForLinkInfo :: "url \<Rightarrow> url" where
  "urlForLinkInfo u = u\<lparr>u_rawquery := '''', u_query := []\<rparr>"

section \<open>The environment\<close>

datatype link_error =
    ErrLinkAlreadyConfigured | ErrLinkNotConfigured | ErrLinkPriorityInvalid | ErrLinkPinnedKeyInvalid
  | ErrLinkPasswordInvalid | ErrLinkSecurityInvalid | ErrLinkUnrecognisedSchema | ErrLinkMaxBackoffInvalid
  | ErrLinkSNINotSupported | ErrLinkNoSuitableIPs
  | ErrSplitHostPort | ErrPort | ErrLookup
  | ErrZoneRequired | ErrInterfaceNotFound | ErrInterfaceDown | ErrInterfaceAddrs | ErrNoSourceAddress
  | ErrNotSupported
  | ErrDial nat
  | ErrHandler handler_error
  | ErrRemoteClosed
  | ErrClosedConn

datatype control = TcpContext | BindToDevice string

record tcp_addr =
  ta_ip :: ip
  ta_port :: int
  ta_zone :: string

record dialer =
  d_control :: control
  d_local :: "tcp_addr option"

record tls_config =
  ServerName :: string
  MinVersion :: nat
  MaxVersion :: nat

definition VersionTLS12 :: nat where "VersionTLS12 = 0x0303"
definition VersionTLS13 :: nat where "VersionTLS13 = 0x0304"

text \<open>The configuration of \<^verbatim>\<open>generateTLSConfig\<close>; the library's zero value stands for no upper bound.\<close>

definition generateTLSConfig :: tls_config where
  "generateTLSConfig = \<lparr>ServerName = '''', MinVersion = VersionTLS13, MaxVersion = 0\<rparr>"

text \<open>
  A dial as it is handed to the library. A web socket is dialled with the function that chooses a
  proxy for a URL; the library makes its connection to that proxy, if there is one, and asks it for
  the URL.
\<close>

datatype dial_plan =
    DialTCP dialer tcp_addr
  | DialTLS dialer tcp_addr tls_config
  | DialUNIX string
  | DialSOCKS dialer string "(string \<times> string) option" string "tls_config option"
  | DialQUIC string tls_config
  | DialWS dialer "url \<Rightarrow> link_error + url option" url "string list" string "tls_config option"

record net_iface =
  if_up :: bool
  if_addrs :: "ip option list option"

record net_env =
  LookupIP :: "string \<Rightarrow> ip list option"
  InterfaceByName :: "string \<Rightarrow> net_iface option"
  Dial :: "dial_plan \<Rightarrow> link_error + nat"
  ip_String :: "ip \<Rightarrow> string"
  ProxyFromEnvironment :: "url \<Rightarrow> link_error + url option"

section \<open>Choice of an address\<close>

definition suitable :: "(ip \<Rightarrow> bool) option \<Rightarrow> ip \<Rightarrow> bool" where
  "suitable peerFilter ip \<longleftrightarrow>
     \<not> IsUnspecified ip \<and> \<not> IsMulticast ip \<and> \<not> IsLinkLocalMulticast ip \<and> \<not> IsInterfaceLocalMulticast ip
     \<and> (case peerFilter of None \<Rightarrow> True | Some f \<Rightarrow> f ip)"

fun try_ips :: "(ip \<Rightarrow> link_error + nat) \<Rightarrow> link_error \<Rightarrow> ip list \<Rightarrow> link_error + nat" where
  "try_ips fn err [] = Inl err"
| "try_ips fn err (ip # ips) = (case fn ip of Inl e \<Rightarrow> try_ips fn e ips | Inr conn \<Rightarrow> Inr conn)"

definition findSuitableIP ::
  "net_env \<Rightarrow> (ip \<Rightarrow> bool) option \<Rightarrow> url \<Rightarrow> (string \<Rightarrow> ip \<Rightarrow> int \<Rightarrow> link_error + nat) \<Rightarrow> link_error + nat" where
  "findSuitableIP env peerFilter u fn =
     (case SplitHostPort (u_host u) of
        None \<Rightarrow> Inl ErrSplitHostPort
      | Some (host, p) \<Rightarrow>
          (case Atoi p of
             None \<Rightarrow> Inl ErrPort
           | Some port \<Rightarrow>
               (case LookupIP env host of
                  None \<Rightarrow> Inl ErrLookup
                | Some resp \<Rightarrow>
                    (case filter (suitable peerFilter) resp of
                       [] \<Rightarrow> Inl ErrLinkNoSuitableIPs
                     | ip # ips \<Rightarrow> try_ips (\<lambda>ip. fn host ip port) ErrLinkNoSuitableIPs (ip # ips)))))"

section \<open>TCP\<close>

definition source_for :: "ip \<Rightarrow> ip \<Rightarrow> bool" where
  "source_for dst src \<longleftrightarrow>
     (IsGlobalUnicast src \<or> IsLinkLocalUnicast src)
     \<and> ((IsGlobalUnicast src = IsGlobalUnicast dst) \<or> (IsLinkLocalUnicast src = IsLinkLocalUnicast dst))
     \<and> (To4 src \<noteq> None) = (To4 dst \<noteq> None)"

fun choose_source :: "ip \<Rightarrow> ip option list \<Rightarrow> ip option" where
  "choose_source dst [] = None"
| "choose_source dst (None # addrs) = choose_source dst addrs"
| "choose_source dst (Some src # addrs) = (if source_for dst src then Some src else choose_source dst addrs)"

definition tcp_dialerFor :: "net_env \<Rightarrow> tcp_addr \<Rightarrow> string \<Rightarrow> link_error + tcp_addr \<times> dialer" where
  "tcp_dialerFor env dst sintf =
     (let linklocal = IsLinkLocalUnicast (ta_ip dst);
          dst = (if linklocal \<and> sintf \<noteq> '''' then dst\<lparr>ta_zone := sintf\<rparr> else dst);
          unbound = \<lparr>d_control = (if sintf = '''' then TcpContext else BindToDevice sintf), d_local = None\<rparr>;
          lenient = linklocal \<and> ta_zone dst \<noteq> ''''
      in if linklocal \<and> ta_zone dst = '''' then Inl ErrZoneRequired
         else if sintf = '''' then Inr (dst, unbound)
         else case InterfaceByName env sintf of
                None \<Rightarrow> if lenient then Inr (dst, unbound) else Inl ErrInterfaceNotFound
              | Some ief \<Rightarrow>
                  if \<not> if_up ief then Inl ErrInterfaceDown
                  else case if_addrs ief of
                         None \<Rightarrow> if lenient then Inr (dst, unbound) else Inl ErrInterfaceAddrs
                       | Some addrs \<Rightarrow>
                           (case choose_source (ta_ip dst) addrs of
                              None \<Rightarrow> if lenient then Inr (dst, unbound) else Inl ErrNoSourceAddress
                            | Some src \<Rightarrow>
                                Inr (dst, unbound\<lparr>d_local := Some \<lparr>ta_ip = src, ta_port = 0, ta_zone = sintf\<rparr>\<rparr>)))"

definition tcp_dial ::
  "net_env \<Rightarrow> (ip \<Rightarrow> bool) option \<Rightarrow> url \<Rightarrow> string \<Rightarrow> link_error + nat" where
  "tcp_dial env peerFilter u sintf =
     findSuitableIP env peerFilter u (\<lambda>hostname ip port.
       case tcp_dialerFor env \<lparr>ta_ip = ip, ta_port = port, ta_zone = ''''\<rparr> sintf of
         Inl e \<Rightarrow> Inl e
       | Inr (addr, dialer) \<Rightarrow> Dial env (DialTCP dialer addr))"

text \<open>The address a TCP or TLS listener is opened on.\<close>

definition tcp_listen_hostport :: "url \<Rightarrow> string \<Rightarrow> string" where
  "tcp_listen_hostport u sintf =
     (if sintf = '''' then u_host u
      else case SplitHostPort (u_host u) of
             None \<Rightarrow> u_host u
           | Some (host, port) \<Rightarrow> ''['' @ host @ ''%'' @ sintf @ '']:'' @ port)"

section \<open>TLS\<close>

definition tls_named :: "tls_config \<Rightarrow> string \<Rightarrow> tls_config" where
  "tls_named config name = config\<lparr>ServerName := name, MinVersion := VersionTLS12, MaxVersion := VersionTLS13\<rparr>"

definition tls_dial ::
  "net_env \<Rightarrow> (ip \<Rightarrow> bool) option \<Rightarrow> tls_config \<Rightarrow> url \<Rightarrow> string \<Rightarrow> linkOptions \<Rightarrow> link_error + nat" where
  "tls_dial env peerFilter config u sintf options =
     findSuitableIP env peerFilter u (\<lambda>hostname ip port.
       let tlsconfig = tls_named config hostname;
           tlsconfig = (if tlsSNI options \<noteq> '''' then tlsconfig\<lparr>ServerName := tlsSNI options\<rparr> else tlsconfig)
       in case tcp_dialerFor env \<lparr>ta_ip = ip, ta_port = port, ta_zone = ''''\<rparr> sintf of
            Inl e \<Rightarrow> Inl e
          | Inr (addr, dialer) \<Rightarrow> Dial env (DialTLS dialer addr tlsconfig))"

section \<open>UNIX sockets\<close>

definition unix_dial :: "net_env \<Rightarrow> url \<Rightarrow> link_error + nat" where
  "unix_dial env u = Dial env (DialUNIX (u_path u))"

section \<open>SOCKS\<close>

definition slash :: char where "slash = CHR ''/''"

definition Trim_slash :: "string \<Rightarrow> string" where
  "Trim_slash s = rev (dropWhile (\<lambda>c. c = slash) (rev (dropWhile (\<lambda>c. c = slash) s)))"

definition first_token :: "string \<Rightarrow> string" where
  "first_token s = takeWhile (\<lambda>c. c \<noteq> slash) s"

definition proxy_auth :: "url \<Rightarrow> (string \<times> string) option" where
  "proxy_auth u =
     (case u_user u of
        None \<Rightarrow> None
      | Some (name, password) \<Rightarrow>
          if name = '''' then None
          else Some (name, case password of None \<Rightarrow> '''' | Some p \<Rightarrow> p))"

definition socks_dial ::
  "net_env \<Rightarrow> (ip \<Rightarrow> bool) option \<Rightarrow> tls_config \<Rightarrow> url \<Rightarrow> string \<Rightarrow> linkOptions \<Rightarrow> link_error + nat" where
  "socks_dial env peerFilter config u sintf options =
     findSuitableIP env peerFilter u (\<lambda>hostname ip port.
       let hostport = JoinHostPort (ip_String env ip) (show_int port);
           tlsconfig = tls_named config hostname;
           tlsconfig = (if tlsSNI options \<noteq> '''' then tlsconfig\<lparr>ServerName := tlsSNI options\<rparr> else tlsconfig)
       in case tcp_dialerFor env \<lparr>ta_ip = ip, ta_port = port, ta_zone = ''''\<rparr> sintf of
            Inl e \<Rightarrow> Inl e
          | Inr (_, dialer) \<Rightarrow>
              Dial env (DialSOCKS dialer hostport (proxy_auth u) (first_token (Trim_slash (u_path u)))
                (if u_scheme u = ''sockstls'' then Some tlsconfig else None)))"

section \<open>QUIC\<close>

text \<open>
  The dialler names the host in its own copy of the TLS configuration and hands the library the
  shared one.
\<close>

definition quic_dial ::
  "net_env \<Rightarrow> (ip \<Rightarrow> bool) option \<Rightarrow> tls_config \<Rightarrow> url \<Rightarrow> link_error + nat" where
  "quic_dial env peerFilter config u =
     findSuitableIP env peerFilter u (\<lambda>hostname ip port.
       Dial env (DialQUIC (JoinHostPort (ip_String env ip) (show_int port)) config))"

section \<open>Web sockets\<close>

definition subprotocols :: "string list" where
  "subprotocols = [''ygg-ws'', ''uqda-ws'']"

definition ws_dial ::
  "net_env \<Rightarrow> (ip \<Rightarrow> bool) option \<Rightarrow> url \<Rightarrow> string \<Rightarrow> link_error + nat" where
  "ws_dial env peerFilter u sintf =
     findSuitableIP env peerFilter u (\<lambda>hostname ip port.
       case tcp_dialerFor env \<lparr>ta_ip = ip, ta_port = port, ta_zone = ''''\<rparr> sintf of
         Inl e \<Rightarrow> Inl e
       | Inr (_, dialer) \<Rightarrow>
           Dial env (DialWS dialer (ProxyFromEnvironment env) (u\<lparr>u_host := JoinHostPort (ip_String env ip) (show_int port)\<rparr>)
             subprotocols hostname None))"

definition wss_dial ::
  "net_env \<Rightarrow> (ip \<Rightarrow> bool) option \<Rightarrow> tls_config \<Rightarrow> url \<Rightarrow> string \<Rightarrow> link_error + nat" where
  "wss_dial env peerFilter config u sintf =
     findSuitableIP env peerFilter u (\<lambda>hostname ip port.
       case tcp_dialerFor env \<lparr>ta_ip = ip, ta_port = port, ta_zone = ''''\<rparr> sintf of
         Inl e \<Rightarrow> Inl e
       | Inr (_, dialer) \<Rightarrow>
           Dial env (DialWS dialer (ProxyFromEnvironment env) (u\<lparr>u_host := JoinHostPort (ip_String env ip) (show_int port)\<rparr>)
             subprotocols hostname (Some (tls_named config hostname))))"

record accept_options =
  ao_Subprotocols :: "string list"
  InsecureSkipVerify :: bool
  OriginPatterns :: "string list"

fun accept_origins :: "accept_options \<Rightarrow> string list \<Rightarrow> accept_options" where
  "accept_origins opts [] = opts"
| "accept_origins opts (origin # origins) =
     (if origin = '''' then accept_origins opts origins
      else if origin = ''*'' then opts\<lparr>InsecureSkipVerify := True, OriginPatterns := []\<rparr>
      else accept_origins (opts\<lparr>OriginPatterns := OriginPatterns opts @ [origin]\<rparr>) origins)"

definition wsAcceptOptions :: "url \<Rightarrow> accept_options" where
  "wsAcceptOptions u =
     accept_origins \<lparr>ao_Subprotocols = subprotocols, InsecureSkipVerify = False, OriginPatterns = []\<rparr>
       (query_values u ''origin'')"

text \<open>
  What the web socket server does with a request: \<open>accept\<close> is the outcome of the library's upgrade, the
  connection and its negotiated subprotocol.
\<close>

datatype ws_outcome = HealthOK | NotAccepted | PolicyViolation nat | Passed nat

definition ServeHTTP :: "string \<Rightarrow> (nat \<times> string) option \<Rightarrow> ws_outcome" where
  "ServeHTTP path accept =
     (if path = ''/health'' \<or> path = ''/healthz'' then HealthOK
      else case accept of
             None \<Rightarrow> NotAccepted
           | Some (c, subprotocol) \<Rightarrow>
               if subprotocol = ''ygg-ws'' \<or> subprotocol = ''uqda-ws'' then Passed c else PolicyViolation c)"

section \<open>Choice of a carrier\<close>

datatype linkProtocol = linkTCP | linkTLS | linkUNIX | linkSOCKS | linkQUIC | linkWS | linkWSS

definition dialerFor :: "url \<Rightarrow> link_error + linkProtocol" where
  "dialerFor u =
     (let s = ToLower (u_scheme u)
      in if s = ''tcp'' then Inr linkTCP
         else if s = ''tls'' then Inr linkTLS
         else if s = ''socks'' \<or> s = ''sockstls'' then Inr linkSOCKS
         else if s = ''unix'' then Inr linkUNIX
         else if s = ''quic'' then Inr linkQUIC
         else if s = ''ws'' then Inr linkWS
         else if s = ''wss'' then Inr linkWSS
         else Inl ErrLinkUnrecognisedSchema)"

definition listenerFor :: "url \<Rightarrow> link_error + linkProtocol" where
  "listenerFor u =
     (let s = ToLower (u_scheme u)
      in if s = ''tcp'' then Inr linkTCP
         else if s = ''tls'' then Inr linkTLS
         else if s = ''unix'' then Inr linkUNIX
         else if s = ''quic'' then Inr linkQUIC
         else if s = ''ws'' then Inr linkWS
         else if s = ''wss'' then Inr linkWSS
         else Inl ErrLinkUnrecognisedSchema)"

definition protocol_dial ::
  "net_env \<Rightarrow> (ip \<Rightarrow> bool) option \<Rightarrow> tls_config \<Rightarrow> linkProtocol \<Rightarrow> url \<Rightarrow> string \<Rightarrow> linkOptions \<Rightarrow> link_error + nat" where
  "protocol_dial env peerFilter config proto u sintf options =
     (case proto of
        linkTCP \<Rightarrow> tcp_dial env peerFilter u sintf
      | linkTLS \<Rightarrow> tls_dial env peerFilter config u sintf options
      | linkUNIX \<Rightarrow> unix_dial env u
      | linkSOCKS \<Rightarrow> socks_dial env peerFilter config u sintf options
      | linkQUIC \<Rightarrow> quic_dial env peerFilter config u
      | linkWS \<Rightarrow> ws_dial env peerFilter u sintf
      | linkWSS \<Rightarrow> wss_dial env peerFilter config u sintf)"

definition connect ::
  "net_env \<Rightarrow> (ip \<Rightarrow> bool) option \<Rightarrow> tls_config \<Rightarrow> url \<Rightarrow> string \<Rightarrow> linkOptions \<Rightarrow> link_error + nat" where
  "connect env peerFilter config u sintf options =
     (case dialerFor u of
        Inl e \<Rightarrow> Inl e
      | Inr proto \<Rightarrow> protocol_dial env peerFilter config proto u sintf options)"

text \<open>
  Opening a listener: the address it listens on, or the refusal of the carriers that cannot listen.
\<close>

datatype listen_plan = ListenTCP string | ListenTLS string tls_config | ListenUNIX string | ListenQUIC string tls_config
  | ListenWS string accept_options

definition protocol_listen :: "tls_config \<Rightarrow> linkProtocol \<Rightarrow> url \<Rightarrow> string \<Rightarrow> link_error + listen_plan" where
  "protocol_listen config proto u sintf =
     (case proto of
        linkTCP \<Rightarrow> Inr (ListenTCP (tcp_listen_hostport u sintf))
      | linkTLS \<Rightarrow> Inr (ListenTLS (tcp_listen_hostport u sintf) config)
      | linkUNIX \<Rightarrow> Inr (ListenUNIX (u_path u))
      | linkSOCKS \<Rightarrow> Inl ErrNotSupported
      | linkQUIC \<Rightarrow> Inr (ListenQUIC (u_host u) config)
      | linkWS \<Rightarrow> Inr (ListenWS (u_host u) (wsAcceptOptions u))
      | linkWSS \<Rightarrow> Inl ErrNotSupported)"

section \<open>What is dialled\<close>

lemma try_ips_Inr:
  "try_ips fn err ips = Inr conn \<longleftrightarrow>
     (\<exists>pre ip post. ips = pre @ ip # post \<and> (\<forall>x \<in> set pre. \<exists>e. fn x = Inl e) \<and> fn ip = Inr conn)"
proof (induction ips arbitrary: err)
  case (Cons x ips)
  show ?case
  proof (cases "fn x")
    case (Inl e)
    have "(\<exists>pre ip post. x # ips = pre @ ip # post \<and> (\<forall>y \<in> set pre. \<exists>e. fn y = Inl e) \<and> fn ip = Inr conn)
      \<longleftrightarrow> (\<exists>pre ip post. ips = pre @ ip # post \<and> (\<forall>y \<in> set pre. \<exists>e. fn y = Inl e) \<and> fn ip = Inr conn)"
      (is "?l \<longleftrightarrow> ?r")
    proof
      assume ?l
      then obtain pre ip post where *: "x # ips = pre @ ip # post" "\<forall>y \<in> set pre. \<exists>e. fn y = Inl e" "fn ip = Inr conn"
        by blast
      with Inl obtain pre' where "pre = x # pre'" by (cases pre) auto
      with * show ?r by auto
    next
      assume ?r
      then obtain pre ip post where "ips = pre @ ip # post" "\<forall>y \<in> set pre. \<exists>e. fn y = Inl e" "fn ip = Inr conn"
        by blast
      with Inl show ?l by (intro exI [of _ "x # pre"]) auto
    qed
    with Inl Cons show ?thesis by simp
  next
    case (Inr c)
    then have "x # ips = pre @ ip # post \<and> (\<forall>y \<in> set pre. \<exists>e. fn y = Inl e) \<Longrightarrow> pre = []" for pre ip post
      by (cases pre) auto
    with Inr show ?thesis by fastforce
  qed
qed simp

lemma try_ips_Inl: "try_ips fn err ips = Inl e \<Longrightarrow> \<forall>ip \<in> set ips. \<exists>e. fn ip = Inl e"
  by (induction ips arbitrary: err) (auto split: sum.splits)

lemma try_suitable:
  "(case ips of [] \<Rightarrow> Inl e | ip # xs \<Rightarrow> try_ips g e' (ip # xs)) = Inr conn
    \<longleftrightarrow> (\<exists>pre ip post. ips = pre @ ip # post \<and> list_all (\<lambda>x. isl (g x)) pre \<and> g ip = Inr conn)"
proof -
  have "isl s \<longleftrightarrow> (\<exists>e. s = Inl e)" for s :: "link_error + nat" by (cases s) auto
  then show ?thesis using try_ips_Inr [of g e' ips conn] by (cases ips) (simp_all add: list_all_iff)
qed

text \<open>
  The choice of an address. A dial over an IP carrier succeeds exactly when the host and port of
  the URL parse, the name resolves, and some resolved address that is neither unspecified nor
  multicast and passes the peer filter can be dialled; the connection is the one to the first such
  address, after every earlier one failed. Otherwise an error is returned, and when no address is
  suitable nothing is dialled.
\<close>

theorem findSuitableIP_first:
  "findSuitableIP env flt u fn = Inr conn \<longleftrightarrow>
     (\<exists>host p port resp pre ip post.
        SplitHostPort (u_host u) = Some (host, p) \<and> Atoi p = Some port \<and> LookupIP env host = Some resp
      \<and> filter (suitable flt) resp = pre @ ip # post
      \<and> list_all (\<lambda>x. isl (fn host x port)) pre \<and> fn host ip port = Inr conn)"
  unfolding findSuitableIP_def by (auto simp: try_suitable split: option.splits)

lemma choose_source_Some:
  "choose_source dst addrs = Some src \<Longrightarrow> Some src \<in> set addrs \<and> source_for dst src"
  by (induction dst addrs rule: choose_source.induct) (auto split: if_splits)

lemma choose_source_None:
  "choose_source dst addrs = None \<longleftrightarrow> (\<forall>src. Some src \<in> set addrs \<longrightarrow> \<not> source_for dst src)"
  by (induction dst addrs rule: choose_source.induct) (auto split: if_splits)

lemma source_for_scope:
  assumes "source_for dst src"
  shows "(To4 src = None) = (To4 dst = None)"
    "IsGlobalUnicast dst \<Longrightarrow> IsGlobalUnicast src" "IsLinkLocalUnicast dst \<Longrightarrow> IsLinkLocalUnicast src"
  using assms unfolding source_for_def by (auto dest: global_not_link_local)

text \<open>
  C27. Peering through a chosen interface stays on it. A dialler for a destination reached over
  interface \<open>sintf\<close> either binds to an address of that interface, of the same family and, for global
  and link-local destinations, of the same scope as the destination; or the destination is link-local
  and carries a zone that confines it to a link. A destination that is not link-local is never
  dialled unbound when an interface was asked for, and a link-local destination never without a zone.
\<close>

theorem tcp_dialerFor_bound:
  assumes "tcp_dialerFor env dst sintf = Inr (addr, dialer)"
  shows "ta_ip addr = ta_ip dst \<and> ta_port addr = ta_port dst
    \<and> (IsLinkLocalUnicast (ta_ip dst) \<longrightarrow> ta_zone addr \<noteq> '''' \<and> (sintf \<noteq> '''' \<longrightarrow> ta_zone addr = sintf))
    \<and> (sintf \<noteq> '''' \<longrightarrow> d_control dialer = BindToDevice sintf)
    \<and> (sintf \<noteq> '''' \<and> \<not> IsLinkLocalUnicast (ta_ip dst) \<longrightarrow> d_local dialer \<noteq> None)
    \<and> (\<forall>src. d_local dialer = Some src \<longrightarrow>
         ta_zone src = sintf
       \<and> (\<exists>ief addrs. InterfaceByName env sintf = Some ief \<and> if_up ief \<and> if_addrs ief = Some addrs \<and> Some (ta_ip src) \<in> set addrs)
       \<and> (To4 (ta_ip src) = None) = (To4 (ta_ip dst) = None)
       \<and> (IsGlobalUnicast (ta_ip dst) \<longrightarrow> IsGlobalUnicast (ta_ip src))
       \<and> (IsLinkLocalUnicast (ta_ip dst) \<longrightarrow> IsLinkLocalUnicast (ta_ip src)))"
  using assms
  by (auto simp: tcp_dialerFor_def Let_def source_for_scope
        split: if_splits option.splits dest!: choose_source_Some)


definition sample_env :: net_env where
  "sample_env =
     \<lparr>LookupIP = (\<lambda>h. if h = ''peer'' then Some [[0, 0, 0, 0], [192, 0, 2, 7], [192, 0, 2, 8]] else None),
      InterfaceByName = (\<lambda>n. if n = ''eth0''
        then Some \<lparr>if_up = True, if_addrs = Some [None, Some [169, 254, 1, 1], Some [192, 0, 2, 1]]\<rparr> else None),
      Dial = (\<lambda>p. case p of DialTCP d a \<Rightarrow> if ta_ip a = [192, 0, 2, 8] then Inr 1 else Inl (ErrDial 0) | _ \<Rightarrow> Inl (ErrDial 1)),
      ip_String = (\<lambda>ip. ''''), ProxyFromEnvironment = (\<lambda>u. Inr None)\<rparr>"

lemma sample_sources [simp]:
  "source_for [192, 0, 2, 7] [192, 0, 2, 1] = True"
  "source_for [192, 0, 2, 7] [169, 254, 1, 1] = False"
  "IsLinkLocalUnicast [192, 0, 2, 7] = False"
  by code_simp+

theorem tcp_dialerFor_bound_witness:
  "\<exists>addr dialer src. tcp_dialerFor sample_env \<lparr>ta_ip = [192, 0, 2, 7], ta_port = 9, ta_zone = ''''\<rparr> ''eth0'' = Inr (addr, dialer)
     \<and> d_local dialer = Some src \<and> ta_zone src = ''eth0''"
proof -
  have "tcp_dialerFor sample_env \<lparr>ta_ip = [192, 0, 2, 7], ta_port = 9, ta_zone = ''''\<rparr> ''eth0''
      = Inr (\<lparr>ta_ip = [192, 0, 2, 7], ta_port = 9, ta_zone = ''''\<rparr>,
             \<lparr>d_control = BindToDevice ''eth0'', d_local = Some \<lparr>ta_ip = [192, 0, 2, 1], ta_port = 0, ta_zone = ''eth0''\<rparr>\<rparr>)"
    by (simp add: tcp_dialerFor_def sample_env_def Let_def)
  from tcp_dialerFor_bound [OF this] this show ?thesis by auto
qed

subsection \<open>Names presented to the peer\<close>

text \<open>The TLS configuration of a dial, if it has one, and the destination it names.\<close>

fun plan_tls :: "dial_plan \<Rightarrow> tls_config option" where
  "plan_tls (DialTLS d a c) = Some c"
| "plan_tls (DialSOCKS d h auth dst c) = c"
| "plan_tls (DialQUIC h c) = Some c"
| "plan_tls (DialWS d proxy u ps h c) = c"
| "plan_tls _ = None"

fun plan_to :: "net_env \<Rightarrow> ip \<Rightarrow> int \<Rightarrow> dial_plan \<Rightarrow> bool" where
  "plan_to env ip port (DialTCP d a) \<longleftrightarrow> ta_ip a = ip \<and> ta_port a = port"
| "plan_to env ip port (DialTLS d a c) \<longleftrightarrow> ta_ip a = ip \<and> ta_port a = port"
| "plan_to env ip port (DialUNIX p) \<longleftrightarrow> False"
| "plan_to env ip port (DialSOCKS d h auth dst c) \<longleftrightarrow> h = JoinHostPort (ip_String env ip) (show_int port)"
| "plan_to env ip port (DialQUIC h c) \<longleftrightarrow> h = JoinHostPort (ip_String env ip) (show_int port)"
| "plan_to env ip port (DialWS d proxy u ps h c) \<longleftrightarrow> u_host u = JoinHostPort (ip_String env ip) (show_int port)"

text \<open>The proxy a dial goes through, if any.\<close>

fun plan_via :: "dial_plan \<Rightarrow> link_error + url option" where
  "plan_via (DialWS d proxy u ps h c) = proxy u"
| "plan_via _ = Inr None"

definition dialled_via :: "net_env \<Rightarrow> linkProtocol \<Rightarrow> url \<Rightarrow> ip \<Rightarrow> int \<Rightarrow> link_error + url option" where
  "dialled_via env proto u ip port =
     (if proto = linkWS \<or> proto = linkWSS
      then ProxyFromEnvironment env (u\<lparr>u_host := JoinHostPort (ip_String env ip) (show_int port)\<rparr>)
      else Inr None)"

definition dialled_name :: "linkProtocol \<Rightarrow> linkOptions \<Rightarrow> string \<Rightarrow> string" where
  "dialled_name proto options host =
     (if (proto = linkTLS \<or> proto = linkSOCKS) \<and> tlsSNI options \<noteq> '''' then tlsSNI options else host)"

lemma findSuitableIP_Inr:
  assumes "findSuitableIP env flt u fn = Inr conn"
  obtains host p port resp ip where "SplitHostPort (u_host u) = Some (host, p)" "Atoi p = Some port"
    "LookupIP env host = Some resp" "ip \<in> set resp" "suitable flt ip" "fn host ip port = Inr conn"
proof -
  have "\<exists>host p port resp pre ip post.
        SplitHostPort (u_host u) = Some (host, p) \<and> Atoi p = Some port \<and> LookupIP env host = Some resp
      \<and> filter (suitable flt) resp = pre @ ip # post \<and> fn host ip port = Inr conn"
    using assms unfolding findSuitableIP_def by (auto simp: try_suitable split: option.splits) blast
  then obtain host p port resp pre ip post where *:
    "SplitHostPort (u_host u) = Some (host, p)" "Atoi p = Some port" "LookupIP env host = Some resp"
    "filter (suitable flt) resp = pre @ ip # post" "fn host ip port = Inr conn" by blast
  have "ip \<in> set (filter (suitable flt) resp)" unfolding *(4) by simp
  then have "ip \<in> set resp" "suitable flt ip" by auto
  then show ?thesis using that [OF *(1,2,3) _ _ *(5)] by blast
qed

lemma tcp_dialerFor_target:
  "tcp_dialerFor env dst sintf = Inr (addr, dialer) \<Longrightarrow> ta_ip addr = ta_ip dst \<and> ta_port addr = ta_port dst"
  by (auto simp: tcp_dialerFor_def Let_def split: if_splits option.splits)


text \<open>
  What a connection over an IP carrier was dialled with: the resolved host of the URL and, where the
  carrier speaks TLS, its configuration.
\<close>

lemma tcp_dial_plan:
  assumes "tcp_dial env flt u sintf = Inr conn"
  obtains host p port resp ip plan where "SplitHostPort (u_host u) = Some (host, p)" "Atoi p = Some port"
    "LookupIP env host = Some resp" "ip \<in> set resp" "suitable flt ip"
    "Dial env plan = Inr conn" "plan_to env ip port plan" "plan_via plan = dialled_via env linkTCP u ip port" "plan_tls plan = None"
  using assms unfolding tcp_dial_def
  by (elim findSuitableIP_Inr) (fastforce simp: dialled_via_def split: sum.splits prod.splits dest: tcp_dialerFor_target)

lemma tls_dial_plan:
  assumes "tls_dial env flt config u sintf options = Inr conn"
  obtains host p port resp ip plan where "SplitHostPort (u_host u) = Some (host, p)" "Atoi p = Some port"
    "LookupIP env host = Some resp" "ip \<in> set resp" "suitable flt ip"
    "Dial env plan = Inr conn" "plan_to env ip port plan" "plan_via plan = dialled_via env linkTLS u ip port"
    "plan_tls plan = Some (tls_named config (dialled_name linkTLS options host))"
  using assms unfolding tls_dial_def
  by (elim findSuitableIP_Inr)
     (fastforce simp: dialled_via_def Let_def tls_named_def dialled_name_def split: sum.splits prod.splits if_splits dest: tcp_dialerFor_target)

lemma socks_dial_plan:
  assumes "socks_dial env flt config u sintf options = Inr conn"
  obtains host p port resp ip plan where "SplitHostPort (u_host u) = Some (host, p)" "Atoi p = Some port"
    "LookupIP env host = Some resp" "ip \<in> set resp" "suitable flt ip"
    "Dial env plan = Inr conn" "plan_to env ip port plan" "plan_via plan = dialled_via env linkSOCKS u ip port"
    "plan_tls plan = (if u_scheme u = ''sockstls'' then Some (tls_named config (dialled_name linkSOCKS options host)) else None)"
  using assms unfolding socks_dial_def
  by (elim findSuitableIP_Inr)
     (fastforce simp: dialled_via_def Let_def tls_named_def dialled_name_def split: sum.splits prod.splits if_splits)

lemma quic_dial_plan:
  assumes "quic_dial env flt config u = Inr conn"
  obtains host p port resp ip plan where "SplitHostPort (u_host u) = Some (host, p)" "Atoi p = Some port"
    "LookupIP env host = Some resp" "ip \<in> set resp" "suitable flt ip"
    "Dial env plan = Inr conn" "plan_to env ip port plan" "plan_via plan = dialled_via env linkQUIC u ip port" "plan_tls plan = Some config"
  using assms unfolding quic_dial_def by (elim findSuitableIP_Inr) (fastforce simp: dialled_via_def)

lemma ws_dial_plan:
  assumes "ws_dial env flt u sintf = Inr conn"
  obtains host p port resp ip plan where "SplitHostPort (u_host u) = Some (host, p)" "Atoi p = Some port"
    "LookupIP env host = Some resp" "ip \<in> set resp" "suitable flt ip"
    "Dial env plan = Inr conn" "plan_to env ip port plan" "plan_via plan = dialled_via env linkWS u ip port" "plan_tls plan = None"
  using assms unfolding ws_dial_def
  by (elim findSuitableIP_Inr) (fastforce simp: dialled_via_def split: sum.splits prod.splits)

lemma wss_dial_plan:
  assumes "wss_dial env flt config u sintf = Inr conn"
  obtains host p port resp ip plan where "SplitHostPort (u_host u) = Some (host, p)" "Atoi p = Some port"
    "LookupIP env host = Some resp" "ip \<in> set resp" "suitable flt ip"
    "Dial env plan = Inr conn" "plan_to env ip port plan" "plan_via plan = dialled_via env linkWSS u ip port" "plan_tls plan = Some (tls_named config host)"
  using assms unfolding wss_dial_def
  by (elim findSuitableIP_Inr) (fastforce simp: dialled_via_def split: sum.splits prod.splits)


text \<open>
  C26. What a peering is dialled with. A connection made for a URL over any carrier but a UNIX socket is
  dialled to an address the host of the URL resolves to, which is neither unspecified nor multicast
  and passes the peer filter, at the port of the URL (for SOCKS these are the address and port of the
  proxy). The dial is direct, except that a web socket goes through the proxy that the environment
  names for its URL, if it names one. Over TLS, secure web sockets and SOCKS with TLS, the dial offers
  TLS 1.2 to 1.3; over TLS and SOCKS with TLS it names the configured server name, or the host of the URL
  where none is configured, and over secure web sockets always the host of the URL. Over plain TCP, web
  sockets and SOCKS there is no TLS. Over QUIC the library gets the shared configuration as it is:
  neither the host nor a configured server name is presented.
\<close>

theorem connect_dials:
  assumes "connect env flt config u sintf options = Inr conn"
  shows "(\<exists>proto. dialerFor u = Inr proto \<and>
    (proto = linkUNIX \<and> Dial env (DialUNIX (u_path u)) = Inr conn \<or>
     (\<exists>host p port resp ip plan.
        SplitHostPort (u_host u) = Some (host, p) \<and> Atoi p = Some port \<and> LookupIP env host = Some resp
      \<and> ip \<in> set resp \<and> suitable flt ip \<and> Dial env plan = Inr conn
      \<and> plan_to env ip port plan \<and> plan_via plan = dialled_via env proto u ip port
      \<and> plan_tls plan =
          (if proto = linkQUIC then Some config
           else if proto = linkTLS \<or> proto = linkWSS \<or> proto = linkSOCKS \<and> u_scheme u = ''sockstls''
           then Some (tls_named config (dialled_name proto options host))
           else None))))"
proof -
  obtain proto where p: "dialerFor u = Inr proto"
    and d: "protocol_dial env flt config proto u sintf options = Inr conn"
    using assms by (auto simp: connect_def split: sum.splits)
  show ?thesis
  proof (cases proto)
    case linkTCP
    with d have "tcp_dial env flt u sintf = Inr conn" by (simp add: protocol_dial_def)
    then show ?thesis by (rule tcp_dial_plan) (use p linkTCP in \<open>fastforce\<close>)
  next
    case linkTLS
    with d have "tls_dial env flt config u sintf options = Inr conn" by (simp add: protocol_dial_def)
    then show ?thesis by (rule tls_dial_plan) (use p linkTLS in \<open>fastforce\<close>)
  next
    case linkUNIX
    with d have "Dial env (DialUNIX (u_path u)) = Inr conn" by (simp add: protocol_dial_def unix_dial_def)
    then show ?thesis using p linkUNIX by simp
  next
    case linkSOCKS
    with d have "socks_dial env flt config u sintf options = Inr conn" by (simp add: protocol_dial_def)
    then show ?thesis by (rule socks_dial_plan) (use p linkSOCKS in \<open>fastforce\<close>)
  next
    case linkQUIC
    with d have "quic_dial env flt config u = Inr conn" by (simp add: protocol_dial_def)
    then show ?thesis by (rule quic_dial_plan) (use p linkQUIC in \<open>fastforce\<close>)
  next
    case linkWS
    with d have "ws_dial env flt u sintf = Inr conn" by (simp add: protocol_dial_def)
    then show ?thesis by (rule ws_dial_plan) (use p linkWS in \<open>fastforce\<close>)
  next
    case linkWSS
    with d have "wss_dial env flt config u sintf = Inr conn" by (simp add: protocol_dial_def)
    then show ?thesis by (rule wss_dial_plan) (use p linkWSS in \<open>fastforce simp: dialled_name_def\<close>)
  qed
qed

definition sample_options :: linkOptions where
  "sample_options = \<lparr>pinnedEd25519Keys = {||}, lo_priority = 0, tlsSNI = '''', lo_password = [], requireSecure = False, maxBackoff = 0\<rparr>"

definition sample_url :: url where
  "sample_url = \<lparr>u_scheme = ''tcp'', u_userinfo = '''', u_user = None, u_host = ''peer:9001'', u_path = '''',
     u_rawquery = ''origin=a'', u_query = [(''origin'', ''a'')]\<rparr>"

lemma sample_url_parts:
  "SplitHostPort ''peer:9001'' = Some (''peer'', ''9001'')"
  "Atoi ''9001'' = Some 9001"
  by (simp_all add: SplitHostPort_def cut_last_def colon_def lbracket_def rbracket_def Atoi_def digit_val_def)

lemma sample_suitable:
  "suitable None [0, 0, 0, 0] = False" "suitable None [192, 0, 2, 7] = True" "suitable None [192, 0, 2, 8] = True"
  "IsLinkLocalUnicast [192, 0, 2, 8] = False"
  by code_simp+

lemma sample_connect: "connect sample_env None generateTLSConfig sample_url '''' sample_options = Inr 1"
  by (simp add: connect_def dialerFor_def protocol_dial_def tcp_dial_def findSuitableIP_def sample_url_def
        sample_url_parts sample_suitable sample_env_def tcp_dialerFor_def ToLower_def lower_char_def)

theorem connect_dials_witness:
  "connect sample_env None generateTLSConfig sample_url '''' sample_options = Inr 1
   \<and> (\<exists>ip port plan. suitable None ip \<and> Dial sample_env plan = Inr 1 \<and> plan_to sample_env ip port plan
        \<and> plan_via plan = Inr None \<and> plan_tls plan = None)"
proof -
  have "dialerFor sample_url = Inr linkTCP" by (simp add: dialerFor_def sample_url_def ToLower_def lower_char_def)
  then show ?thesis using sample_connect connect_dials [OF sample_connect] by (auto simp: dialled_via_def)
qed

section \<open>Web socket server\<close>

lemma accept_origins_eq:
  "accept_origins opts os =
     (if ''*'' \<in> set os then opts\<lparr>InsecureSkipVerify := True, OriginPatterns := []\<rparr>
      else opts\<lparr>OriginPatterns := OriginPatterns opts @ filter (\<lambda>x. x \<noteq> '''') os\<rparr>)"
  by (induction opts os rule: accept_origins.induct) auto

text \<open>
  Who may speak to a web socket listener. Requests of any origin are accepted only when the
  listener's URL has an origin option with a star; otherwise the accepted patterns are exactly the
  non-empty origin options, in order, so that without options only requests of the same origin pass.
  A connection reaches the link layer only if the request is not for a health path and it negotiated
  one of the two subprotocols.
\<close>

theorem ws_listener_policy:
  "InsecureSkipVerify (wsAcceptOptions u) = (''*'' \<in> set (query_values u ''origin''))
   \<and> OriginPatterns (wsAcceptOptions u) =
       (if ''*'' \<in> set (query_values u ''origin'') then []
        else filter (\<lambda>x. x \<noteq> '''') (query_values u ''origin''))
   \<and> ao_Subprotocols (wsAcceptOptions u) = subprotocols
   \<and> (ServeHTTP path accept = Passed c) =
       (path \<notin> {''/health'', ''/healthz''} \<and> (\<exists>s. accept = Some (c, s) \<and> s \<in> set subprotocols))"
  by (auto simp: wsAcceptOptions_def accept_origins_eq ServeHTTP_def subprotocols_def split: option.splits)


end
