(* ===== verification/Links.thy ===== *)
theory Links
  imports Transports Events "HOL-Library.Finite_Map"
begin

text \<open>
  The peerings of a node, \<^verbatim>\<open>src/core/link.go\<close>: the table of links, the options of a peering URI, adding
  and removing peers, listeners and accepted connections, the goroutine that dials, handles and
  redials a peering with exponential backoff, and the byte counters. A link object is a number into
  \<open>lk_heap\<close>; a connection is a number given by the environment; each goroutine is a record with the
  point it has reached, so that the blocks it runs inside the links actor are atomic steps and
  everything else interleaves. The handshake handler itself is in the theory \<open>Handshake\<close>: here it is
  the event that a handler returned.
\<close>

section \<open>Data\<close>

record linkInfo =
  li_uri :: string
  li_sintf :: string

record link =
  l_cancel :: bool
  l_cancelled :: bool
  l_type :: linkType
  l_proto :: string
  l_conn :: "nat option"
  l_err :: "link_error option"
  l_errtime :: nat

record linkConn =
  lc_rx :: u64
  lc_tx :: u64
  rxrate :: u64
  txrate :: u64
  lastrx :: u64
  lasttx :: u64
  lc_up :: nat

datatype dial_pc = LoopTop | Dialling | Handling nat | BackingOff "int option" | Finished

record dial_thread =
  dt_info :: linkInfo
  dt_type :: linkType
  dt_url :: url
  dt_options :: linkOptions
  dt_backoff :: int
  dt_pc :: dial_pc

record links =
  lk_links :: "(linkInfo, nat) fmap"
  lk_heap :: "(nat, link) fmap"
  lk_next :: nat
  lk_dialers :: "(nat, dial_thread) fmap"
  lk_incoming :: "(nat, linkInfo \<times> nat) fmap"
  lk_conns :: "(nat, linkConn) fmap"
  lk_open :: "nat fset"
  lk_listeners :: "nat fset"
  lk_sockets :: "nat fset"
  lk_core_done :: bool

definition links_init :: links where
  "links_init =
     \<lparr>lk_links = fmempty, lk_heap = fmempty, lk_next = 0, lk_dialers = fmempty, lk_incoming = fmempty,
      lk_conns = fmempty, lk_open = {||}, lk_listeners = {||}, lk_sockets = {||}, lk_core_done = False\<rparr>"

datatype link_out = StartDial nat url linkOptions | CloseConn nat | CloseSocket nat

definition linkInfo_for :: "url \<Rightarrow> string \<Rightarrow> linkInfo" where
  "linkInfo_for u sintf = \<lparr>li_uri = url_String (urlForLinkInfo u), li_sintf = sintf\<rparr>"

definition the_link :: "links \<Rightarrow> nat \<Rightarrow> link" where
  "the_link s p = the (fmlookup (lk_heap s) p)"

definition set_link :: "nat \<Rightarrow> link \<Rightarrow> links \<Rightarrow> links" where
  "set_link p l s = s\<lparr>lk_heap := fmupd p l (lk_heap s)\<rparr>"

definition set_thread :: "nat \<Rightarrow> dial_thread \<Rightarrow> links \<Rightarrow> links" where
  "set_thread p t s = s\<lparr>lk_dialers := fmupd p t (lk_dialers s)\<rparr>"

definition ctx_done :: "links \<Rightarrow> nat \<Rightarrow> bool" where
  "ctx_done s p \<longleftrightarrow> lk_core_done s \<or> l_cancelled (the_link s p)"

section \<open>Counters\<close>

definition new_conn :: "nat \<Rightarrow> linkConn" where
  "new_conn now = \<lparr>lc_rx = 0, lc_tx = 0, rxrate = 0, txrate = 0, lastrx = 0, lasttx = 0, lc_up = now\<rparr>"

definition linkConn_Read :: "nat \<Rightarrow> linkConn \<Rightarrow> linkConn" where
  "linkConn_Read n c = c\<lparr>lc_rx := lc_rx c + of_nat n\<rparr>"

definition linkConn_Write :: "nat \<Rightarrow> linkConn \<Rightarrow> linkConn" where
  "linkConn_Write n c = c\<lparr>lc_tx := lc_tx c + of_nat n\<rparr>"

definition update_rates :: "linkConn \<Rightarrow> linkConn" where
  "update_rates c =
     c\<lparr>rxrate := lc_rx c - lastrx c, txrate := lc_tx c - lasttx c, lastrx := lc_rx c, lasttx := lc_tx c\<rparr>"

definition linked_conns :: "links \<Rightarrow> nat fset" where
  "linked_conns s = ffilter (\<lambda>c. c |\<in>| (\<lambda>p. the (l_conn (the_link s p))) |`| ffilter (\<lambda>p. l_conn (the_link s p) \<noteq> None) (fmran (lk_links s)))
     (fmdom (lk_conns s))"

definition updateAverages :: "links \<Rightarrow> links" where
  "updateAverages s =
     (if lk_core_done s then s
      else s\<lparr>lk_conns := fmmap_keys (\<lambda>c conn. if c |\<in>| linked_conns s then update_rates conn else conn) (lk_conns s)\<rparr>)"

section \<open>Options of a peering URI\<close>

definition second :: int where "second = 1000000000"
definition defaultBackoffLimit :: int where "defaultBackoffLimit = second * 2 ^ 12"
definition minimumBackoffLimit :: int where "minimumBackoffLimit = second * 5"
definition blake2b_Size :: nat where "blake2b_Size = 64"

text \<open>The parsers of the standard library for durations and IP addresses.\<close>

record golib =
  ParseDuration :: "string \<Rightarrow> int option"
  ParseIP :: "string \<Rightarrow> ip option"

fun pinned_keys :: "bytes fset \<Rightarrow> string list \<Rightarrow> link_error + bytes fset" where
  "pinned_keys ks [] = Inr ks"
| "pinned_keys ks (pubkey # pubkeys) =
     (case hex_decode pubkey of
        None \<Rightarrow> Inl ErrLinkPinnedKeyInvalid
      | Some sigPub \<Rightarrow> pinned_keys (finsert (array_of 32 sigPub) ks) pubkeys)"

definition priority_option :: "url \<Rightarrow> link_error + byte" where
  "priority_option u =
     (let p = query_Get u ''priority''
      in if p = '''' then Inr 0
         else case ParseUint 8 p of None \<Rightarrow> Inl ErrLinkPriorityInvalid | Some pi \<Rightarrow> Inr (of_nat pi))"

definition password_option :: "url \<Rightarrow> link_error + bytes" where
  "password_option u =
     (let p = query_Get u ''password''
      in if p = '''' then Inr []
         else if length p > blake2b_Size then Inl ErrLinkPasswordInvalid else Inr (ascii p))"

definition secure_option :: "url \<Rightarrow> link_error + bool" where
  "secure_option u =
     (let p = query_Get u ''secure''
      in if p = '''' then Inr False
         else if p = ''required'' then Inr True
         else if p = ''opportunistic'' then Inr False
         else Inl ErrLinkSecurityInvalid)"

definition backoff_option :: "golib \<Rightarrow> url \<Rightarrow> link_error + int" where
  "backoff_option lib u =
     (let p = query_Get u ''maxbackoff''
      in if p = '''' then Inr defaultBackoffLimit
         else case ParseDuration lib p of
                None \<Rightarrow> Inl ErrLinkMaxBackoffInvalid
              | Some d \<Rightarrow> if d < minimumBackoffLimit then Inl ErrLinkMaxBackoffInvalid else Inr d)"

definition sni_option :: "golib \<Rightarrow> url \<Rightarrow> string" where
  "sni_option lib u =
     (let sni = query_Get u ''sni'';
          sni = (if sni \<noteq> '''' \<and> ParseIP lib sni = None then sni else '''')
      in if sni \<noteq> '''' then sni
         else case SplitHostPort (u_host u) of
                None \<Rightarrow> ''''
              | Some (host, _) \<Rightarrow> if ParseIP lib host = None then host else '''')"

definition add_options :: "golib \<Rightarrow> url \<Rightarrow> link_error + linkOptions" where
  "add_options lib u =
     (case pinned_keys {||} (query_values u ''key'') of Inl e \<Rightarrow> Inl e | Inr keys \<Rightarrow>
      case priority_option u of Inl e \<Rightarrow> Inl e | Inr priority \<Rightarrow>
      case password_option u of Inl e \<Rightarrow> Inl e | Inr password \<Rightarrow>
      case secure_option u of Inl e \<Rightarrow> Inl e | Inr secure \<Rightarrow>
      case backoff_option lib u of Inl e \<Rightarrow> Inl e | Inr limit \<Rightarrow>
        Inr \<lparr>pinnedEd25519Keys = keys, lo_priority = priority, tlsSNI = sni_option lib u, lo_password = password,
             requireSecure = secure, maxBackoff = limit\<rparr>)"

definition listen_options :: "url \<Rightarrow> link_error + linkOptions" where
  "listen_options u =
     (case priority_option u of Inl e \<Rightarrow> Inl e | Inr priority \<Rightarrow>
      case password_option u of Inl e \<Rightarrow> Inl e | Inr password \<Rightarrow>
      case secure_option u of Inl e \<Rightarrow> Inl e | Inr secure \<Rightarrow>
        Inr \<lparr>pinnedEd25519Keys = {||}, lo_priority = priority, tlsSNI = '''', lo_password = password,
             requireSecure = secure, maxBackoff = 0\<rparr>)"

section \<open>Adding and removing peers\<close>

text \<open>A send on the kick channel is received only by a goroutine that is backing off.\<close>

definition kick :: "nat \<Rightarrow> links \<Rightarrow> links" where
  "kick p s =
     (case fmlookup (lk_dialers s) p of
        None \<Rightarrow> s
      | Some t \<Rightarrow> (case dt_pc t of BackingOff d \<Rightarrow> set_thread p (t\<lparr>dt_pc := LoopTop\<rparr>) s | _ \<Rightarrow> s))"

definition links_add :: "golib \<Rightarrow> url \<Rightarrow> string \<Rightarrow> linkType \<Rightarrow> links \<Rightarrow> link_error option \<times> links" where
  "links_add lib u sintf lt s =
     (case dialerFor u of
        Inl e \<Rightarrow> (Some e, s)
      | Inr _ \<Rightarrow>
          (case add_options lib u of
             Inl e \<Rightarrow> (Some e, s)
           | Inr options \<Rightarrow>
               (let info = linkInfo_for u sintf
                in case fmlookup (lk_links s) info of
                     Some p \<Rightarrow> (Some ErrLinkAlreadyConfigured, kick p s)
                   | None \<Rightarrow>
                       (let p = lk_next s;
                            l = \<lparr>l_cancel = True, l_cancelled = False, l_type = lt, l_proto = ToUpper (u_scheme u),
                                 l_conn = None, l_err = None, l_errtime = 0\<rparr>;
                            t = \<lparr>dt_info = info, dt_type = lt, dt_url = u, dt_options = options, dt_backoff = 0,
                                 dt_pc = LoopTop\<rparr>
                        in (None, (set_thread p t (set_link p l s))\<lparr>lk_links := fmupd info p (lk_links s),
                             lk_next := Suc p\<rparr>)))))"

definition close_conn :: "nat \<Rightarrow> links \<Rightarrow> links \<times> link_out list" where
  "close_conn c s =
     (s\<lparr>lk_open := lk_open s |-| {|c|}\<rparr>, if c |\<in>| lk_open s then [CloseConn c] else [])"

text \<open>The links of accepted connections have no cancel function: calling it is a nil call.\<close>

definition links_remove :: "url \<Rightarrow> string \<Rightarrow> links \<Rightarrow> (link_error option \<times> links \<times> link_out list) go" where
  "links_remove u sintf s =
     (case fmlookup (lk_links s) (linkInfo_for u sintf) of
        None \<Rightarrow> Ok (Some ErrLinkNotConfigured, s, [])
      | Some p \<Rightarrow>
          if \<not> l_cancel (the_link s p) then Panic
          else
            (let s = set_link p ((the_link s p)\<lparr>l_cancelled := True\<rparr>) s
             in case l_conn (the_link s p) of
                  None \<Rightarrow> Ok (None, s, [])
                | Some c \<Rightarrow> Ok (if c |\<in>| lk_open s then None else Some ErrClosedConn, close_conn c s)))"

section \<open>The dialling goroutine\<close>

definition backoff_next :: "int \<Rightarrow> int" where
  "backoff_next b = (if 0 \<le> b \<and> b < 32 then b + 1 else b)"

definition backoff_duration :: "int \<Rightarrow> int \<Rightarrow> int option" where
  "backoff_duration limit b =
     (if b < 0 then None
      else
        (let duration = sint (push_bit (nat b) (of_int second) :: 64 word)
         in Some (if duration > limit then limit else duration)))"

definition delete_if :: "linkInfo \<Rightarrow> nat \<Rightarrow> links \<Rightarrow> links" where
  "delete_if info p s =
     (if fmlookup (lk_links s) info = Some p then s\<lparr>lk_links := fmdrop info (lk_links s)\<rparr> else s)"

definition finish_dial :: "nat \<Rightarrow> dial_thread \<Rightarrow> links \<Rightarrow> links" where
  "finish_dial p t s = delete_if (dt_info t) p (set_thread p (t\<lparr>dt_pc := Finished\<rparr>) s)"

definition backoffNow :: "nat \<Rightarrow> dial_thread \<Rightarrow> links \<Rightarrow> links" where
  "backoffNow p t s =
     (let b = backoff_next (dt_backoff t)
      in set_thread p (t\<lparr>dt_backoff := b, dt_pc := BackingOff (backoff_duration (maxBackoff (dt_options t)) b)\<rparr>) s)"

text \<open>The top of the loop: give up when cancelled, dial otherwise.\<close>

definition dial_loop :: "nat \<Rightarrow> dial_thread \<Rightarrow> links \<Rightarrow> links \<times> link_out list" where
  "dial_loop p t s =
     (if ctx_done s p then (finish_dial p t s, [])
      else (set_thread p (t\<lparr>dt_pc := Dialling\<rparr>) s, [StartDial p (dt_url t) (dt_options t)]))"

definition dial_failed :: "nat \<Rightarrow> dial_thread \<Rightarrow> link_error option \<Rightarrow> nat \<Rightarrow> links \<Rightarrow> links" where
  "dial_failed p t err now s =
     (if dt_type t = linkTypePersistent
      then backoffNow p t (set_link p ((the_link s p)\<lparr>l_conn := None, l_err := err, l_errtime := now\<rparr>) s)
      else finish_dial p t s)"

definition dial_up :: "nat \<Rightarrow> dial_thread \<Rightarrow> nat \<Rightarrow> nat \<Rightarrow> links \<Rightarrow> links" where
  "dial_up p t c now s =
     (let doRet = (l_conn (the_link s p) \<noteq> None);
          s = s\<lparr>lk_conns := fmupd c (new_conn now) (lk_conns s), lk_open := finsert c (lk_open s)\<rparr>;
          s = set_link p ((the_link s p)\<lparr>l_conn := Some c, l_err := None, l_errtime := now\<rparr>) s
      in if doRet then finish_dial p t s else set_thread p (t\<lparr>dt_pc := Handling c\<rparr>) s)"

definition resetBackoff :: "nat \<Rightarrow> dial_thread \<Rightarrow> links \<Rightarrow> links" where
  "resetBackoff p t s = set_thread p (t\<lparr>dt_backoff := 0\<rparr>) s"

definition handler_done ::
  "nat \<Rightarrow> dial_thread \<Rightarrow> nat \<Rightarrow> handler_error option \<Rightarrow> nat \<Rightarrow> links \<Rightarrow> links \<times> link_out list" where
  "handler_done p t c err now s =
     (let t = (if err = Some ErrLinkToSelf then t\<lparr>dt_backoff := -1\<rparr> else t);
          (s, outs) = close_conn c s;
          s = set_link p ((the_link s p)\<lparr>l_conn := None,
                l_err := Some (case err of None \<Rightarrow> ErrRemoteClosed | Some e \<Rightarrow> ErrHandler e), l_errtime := now\<rparr>) s
      in (if dt_type t = linkTypePersistent then backoffNow p t s else finish_dial p t s, outs))"

text \<open>The end of a wait: the timeout, or the cancellation of the peering or the node.\<close>

definition backoff_over :: "nat \<Rightarrow> dial_thread \<Rightarrow> bool \<Rightarrow> links \<Rightarrow> links" where
  "backoff_over p t timeout s =
     (if timeout then set_thread p (t\<lparr>dt_pc := LoopTop\<rparr>) s
      else if ctx_done s p then finish_dial p t s
      else s)"

section \<open>Listeners and accepted connections\<close>

text \<open>
  \<open>opened\<close> is the outcome of opening the socket; \<open>lk_sockets\<close> are the open sockets, \<open>lk_listeners\<close> the
  registered listeners.
\<close>

definition links_listen ::
  "url \<Rightarrow> link_error + nat \<Rightarrow> links \<Rightarrow> (link_error + nat \<times> linkOptions) \<times> links" where
  "links_listen u opened s =
     (case listenerFor u of
        Inl e \<Rightarrow> (Inl e, s)
      | Inr _ \<Rightarrow>
          (case opened of
             Inl e \<Rightarrow> (Inl e, s)
           | Inr li \<Rightarrow>
               (let s = s\<lparr>lk_sockets := finsert li (lk_sockets s)\<rparr>
                in case listen_options u of
                     Inl e \<Rightarrow> (Inl e, s)
                   | Inr options \<Rightarrow> (Inr (li, options), s\<lparr>lk_listeners := finsert li (lk_listeners s)\<rparr>))))"

definition cancel_listener :: "nat \<Rightarrow> links \<Rightarrow> links" where
  "cancel_listener li s = s\<lparr>lk_sockets := lk_sockets s |-| {|li|}\<rparr>"

definition listener_stopped :: "nat \<Rightarrow> links \<Rightarrow> links" where
  "listener_stopped li s = (cancel_listener li s)\<lparr>lk_listeners := lk_listeners s |-| {|li|}\<rparr>"

definition incoming_state :: "url \<Rightarrow> linkInfo \<Rightarrow> links \<Rightarrow> nat \<times> links" where
  "incoming_state u info s =
     (case fmlookup (lk_links s) info of
        Some p \<Rightarrow> (p, s)
      | None \<Rightarrow>
          (lk_next s,
           (set_link (lk_next s) \<lparr>l_cancel = False, l_cancelled = False, l_type = linkTypeIncoming,
              l_proto = ToUpper (u_scheme u), l_conn = None, l_err = None, l_errtime = 0\<rparr> s)
             \<lparr>lk_next := Suc (lk_next s)\<rparr>))"

definition incoming_up :: "linkInfo \<Rightarrow> nat \<Rightarrow> nat \<Rightarrow> nat \<Rightarrow> links \<Rightarrow> links" where
  "incoming_up info p c now s =
     (set_link p ((the_link s p)\<lparr>l_conn := Some c, l_err := None, l_errtime := 0\<rparr>) s)
       \<lparr>lk_conns := fmupd c (new_conn now) (lk_conns s), lk_links := fmupd info p (lk_links s),
        lk_incoming := fmupd c (info, p) (lk_incoming s)\<rparr>"

text \<open>
  The block that looks a new connection up. A duplicate is not wrapped and not handled: its goroutine
  has only its deferred calls left, and they are a later step like those of every accepted connection.
\<close>

definition incoming_accept :: "url \<Rightarrow> string \<Rightarrow> string \<Rightarrow> nat \<Rightarrow> nat \<Rightarrow> links \<Rightarrow> links" where
  "incoming_accept u sintf remote c now s =
     (let info = linkInfo_for (u\<lparr>u_host := remote\<rparr>) sintf;
          (p, s) = incoming_state u info (s\<lparr>lk_open := finsert c (lk_open s)\<rparr>)
      in if l_conn (the_link s p) \<noteq> None then s\<lparr>lk_incoming := fmupd c (info, p) (lk_incoming s)\<rparr>
         else incoming_up info p c now s)"

definition incoming_done :: "nat \<Rightarrow> linkInfo \<times> nat \<Rightarrow> links \<Rightarrow> links \<times> link_out list" where
  "incoming_done c th s =
     (let (s, outs) = close_conn c s;
          s = delete_if (fst th) (snd th) s
      in (s\<lparr>lk_incoming := fmdrop c (lk_incoming s)\<rparr>, outs))"

definition links_shutdown :: "links \<Rightarrow> links" where
  "links_shutdown s =
     s\<lparr>lk_open := lk_open s |-| linked_conns s, lk_sockets := lk_sockets s |-| lk_listeners s\<rparr>"

section \<open>Steps\<close>

datatype link_event =
    Add url string linkType
  | Remove url string
  | LoopStep nat
  | DialFailed nat "link_error option" nat
  | DialUp nat nat nat
  | HandshakeUp nat
  | HandlerDone nat "handler_error option" nat
  | BackoffOver nat bool
  | Listen url "link_error + nat"
  | ListenerStopped nat
  | Accept url string string nat nat
  | IncomingDone nat
  | ConnRead nat nat
  | ConnWrite nat nat
  | Tick
  | CoreDone
  | Shutdown

text \<open>An event of a goroutine that is not at that point, or of a connection already used, is no event.\<close>

definition fresh_conn :: "links \<Rightarrow> nat \<Rightarrow> bool" where
  "fresh_conn s c \<longleftrightarrow> c |\<notin>| fmdom (lk_conns s) \<and> c |\<notin>| fmdom (lk_incoming s)"

definition links_step :: "golib \<Rightarrow> links \<Rightarrow> link_event \<Rightarrow> (links \<times> link_out list) go" where
  "links_step lib s e =
     (case e of
        Add u sintf lt \<Rightarrow> Ok (snd (links_add lib u sintf lt s), [])
      | Remove u sintf \<Rightarrow> go_bind (links_remove u sintf s) (\<lambda>(err, s, outs). Ok (s, outs))
      | LoopStep p \<Rightarrow>
          (case fmlookup (lk_dialers s) p of
             Some t \<Rightarrow> if dt_pc t = LoopTop then Ok (dial_loop p t s) else Ok (s, [])
           | None \<Rightarrow> Ok (s, []))
      | DialFailed p err now \<Rightarrow>
          (case fmlookup (lk_dialers s) p of
             Some t \<Rightarrow> if dt_pc t = Dialling then Ok (dial_failed p t err now s, []) else Ok (s, [])
           | None \<Rightarrow> Ok (s, []))
      | DialUp p c now \<Rightarrow>
          (case fmlookup (lk_dialers s) p of
             Some t \<Rightarrow>
               if dt_pc t = Dialling \<and> fresh_conn s c then Ok (dial_up p t c now s, []) else Ok (s, [])
           | None \<Rightarrow> Ok (s, []))
      | HandshakeUp p \<Rightarrow>
          (case fmlookup (lk_dialers s) p of
             Some t \<Rightarrow> (case dt_pc t of Handling c \<Rightarrow> Ok (resetBackoff p t s, []) | _ \<Rightarrow> Ok (s, []))
           | None \<Rightarrow> Ok (s, []))
      | HandlerDone p err now \<Rightarrow>
          (case fmlookup (lk_dialers s) p of
             Some t \<Rightarrow> (case dt_pc t of Handling c \<Rightarrow> Ok (handler_done p t c err now s) | _ \<Rightarrow> Ok (s, []))
           | None \<Rightarrow> Ok (s, []))
      | BackoffOver p timeout \<Rightarrow>
          (case fmlookup (lk_dialers s) p of
             Some t \<Rightarrow>
               (case dt_pc t of
                  BackingOff d \<Rightarrow> if timeout \<and> d = None then Ok (s, []) else Ok (backoff_over p t timeout s, [])
                | _ \<Rightarrow> Ok (s, []))
           | None \<Rightarrow> Ok (s, []))
      | Listen u opened \<Rightarrow> Ok (snd (links_listen u opened s), [])
      | ListenerStopped li \<Rightarrow> Ok (listener_stopped li s, [])
      | Accept u sintf remote c now \<Rightarrow>
          Ok (if fresh_conn s c then incoming_accept u sintf remote c now s else s, [])
      | IncomingDone c \<Rightarrow>
          (case fmlookup (lk_incoming s) c of Some th \<Rightarrow> Ok (incoming_done c th s) | None \<Rightarrow> Ok (s, []))
      | ConnRead c n \<Rightarrow>
          Ok (case fmlookup (lk_conns s) c of
                Some conn \<Rightarrow> s\<lparr>lk_conns := fmupd c (linkConn_Read n conn) (lk_conns s)\<rparr> | None \<Rightarrow> s, [])
      | ConnWrite c n \<Rightarrow>
          Ok (case fmlookup (lk_conns s) c of
                Some conn \<Rightarrow> s\<lparr>lk_conns := fmupd c (linkConn_Write n conn) (lk_conns s)\<rparr> | None \<Rightarrow> s, [])
      | Tick \<Rightarrow> Ok (updateAverages s, [])
      | CoreDone \<Rightarrow> Ok (s\<lparr>lk_core_done := True\<rparr>, [])
      | Shutdown \<Rightarrow> Ok (links_shutdown s, []))"

lemmas update_defs = set_link_def set_thread_def finish_dial_def delete_if_def backoffNow_def Let_def

lemmas link_op_defs = links_add_def kick_def close_conn_def dial_loop_def dial_failed_def dial_up_def resetBackoff_def
  handler_done_def backoff_over_def links_listen_def cancel_listener_def listener_stopped_def
  incoming_accept_def incoming_done_def links_shutdown_def updateAverages_def

section \<open>Well-formed tables\<close>

text \<open>
  Every pointer in the tables is an allocated link, and fresh links get fresh numbers. A link that was
  cancelled stays cancelled.
\<close>

definition links_wf :: "links \<Rightarrow> bool" where
  "links_wf s \<longleftrightarrow>
     (\<forall>p. p |\<in>| fmdom (lk_heap s) \<longrightarrow> p < lk_next s)
     \<and> (\<forall>info p. fmlookup (lk_links s) info = Some p \<longrightarrow> p |\<in>| fmdom (lk_heap s))
     \<and> (\<forall>p. p |\<in>| fmdom (lk_dialers s) \<longrightarrow> p |\<in>| fmdom (lk_heap s))
     \<and> (\<forall>c info p. fmlookup (lk_incoming s) c = Some (info, p) \<longrightarrow> p |\<in>| fmdom (lk_heap s))"

definition links_mono :: "links \<Rightarrow> links \<Rightarrow> bool" where
  "links_mono s s' \<longleftrightarrow>
     (\<forall>p. p |\<in>| fmdom (lk_heap s) \<longrightarrow> p |\<in>| fmdom (lk_heap s')
        \<and> l_cancel (the_link s' p) = l_cancel (the_link s p)
        \<and> (l_cancelled (the_link s p) \<longrightarrow> l_cancelled (the_link s' p)))"

lemma links_mono_refl [simp]: "links_mono s s" by (simp add: links_mono_def)

lemma links_mono_trans: "links_mono s s' \<Longrightarrow> links_mono s' s'' \<Longrightarrow> links_mono s s''"
  by (simp add: links_mono_def)

lemma links_wf_init: "links_wf links_init"
  by (simp add: links_wf_def links_init_def)

lemma thread_in_heap: "links_wf s \<Longrightarrow> fmlookup (lk_dialers s) p = Some t \<Longrightarrow> p |\<in>| fmdom (lk_heap s)"
  unfolding links_wf_def by (metis fmdomI)

lemma the_link_upd [simp]:
  "the_link (s\<lparr>lk_heap := fmupd p l h\<rparr>) q = (if q = p then l else the_link (s\<lparr>lk_heap := h\<rparr>) q)"
  "the_link (s\<lparr>lk_links := a\<rparr>) q = the_link s q"
  "the_link (s\<lparr>lk_next := b\<rparr>) q = the_link s q"
  "the_link (s\<lparr>lk_dialers := c\<rparr>) q = the_link s q"
  "the_link (s\<lparr>lk_incoming := d\<rparr>) q = the_link s q"
  "the_link (s\<lparr>lk_conns := e\<rparr>) q = the_link s q"
  "the_link (s\<lparr>lk_open := f\<rparr>) q = the_link s q"
  "the_link (s\<lparr>lk_listeners := g\<rparr>) q = the_link s q"
  "the_link (s\<lparr>lk_sockets := i\<rparr>) q = the_link s q"
  "the_link (s\<lparr>lk_core_done := j\<rparr>) q = the_link s q"
  "the_link (s\<lparr>lk_heap := lk_heap s\<rparr>) q = the_link s q"
  by (auto simp: the_link_def)

lemma wf_set_link:
  assumes "links_wf s" "p |\<in>| fmdom (lk_heap s)"
    "l_cancel l = l_cancel (the_link s p)" "l_cancelled (the_link s p) \<Longrightarrow> l_cancelled l"
  shows "links_wf (set_link p l s) \<and> links_mono s (set_link p l s)"
  using assms by (auto simp: links_wf_def links_mono_def set_link_def the_link_def)

lemma wf_alloc:
  assumes "links_wf s"
  shows "links_wf (set_link (lk_next s) l s\<lparr>lk_next := Suc (lk_next s)\<rparr>) \<and> links_mono s (set_link (lk_next s) l s\<lparr>lk_next := Suc (lk_next s)\<rparr>)"
  using assms by (force simp: links_wf_def links_mono_def set_link_def the_link_def)

lemma wf_set_thread:
  assumes "links_wf s" "p |\<in>| fmdom (lk_heap s)"
  shows "links_wf (set_thread p t s) \<and> links_mono s (set_thread p t s)"
  using assms by (auto simp: links_wf_def links_mono_def set_thread_def)

lemma wf_delete_if: "links_wf s \<Longrightarrow> links_wf (delete_if info p s) \<and> links_mono s (delete_if info p s)"
  by (auto simp: links_wf_def links_mono_def delete_if_def)

lemma wf_finish:
  assumes "links_wf s" "p |\<in>| fmdom (lk_heap s)"
  shows "links_wf (finish_dial p t s) \<and> links_mono s (finish_dial p t s)"
  unfolding finish_dial_def
  using wf_set_thread [OF assms] wf_delete_if links_mono_trans by blast

lemma wf_backoffNow:
  assumes "links_wf s" "p |\<in>| fmdom (lk_heap s)"
  shows "links_wf (backoffNow p t s) \<and> links_mono s (backoffNow p t s)"
  unfolding backoffNow_def Let_def using wf_set_thread [OF assms] by blast

lemma wf_conns:
  "links_wf (s\<lparr>lk_conns := a\<rparr>) = links_wf s" "links_wf (s\<lparr>lk_open := b\<rparr>) = links_wf s"
  "links_wf (s\<lparr>lk_listeners := d\<rparr>) = links_wf s" "links_wf (s\<lparr>lk_sockets := f\<rparr>) = links_wf s"
  "links_wf (s\<lparr>lk_core_done := g\<rparr>) = links_wf s"
  by (simp_all add: links_wf_def)

lemma mono_conns:
  "links_mono s (s'\<lparr>lk_conns := a\<rparr>) = links_mono s s'" "links_mono s (s'\<lparr>lk_open := b\<rparr>) = links_mono s s'"
  "links_mono s (s'\<lparr>lk_listeners := d\<rparr>) = links_mono s s'" "links_mono s (s'\<lparr>lk_sockets := f\<rparr>) = links_mono s s'"
  "links_mono s (s'\<lparr>lk_core_done := g\<rparr>) = links_mono s s'" "links_mono s (s'\<lparr>lk_links := h\<rparr>) = links_mono s s'"
  "links_mono s (s'\<lparr>lk_incoming := i\<rparr>) = links_mono s s'" "links_mono s (s'\<lparr>lk_dialers := j\<rparr>) = links_mono s s'"
  by (simp_all add: links_mono_def)


definition step_wf :: "links \<Rightarrow> links \<times> link_out list \<Rightarrow> bool" where
  "step_wf s r \<longleftrightarrow>
     links_wf (fst r) \<and> links_mono s (fst r)
     \<and> (\<forall>p u opts. StartDial p u opts \<in> set (snd r) \<longrightarrow> p |\<in>| fmdom (lk_heap s) \<and> \<not> l_cancelled (the_link s p))"

lemma step_wf_silent: "links_wf s' \<and> links_mono s s' \<Longrightarrow> step_wf s (s', [])"
  by (simp add: step_wf_def)

lemma step_wf_same: "links_wf s \<Longrightarrow> step_wf s (s, [])"
  by (simp add: step_wf_def)

lemma heap_set_simps [simp]:
  "lk_heap (set_link p l s) = fmupd p l (lk_heap s)" "lk_heap (set_thread p t s) = lk_heap s"
  "lk_heap (delete_if info p s) = lk_heap s" "lk_heap (finish_dial p t s) = lk_heap s"
  "lk_heap (backoffNow p t s) = lk_heap s"
  by (simp_all add: update_defs)

lemma wf_add: "links_wf s \<Longrightarrow> links_wf (snd (links_add lib u sintf lt s)) \<and> links_mono s (snd (links_add lib u sintf lt s))"
proof -
  assume wf: "links_wf s"
  have kick: "links_wf (kick p s) \<and> links_mono s (kick p s)" for p
    using wf wf_set_thread [OF wf thread_in_heap [OF wf]]
    by (auto simp: kick_def split: option.splits dial_pc.splits)
  have new: "links_wf ((set_thread (lk_next s) t (set_link (lk_next s) l s))\<lparr>lk_links := fmupd info (lk_next s) (lk_links s),
        lk_next := Suc (lk_next s)\<rparr>)
     \<and> links_mono s ((set_thread (lk_next s) t (set_link (lk_next s) l s))\<lparr>lk_links := fmupd info (lk_next s) (lk_links s),
        lk_next := Suc (lk_next s)\<rparr>)" for t l info
    using wf by (force simp: links_wf_def links_mono_def set_link_def set_thread_def the_link_def)
  show ?thesis
    unfolding links_add_def using wf kick new by (auto simp: Let_def split: sum.splits option.splits)
qed

lemma wf_remove:
  assumes "links_wf s" "links_remove u sintf s = Ok (err, s', outs)"
  shows "step_wf s (s', outs)"
proof (cases "fmlookup (lk_links s) (linkInfo_for u sintf)")
  case None
  then show ?thesis using assms step_wf_same by (auto simp: links_remove_def)
next
  case (Some p)
  have "p |\<in>| fmdom (lk_heap s)" using assms(1) Some unfolding links_wf_def by blast
  then have "links_wf (set_link p ((the_link s p)\<lparr>l_cancelled := True\<rparr>) s)
      \<and> links_mono s (set_link p ((the_link s p)\<lparr>l_cancelled := True\<rparr>) s)"
    using wf_set_link [OF assms(1)] by simp
  then show ?thesis
    using assms(2) Some
    by (auto simp: links_remove_def Let_def step_wf_def close_conn_def wf_conns mono_conns
          split: if_splits option.splits)
qed

lemma wf_dial_up:
  assumes "links_wf s" "p |\<in>| fmdom (lk_heap s)"
  shows "links_wf (dial_up p t c now s) \<and> links_mono s (dial_up p t c now s)"
proof -
  define s1 where "s1 = s\<lparr>lk_conns := fmupd c (new_conn now) (lk_conns s), lk_open := finsert c (lk_open s)\<rparr>"
  define s2 where "s2 = set_link p ((the_link s1 p)\<lparr>l_conn := Some c, l_err := None, l_errtime := now\<rparr>) s1"
  have 1: "links_wf s1" "p |\<in>| fmdom (lk_heap s1)" "links_mono s s1"
    using assms by (simp_all add: s1_def wf_conns mono_conns)
  have 2: "links_wf s2" "links_mono s s2" "p |\<in>| fmdom (lk_heap s2)"
    using wf_set_link [OF 1(1,2)] links_mono_trans [OF 1(3)] 1(2) by (simp_all add: s2_def)
  have "dial_up p t c now s = (if l_conn (the_link s p) \<noteq> None then finish_dial p t s2 else set_thread p (t\<lparr>dt_pc := Handling c\<rparr>) s2)"
    by (simp add: dial_up_def Let_def s1_def s2_def)
  then show ?thesis
    using wf_finish [OF 2(1,3), of t] wf_set_thread [OF 2(1,3), of "t\<lparr>dt_pc := Handling c\<rparr>"] links_mono_trans [OF 2(2)] by simp
qed

lemma wf_handler_done:
  assumes "links_wf s" "p |\<in>| fmdom (lk_heap s)"
  shows "step_wf s (handler_done p t c err now s)"
proof -
  define s1 where "s1 = fst (close_conn c s)"
  define s2 where "s2 = set_link p ((the_link s1 p)\<lparr>l_conn := None,
      l_err := Some (case err of None \<Rightarrow> ErrRemoteClosed | Some e \<Rightarrow> ErrHandler e), l_errtime := now\<rparr>) s1"
  define t' where "t' = (if err = Some ErrLinkToSelf then t\<lparr>dt_backoff := -1\<rparr> else t)"
  have 1: "links_wf s1" "p |\<in>| fmdom (lk_heap s1)" "links_mono s s1"
    using assms by (simp_all add: s1_def close_conn_def wf_conns mono_conns)
  have 2: "links_wf s2" "links_mono s s2" "p |\<in>| fmdom (lk_heap s2)"
    using wf_set_link [OF 1(1,2)] links_mono_trans [OF 1(3)] 1(2) by (simp_all add: s2_def)
  have "handler_done p t c err now s =
      (if dt_type t' = linkTypePersistent then backoffNow p t' s2 else finish_dial p t' s2, snd (close_conn c s))"
    by (simp add: handler_done_def Let_def s1_def s2_def t'_def close_conn_def)
  then show ?thesis
    using wf_finish [OF 2(1,3), of t'] wf_backoffNow [OF 2(1,3), of t'] links_mono_trans [OF 2(2)]
    by (auto simp: step_wf_def close_conn_def)
qed

lemma wf_incoming_state:
  assumes "links_wf s" "incoming_state u info s = (p, s')"
  shows "links_wf s' \<and> links_mono s s' \<and> p |\<in>| fmdom (lk_heap s')"
proof (cases "fmlookup (lk_links s) info")
  case None
  then show ?thesis using assms wf_alloc [OF assms(1)] by (auto simp: incoming_state_def)
next
  case (Some q)
  then show ?thesis using assms by (auto simp: incoming_state_def links_wf_def)
qed

lemma wf_incoming_up:
  assumes "links_wf s" "p |\<in>| fmdom (lk_heap s)"
  shows "links_wf (incoming_up info p c now s) \<and> links_mono s (incoming_up info p c now s)"
  using wf_set_link [OF assms, of "(the_link s p)\<lparr>l_conn := Some c, l_err := None, l_errtime := 0\<rparr>"] assms(2)
  by (simp add: incoming_up_def mono_conns) (auto simp: links_wf_def set_link_def)

lemma wf_incoming_accept:
  assumes "links_wf s"
  shows "links_wf (incoming_accept u sintf remote c now s) \<and> links_mono s (incoming_accept u sintf remote c now s)"
proof -
  define info where "info = linkInfo_for (u\<lparr>u_host := remote\<rparr>) sintf"
  define s1 where "s1 = s\<lparr>lk_open := finsert c (lk_open s)\<rparr>"
  obtain p s2 where ps: "incoming_state u info s1 = (p, s2)" by (rule prod.exhaust)
  have 1: "links_wf s1" "links_mono s s1" using assms by (simp_all add: s1_def wf_conns mono_conns)
  have 2: "links_wf s2" "links_mono s s2" "p |\<in>| fmdom (lk_heap s2)"
    using wf_incoming_state [OF 1(1) ps] links_mono_trans [OF 1(2)] by auto
  have "links_wf (s2\<lparr>lk_incoming := fmupd c (info, p) (lk_incoming s2)\<rparr>)" using 2(1,3) by (auto simp: links_wf_def)
  moreover have "incoming_accept u sintf remote c now s =
      (if l_conn (the_link s2 p) \<noteq> None then s2\<lparr>lk_incoming := fmupd c (info, p) (lk_incoming s2)\<rparr> else incoming_up info p c now s2)"
    using ps by (simp add: incoming_accept_def info_def s1_def)
  ultimately show ?thesis
    using 2(2) wf_incoming_up [OF 2(1,3), of info c now] links_mono_trans [OF 2(2)] by (auto simp: mono_conns)
qed

lemma wf_incoming_done: "links_wf s \<Longrightarrow> step_wf s (incoming_done c th s)"
proof -
  assume "links_wf s"
  then have "links_wf (fst (close_conn c s))" "links_mono s (fst (close_conn c s))"
    by (simp_all add: close_conn_def wf_conns mono_conns)
  then have "links_wf (delete_if (fst th) (snd th) (fst (close_conn c s)))"
    "links_mono s (delete_if (fst th) (snd th) (fst (close_conn c s)))"
    using wf_delete_if links_mono_trans by blast+
  then show ?thesis
    by (auto simp: step_wf_def incoming_done_def close_conn_def Let_def links_wf_def mono_conns split: if_splits)
qed

lemma wf_dial_loop: "links_wf s \<Longrightarrow> p |\<in>| fmdom (lk_heap s) \<Longrightarrow> step_wf s (dial_loop p t s)"
  using wf_finish [of s p t] wf_set_thread [of s p "t\<lparr>dt_pc := Dialling\<rparr>"]
  by (auto simp: dial_loop_def step_wf_def ctx_done_def)

lemma wf_dial_failed:
  assumes "links_wf s" "p |\<in>| fmdom (lk_heap s)"
  shows "links_wf (dial_failed p t err now s) \<and> links_mono s (dial_failed p t err now s)"
proof -
  define s1 where "s1 = set_link p ((the_link s p)\<lparr>l_conn := None, l_err := err, l_errtime := now\<rparr>) s"
  have "links_wf s1" "links_mono s s1" "p |\<in>| fmdom (lk_heap s1)"
    using wf_set_link [OF assms] by (simp_all add: s1_def)
  then show ?thesis
    using wf_backoffNow [of s1 p t] wf_finish [OF assms, of t] links_mono_trans
    by (auto simp: dial_failed_def s1_def)
qed

lemma wf_backoff_over:
  assumes "links_wf s" "p |\<in>| fmdom (lk_heap s)"
  shows "links_wf (backoff_over p t b s) \<and> links_mono s (backoff_over p t b s)"
  using wf_set_thread [OF assms, of "t\<lparr>dt_pc := LoopTop\<rparr>"] wf_finish [OF assms, of t] assms(1)
  by (simp add: backoff_over_def)

lemma wf_listen: "links_wf s \<Longrightarrow> links_wf (snd (links_listen u opened s)) \<and> links_mono s (snd (links_listen u opened s))"
  by (auto simp: links_listen_def Let_def wf_conns mono_conns split: sum.splits)


lemma links_step_wf:
  assumes "links_wf s" "links_step lib s e = Ok r"
  shows "step_wf s r"
proof (cases e)
  case (Add u sintf lt)
  then show ?thesis using assms step_wf_silent [OF wf_add [OF assms(1)]] by (auto simp: links_step_def)
next
  case (Remove u sintf)
  then obtain err s' outs where "links_remove u sintf s = Ok (err, s', outs)" "r = (s', outs)"
    using assms(2) by (auto simp: links_step_def go_bind_eq_Ok)
  then show ?thesis using wf_remove [OF assms(1)] by simp
next
  case (LoopStep p)
  then show ?thesis
    using assms step_wf_same wf_dial_loop [OF assms(1)] thread_in_heap [OF assms(1)]
    by (auto simp: links_step_def split: option.splits if_splits)
next
  case (DialFailed p err now)
  then show ?thesis
    using assms step_wf_same step_wf_silent [OF wf_dial_failed [OF assms(1)]] thread_in_heap [OF assms(1)]
    by (auto simp: links_step_def split: option.splits if_splits)
next
  case (DialUp p c now)
  then show ?thesis
    using assms step_wf_same step_wf_silent [OF wf_dial_up [OF assms(1)]] thread_in_heap [OF assms(1)]
    by (auto simp: links_step_def split: option.splits if_splits)
next
  case (HandshakeUp p)
  then show ?thesis
    using assms step_wf_same step_wf_silent [OF wf_set_thread [OF assms(1)]] thread_in_heap [OF assms(1)]
    by (auto simp: links_step_def resetBackoff_def split: option.splits dial_pc.splits)
next
  case (HandlerDone p err now)
  then show ?thesis
    using assms step_wf_same wf_handler_done [OF assms(1)] thread_in_heap [OF assms(1)]
    by (auto simp: links_step_def split: option.splits dial_pc.splits)
next
  case (BackoffOver p b)
  then show ?thesis
    using assms step_wf_same step_wf_silent [OF wf_backoff_over [OF assms(1)]] thread_in_heap [OF assms(1)]
    by (auto simp: links_step_def split: option.splits dial_pc.splits if_splits)
next
  case (Listen u opened)
  then show ?thesis using assms step_wf_silent [OF wf_listen [OF assms(1)]] by (auto simp: links_step_def)
next
  case (Accept u sintf remote c now)
  then show ?thesis
    using assms step_wf_same step_wf_silent [OF wf_incoming_accept [OF assms(1)]] by (auto simp: links_step_def split: if_splits)
next
  case (IncomingDone c)
  then show ?thesis
    using assms step_wf_same wf_incoming_done [OF assms(1)] by (auto simp: links_step_def split: option.splits)
qed (use assms in \<open>auto simp: links_step_def listener_stopped_def cancel_listener_def updateAverages_def
       links_shutdown_def step_wf_def wf_conns mono_conns split: option.splits\<close>)

lemma links_run_wf:
  assumes "links_wf s" "run_events (links_step lib) s es = Ok (s', outs)"
  shows "links_wf s' \<and> links_mono s s' \<and>
    (\<forall>p u opts. StartDial p u opts \<in> set outs \<longrightarrow> p |\<notin>| fmdom (lk_heap s) \<or> \<not> l_cancelled (the_link s p))"
  using assms
proof (induction es arbitrary: s outs)
  case (Cons e es)
  obtain s1 o1 where 1: "links_step lib s e = Ok (s1, o1)" using Cons.prems(2) by (cases "links_step lib s e") auto
  obtain s2 o2 where 2: "run_events (links_step lib) s1 es = Ok (s2, o2)"
    using Cons.prems(2) 1 by (cases "run_events (links_step lib) s1 es") auto
  have eq: "s2 = s'" "outs = o1 @ o2" using Cons.prems(2) 1 2 by auto
  have w: "links_wf s1" "links_mono s s1"
    "\<And>p u opts. StartDial p u opts \<in> set o1 \<Longrightarrow> p |\<in>| fmdom (lk_heap s) \<and> \<not> l_cancelled (the_link s p)"
    using links_step_wf [OF Cons.prems(1) 1] unfolding step_wf_def by auto
  have ih: "links_wf s'" "links_mono s1 s'"
    "\<And>p u opts. StartDial p u opts \<in> set o2 \<Longrightarrow> p |\<notin>| fmdom (lk_heap s1) \<or> \<not> l_cancelled (the_link s1 p)"
    using Cons.IH [OF w(1) 2 [unfolded eq(1)]] by auto
  have "p |\<notin>| fmdom (lk_heap s) \<or> \<not> l_cancelled (the_link s p)" if "StartDial p u opts \<in> set outs" for p u opts
    using that ih(3) w(2,3) unfolding eq(2) links_mono_def by auto
  then show ?case using ih(1,2) w(2) links_mono_trans by blast
qed simp

text \<open>
  C29. A removed peer is disconnected and never dialled again. In every state the node can reach, when
  removing the URI of a configured peer succeeds or reports an already closed connection, the call
  itself closes the open connection of the peering (the comment of \<^verbatim>\<open>RemovePeer\<close> says that the peer is not
  disconnected immediately; the code does disconnect it), and whatever happens afterwards (timers,
  kicks, dials that were under way, other peers, even the same URI being added again as a new link) no
  further dial is ever started for that link.
\<close>

theorem removed_peer_not_redialled:
  assumes "run_events (links_step lib) links_init es = Ok (s, outs)"
    "fmlookup (lk_links s) (linkInfo_for u sintf) = Some p"
    "links_remove u sintf s = Ok (err, s', closed)"
    "run_events (links_step lib) s' es' = Ok (s'', outs')"
  shows "StartDial p v opts \<notin> set outs'
    \<and> (\<forall>c. l_conn (the_link s p) = Some c \<longrightarrow> c |\<notin>| lk_open s' \<and> (c |\<in>| lk_open s \<longrightarrow> CloseConn c \<in> set closed))"
proof -
  have wf: "links_wf s" using links_run_wf [OF links_wf_init assms(1)] by simp
  then have p: "p |\<in>| fmdom (lk_heap s)" using assms(2) unfolding links_wf_def by blast
  have wf': "links_wf s'" "links_mono s s'" using wf_remove [OF wf assms(3)] by (auto simp: step_wf_def)
  have "l_cancelled (the_link s' p)"
    using assms(2,3) by (auto simp: links_remove_def Let_def close_conn_def set_link_def split: if_splits option.splits)
  moreover have "p |\<in>| fmdom (lk_heap s')" using wf'(2) p unfolding links_mono_def by blast
  ultimately have "StartDial p v opts \<notin> set outs'" using links_run_wf [OF wf'(1) assms(4)] by blast
  moreover have "c |\<notin>| lk_open s' \<and> (c |\<in>| lk_open s \<longrightarrow> CloseConn c \<in> set closed)" if "l_conn (the_link s p) = Some c" for c
    using assms(2,3) that by (auto simp: links_remove_def Let_def close_conn_def set_link_def split: if_splits option.splits)
  ultimately show ?thesis by blast
qed


section \<open>Consistency of links and connections\<close>

definition thread_ok :: "dial_thread \<Rightarrow> bool" where
  "thread_ok t \<longleftrightarrow>
     -1 \<le> dt_backoff t \<and> dt_backoff t \<le> 32 \<and> minimumBackoffLimit \<le> maxBackoff (dt_options t)
     \<and> (\<forall>d. dt_pc t = BackingOff d \<longrightarrow> d = backoff_duration (maxBackoff (dt_options t)) (dt_backoff t))"

fun pc_conn :: "dial_pc \<Rightarrow> nat option" where
  "pc_conn (Handling c) = Some c"
| "pc_conn _ = None"

text \<open>
  A peering that was added has its goroutine, which knows its connection and is in the table until it
  finishes; an accepted link in the table, or in the hands of a goroutine, has a connection; connections
  are not shared, and every open connection has a handler.
\<close>

definition links_inv :: "links \<Rightarrow> bool" where
  "links_inv s \<longleftrightarrow> links_wf s
     \<and> (\<forall>p t. fmlookup (lk_dialers s) p = Some t \<longrightarrow>
          l_cancel (the_link s p) \<and> thread_ok t \<and> l_conn (the_link s p) = pc_conn (dt_pc t))
     \<and> (\<forall>p. p |\<in>| fmdom (lk_heap s) \<longrightarrow> l_cancel (the_link s p) \<longrightarrow> p |\<in>| fmdom (lk_dialers s))
     \<and> (\<forall>p t. fmlookup (lk_dialers s) p = Some t \<longrightarrow> dt_pc t \<noteq> Finished \<longrightarrow> fmlookup (lk_links s) (dt_info t) = Some p)
     \<and> (\<forall>info p t. fmlookup (lk_links s) info = Some p \<longrightarrow> fmlookup (lk_dialers s) p = Some t \<longrightarrow>
          dt_info t = info \<and> dt_pc t \<noteq> Finished)
     \<and> (\<forall>info p. fmlookup (lk_links s) info = Some p \<longrightarrow> \<not> l_cancel (the_link s p) \<longrightarrow> l_conn (the_link s p) \<noteq> None)
     \<and> (\<forall>c info p. fmlookup (lk_incoming s) c = Some (info, p) \<longrightarrow>
          \<not> l_cancel (the_link s p) \<and> l_conn (the_link s p) \<noteq> None)
     \<and> (\<forall>p c. p |\<in>| fmdom (lk_heap s) \<longrightarrow> l_conn (the_link s p) = Some c \<longrightarrow> c |\<in>| fmdom (lk_conns s))
     \<and> (\<forall>p q c. p |\<in>| fmdom (lk_heap s) \<longrightarrow> q |\<in>| fmdom (lk_heap s) \<longrightarrow>
          l_conn (the_link s p) = Some c \<longrightarrow> l_conn (the_link s q) = Some c \<longrightarrow> p = q)
     \<and> (\<forall>c. c |\<in>| lk_open s \<longrightarrow>
          c |\<in>| fmdom (lk_incoming s) \<or> (\<exists>p t. fmlookup (lk_dialers s) p = Some t \<and> dt_pc t = Handling c))"

lemma links_invD:
  assumes "links_inv s"
  shows "links_wf s"
    "fmlookup (lk_dialers s) p = Some t \<Longrightarrow> l_cancel (the_link s p) \<and> thread_ok t \<and> l_conn (the_link s p) = pc_conn (dt_pc t)"
    "p |\<in>| fmdom (lk_heap s) \<Longrightarrow> l_cancel (the_link s p) \<Longrightarrow> p |\<in>| fmdom (lk_dialers s)"
    "fmlookup (lk_dialers s) p = Some t \<Longrightarrow> dt_pc t \<noteq> Finished \<Longrightarrow> fmlookup (lk_links s) (dt_info t) = Some p"
    "fmlookup (lk_links s) info = Some p \<Longrightarrow> fmlookup (lk_dialers s) p = Some t \<Longrightarrow> dt_info t = info \<and> dt_pc t \<noteq> Finished"
    "fmlookup (lk_links s) info = Some p \<Longrightarrow> \<not> l_cancel (the_link s p) \<Longrightarrow> l_conn (the_link s p) \<noteq> None"
    "fmlookup (lk_incoming s) c = Some (info, p) \<Longrightarrow> \<not> l_cancel (the_link s p) \<and> l_conn (the_link s p) \<noteq> None"
    "p |\<in>| fmdom (lk_heap s) \<Longrightarrow> l_conn (the_link s p) = Some c \<Longrightarrow> c |\<in>| fmdom (lk_conns s)"
    "p |\<in>| fmdom (lk_heap s) \<Longrightarrow> q |\<in>| fmdom (lk_heap s) \<Longrightarrow> l_conn (the_link s p) = Some c \<Longrightarrow>
       l_conn (the_link s q) = Some c \<Longrightarrow> p = q"
    "c |\<in>| lk_open s \<Longrightarrow> c |\<in>| fmdom (lk_incoming s) \<or> (\<exists>p t. fmlookup (lk_dialers s) p = Some t \<and> dt_pc t = Handling c)"
  using assms unfolding links_inv_def by blast+

lemma links_inv_init: "links_inv links_init"
  using links_wf_init by (simp add: links_inv_def) (simp add: links_init_def)

text \<open>
  The steps of a dialling goroutine: it moves from point \<open>dt_pc t\<close> to \<open>dt_pc t'\<close>, leaving the table when it
  finishes; a connection it takes is new, a connection it leaves is closed.
\<close>

lemma inv_thread_step:
  assumes inv: "links_inv s" and t: "fmlookup (lk_dialers s) p = Some t" "dt_pc t \<noteq> Finished"
    and t': "dt_info t' = dt_info t" "thread_ok t'"
    and l': "l_cancel l'" "l_cancelled (the_link s p) \<Longrightarrow> l_cancelled l'" "l_conn l' = pc_conn (dt_pc t')"
    and new: "\<And>c. pc_conn (dt_pc t') = Some c \<Longrightarrow> pc_conn (dt_pc t) = Some c \<or> c |\<notin>| fmdom (lk_conns s)"
    and K: "fmdom K = fmdom (lk_conns s) |\<union>| (case pc_conn (dt_pc t') of None \<Rightarrow> {||} | Some c \<Rightarrow> {|c|})"
    and op: "\<And>c. c |\<in>| opn \<Longrightarrow> c |\<in>| lk_open s \<and> pc_conn (dt_pc t) \<noteq> Some c \<or> pc_conn (dt_pc t') = Some c"
    and s': "s' = s\<lparr>lk_heap := fmupd p l' (lk_heap s), lk_dialers := fmupd p t' (lk_dialers s),
      lk_links := (if dt_pc t' = Finished then fmdrop (dt_info t) (lk_links s) else lk_links s),
      lk_conns := K, lk_open := opn\<rparr>"
  shows "links_inv s'"
proof -
  note D = links_invD [OF inv]
  have wf: "links_wf s" and p: "p |\<in>| fmdom (lk_heap s)" using D(1) thread_in_heap [OF D(1) t(1)] by auto
  have link: "the_link s' q = (if q = p then l' else the_link s q)" for q by (auto simp: s' the_link_def)
  have heap: "fmdom (lk_heap s') = finsert p (fmdom (lk_heap s))" by (simp add: s')
  have th: "fmlookup (lk_dialers s') q = (if q = p then Some t' else fmlookup (lk_dialers s) q)" for q by (simp add: s')
  have sub: "fmlookup (lk_links s') info = Some q \<Longrightarrow> fmlookup (lk_links s) info = Some q" for info q
    by (auto simp: s' split: if_splits)
  have at: "fmlookup (lk_links s) (dt_info t) = Some p" using D(4) t by blast
  have kept: "fmlookup (lk_links s') info = Some q" if "fmlookup (lk_links s) info = Some q" "q \<noteq> p" for info q
    using that at by (auto simp: s')
  have kept_p: "fmlookup (lk_links s') (dt_info t) = Some p" if "dt_pc t' \<noteq> Finished" using at that by (simp add: s')
  have inc: "lk_incoming s' = lk_incoming s" by (simp add: s')
  have other: "l_conn (the_link s q) \<noteq> Some c" if "pc_conn (dt_pc t') = Some c" "q \<noteq> p" "q |\<in>| fmdom (lk_heap s)" for q c
  proof
    assume "l_conn (the_link s q) = Some c"
    then have "c |\<in>| fmdom (lk_conns s)" using D(8) that(3) by blast
    then have "l_conn (the_link s p) = Some c" using new [OF that(1)] D(2) [OF t(1)] by auto
    then show False using D(9) [OF p that(3)] \<open>l_conn (the_link s q) = Some c\<close> that(2) by blast
  qed
  have "links_wf s'" using wf p unfolding links_wf_def s' by auto
  moreover have "l_cancel (the_link s' q) \<and> thread_ok u \<and> l_conn (the_link s' q) = pc_conn (dt_pc u)"
    if "fmlookup (lk_dialers s') q = Some u" for q u
    using that D(2) l' t'(2) by (auto simp: th link split: if_splits)
  moreover have "q |\<in>| fmdom (lk_dialers s')" if "q |\<in>| fmdom (lk_heap s')" "l_cancel (the_link s' q)" for q
    using that D(3) [of q] by (auto simp: s' link heap the_link_def split: if_splits)
  moreover have "fmlookup (lk_links s') (dt_info u) = Some q" if "fmlookup (lk_dialers s') q = Some u" "dt_pc u \<noteq> Finished" for q u
    using that kept_p kept D(4) t'(1) by (auto simp: th split: if_splits)
  moreover have "dt_info u = info \<and> dt_pc u \<noteq> Finished"
    if "fmlookup (lk_links s') info = Some q" "fmlookup (lk_dialers s') q = Some u" for info q u
  proof (cases "q = p")
    case True
    then have "u = t'" using that(2) th by simp
    moreover have "dt_info t = info" using D(5) [OF sub [OF that(1)]] t(1) True by blast
    moreover have "dt_pc t' \<noteq> Finished"
    proof
      assume "dt_pc t' = Finished"
      then show False using that(1) \<open>dt_info t = info\<close> by (simp add: s')
    qed
    ultimately show ?thesis using t'(1) by simp
  next
    case False
    then show ?thesis using D(5) [OF sub [OF that(1)]] that(2) th by simp
  qed
  moreover have "l_conn (the_link s' q) \<noteq> None"
    if "fmlookup (lk_links s') info = Some q" "\<not> l_cancel (the_link s' q)" for info q
    using that D(6) [OF sub [OF that(1)]] l'(1) by (auto simp: link split: if_splits)
  moreover have "\<not> l_cancel (the_link s' q) \<and> l_conn (the_link s' q) \<noteq> None"
    if "fmlookup (lk_incoming s') c = Some (info, q)" for c info q
    using that D(7) [of c info q] D(2) [OF t(1)] by (auto simp: inc link)
  moreover have "c |\<in>| fmdom (lk_conns s')" if "q |\<in>| fmdom (lk_heap s')" "l_conn (the_link s' q) = Some c" for q c
    using that D(8) [of q c] K l'(3) by (auto simp: s' link heap the_link_def split: if_splits)
  moreover have "q = r"
    if "q |\<in>| fmdom (lk_heap s')" "r |\<in>| fmdom (lk_heap s')" "l_conn (the_link s' q) = Some c" "l_conn (the_link s' r) = Some c" for q r c
    using that D(9) [of q r c] other [of c q] other [of c r] l'(3) unfolding link heap by (auto split: if_splits)
  moreover have "c |\<in>| fmdom (lk_incoming s') \<or> (\<exists>q u. fmlookup (lk_dialers s') q = Some u \<and> dt_pc u = Handling c)"
    if c: "c |\<in>| lk_open s'" for c
  proof -
    have "c |\<in>| opn" using c by (simp add: s')
    from op [OF this] show ?thesis
    proof
      assume "c |\<in>| lk_open s \<and> pc_conn (dt_pc t) \<noteq> Some c"
      then show ?thesis using D(10) [of c] t(1) unfolding inc th by (metis option.inject pc_conn.simps(1))
    next
      assume "pc_conn (dt_pc t') = Some c"
      then have "dt_pc t' = Handling c" by (cases "dt_pc t'") auto
      then show ?thesis using th by metis
    qed
  qed
  ultimately show ?thesis unfolding links_inv_def by blast
qed


text \<open>Instances: the goroutine moves between points without a connection, or finishes.\<close>

lemma inv_idle_move:
  assumes "links_inv s" "fmlookup (lk_dialers s) p = Some t" "dt_pc t \<noteq> Finished" "pc_conn (dt_pc t) = None"
    "dt_info t' = dt_info t" "thread_ok t'" "pc_conn (dt_pc t') = None" "dt_pc t' \<noteq> Finished"
  shows "links_inv (set_thread p t' s)"
proof (rule inv_thread_step [OF assms(1-3,5,6), where l' = "the_link s p" and K = "lk_conns s" and opn = "lk_open s"])
  have p: "p |\<in>| fmdom (lk_heap s)" using thread_in_heap [OF links_invD(1) [OF assms(1)] assms(2)] .
  have "fmupd p (the_link s p) (lk_heap s) = lk_heap s"
    using p by (intro fmap_ext) (auto simp: the_link_def fmlookup_dom_iff)
  then show "set_thread p t' s = s\<lparr>lk_heap := fmupd p (the_link s p) (lk_heap s), lk_dialers := fmupd p t' (lk_dialers s),
      lk_links := if dt_pc t' = Finished then fmdrop (dt_info t) (lk_links s) else lk_links s,
      lk_conns := lk_conns s, lk_open := lk_open s\<rparr>"
    using assms(8) by (simp add: set_thread_def)
qed (use links_invD(2) [OF assms(1,2)] assms(4,7) in auto)

lemma inv_set_link_thread:
  assumes "links_inv s" "fmlookup (lk_dialers s) p = Some t" "dt_pc t \<noteq> Finished" "pc_conn (dt_pc t) = None"
    "l_cancel l" "l_cancelled (the_link s p) \<Longrightarrow> l_cancelled l" "l_conn l = None"
  shows "links_inv (set_link p l s)"
proof (rule inv_thread_step [OF assms(1-3), where t' = t and l' = l and K = "lk_conns s" and opn = "lk_open s"])
  have "fmupd p t (lk_dialers s) = lk_dialers s" using assms(2) by (intro fmap_ext) auto
  then show "set_link p l s = s\<lparr>lk_heap := fmupd p l (lk_heap s), lk_dialers := fmupd p t (lk_dialers s),
      lk_links := if dt_pc t = Finished then fmdrop (dt_info t) (lk_links s) else lk_links s,
      lk_conns := lk_conns s, lk_open := lk_open s\<rparr>"
    using assms(3) by (simp add: set_link_def)
qed (use links_invD(2) [OF assms(1,2)] assms in auto)

lemma thread_ok_pc: "thread_ok t \<Longrightarrow> (\<And>d. pc \<noteq> BackingOff d) \<Longrightarrow> thread_ok (t\<lparr>dt_pc := pc\<rparr>)"
  by (simp add: thread_ok_def)

lemma thread_ok_backoff:
  "thread_ok t \<Longrightarrow> thread_ok (t\<lparr>dt_backoff := backoff_next (dt_backoff t),
     dt_pc := BackingOff (backoff_duration (maxBackoff (dt_options t)) (backoff_next (dt_backoff t)))\<rparr>)"
  by (auto simp: thread_ok_def backoff_next_def)

lemma inv_finish_idle:
  assumes "links_inv s" "fmlookup (lk_dialers s) p = Some t" "dt_pc t \<noteq> Finished" "pc_conn (dt_pc t) = None"
  shows "links_inv (finish_dial p t s)"
proof (rule inv_thread_step [OF assms(1-3), where t' = "t\<lparr>dt_pc := Finished\<rparr>" and l' = "the_link s p"
      and K = "lk_conns s" and opn = "lk_open s"])
  have p: "p |\<in>| fmdom (lk_heap s)" using thread_in_heap [OF links_invD(1) [OF assms(1)] assms(2)] .
  have "fmupd p (the_link s p) (lk_heap s) = lk_heap s"
    using p by (intro fmap_ext) (auto simp: the_link_def fmlookup_dom_iff)
  moreover have "fmlookup (lk_links s) (dt_info t) = Some p" using links_invD(4) [OF assms(1-3)] .
  ultimately show "finish_dial p t s = s\<lparr>lk_heap := fmupd p (the_link s p) (lk_heap s),
      lk_dialers := fmupd p (t\<lparr>dt_pc := Finished\<rparr>) (lk_dialers s),
      lk_links := if dt_pc (t\<lparr>dt_pc := Finished\<rparr>) = Finished then fmdrop (dt_info t) (lk_links s) else lk_links s,
      lk_conns := lk_conns s, lk_open := lk_open s\<rparr>"
    by (simp add: finish_dial_def delete_if_def set_thread_def)
qed (use links_invD(2) [OF assms(1,2)] assms(4) thread_ok_pc in auto)

lemma inv_dial_loop:
  assumes "links_inv s" "fmlookup (lk_dialers s) p = Some t" "dt_pc t = LoopTop"
  shows "links_inv (fst (dial_loop p t s))"
  using inv_finish_idle [OF assms(1,2)] inv_idle_move [OF assms(1,2), of "t\<lparr>dt_pc := Dialling\<rparr>"]
    links_invD(2) [OF assms(1,2)] assms(3)
  by (simp add: dial_loop_def thread_ok_pc)

lemma inv_backoffNow:
  assumes "links_inv s" "fmlookup (lk_dialers s) p = Some t" "dt_pc t \<noteq> Finished" "pc_conn (dt_pc t) = None"
  shows "links_inv (backoffNow p t s)"
  unfolding backoffNow_def Let_def
  by (rule inv_idle_move [OF assms]) (use links_invD(2) [OF assms(1,2)] thread_ok_backoff in auto)

lemma inv_dial_failed:
  assumes "links_inv s" "fmlookup (lk_dialers s) p = Some t" "dt_pc t = Dialling"
  shows "links_inv (dial_failed p t err now s)"
proof -
  define l where "l = (the_link s p)\<lparr>l_conn := None, l_err := err, l_errtime := now\<rparr>"
  have "links_inv (set_link p l s)"
    by (rule inv_set_link_thread [OF assms(1,2)]) (use assms(3) links_invD(2) [OF assms(1,2)] in \<open>auto simp: l_def\<close>)
  moreover have "fmlookup (lk_dialers (set_link p l s)) p = Some t" using assms(2) by (simp add: set_link_def)
  ultimately have "links_inv (backoffNow p t (set_link p l s))" using inv_backoffNow assms(3) by simp
  then show ?thesis using inv_finish_idle [OF assms(1,2)] assms(3) by (simp add: dial_failed_def l_def)
qed

lemma inv_dial_up:
  assumes "links_inv s" "fmlookup (lk_dialers s) p = Some t" "dt_pc t = Dialling" "c |\<notin>| fmdom (lk_conns s)"
  shows "links_inv (dial_up p t c now s)"
proof -
  have D: "l_cancel (the_link s p)" "thread_ok t" "l_conn (the_link s p) = None"
    using links_invD(2) [OF assms(1,2)] assms(3) by auto
  have eq: "dial_up p t c now s = s\<lparr>lk_heap := fmupd p ((the_link s p)\<lparr>l_conn := Some c, l_err := None, l_errtime := now\<rparr>) (lk_heap s),
      lk_dialers := fmupd p (t\<lparr>dt_pc := Handling c\<rparr>) (lk_dialers s),
      lk_links := (if dt_pc (t\<lparr>dt_pc := Handling c\<rparr>) = Finished then fmdrop (dt_info t) (lk_links s) else lk_links s),
      lk_conns := fmupd c (new_conn now) (lk_conns s), lk_open := finsert c (lk_open s)\<rparr>"
    using D(3) by (simp add: dial_up_def Let_def set_link_def set_thread_def)
  show ?thesis
    by (rule inv_thread_step [OF assms(1,2) _ _ _ _ _ _ _ _ _ eq]) (use D assms thread_ok_pc in auto)
qed

lemma inv_handler_done:
  assumes "links_inv s" "fmlookup (lk_dialers s) p = Some t" "dt_pc t = Handling c"
  shows "links_inv (fst (handler_done p t c err now s))"
proof -
  have D: "l_cancel (the_link s p)" "thread_ok t" using links_invD(2) [OF assms(1,2)] by auto
  have at: "fmlookup (lk_links s) (dt_info t) = Some p" using links_invD(4) [OF assms(1,2)] assms(3) by simp
  define t1 where "t1 = (if err = Some ErrLinkToSelf then t\<lparr>dt_backoff := -1\<rparr> else t)"
  have t1: "thread_ok t1" "dt_info t1 = dt_info t" using D(2) assms(3) by (auto simp: t1_def thread_ok_def)
  define t2 where "t2 = (if dt_type t1 = linkTypePersistent
      then t1\<lparr>dt_backoff := backoff_next (dt_backoff t1),
        dt_pc := BackingOff (backoff_duration (maxBackoff (dt_options t1)) (backoff_next (dt_backoff t1)))\<rparr>
      else t1\<lparr>dt_pc := Finished\<rparr>)"
  have t2: "thread_ok t2" "dt_info t2 = dt_info t" "pc_conn (dt_pc t2) = None"
    using t1 thread_ok_backoff [OF t1(1)] thread_ok_pc [OF t1(1)] by (auto simp: t2_def)
  have eq: "fst (handler_done p t c err now s) = s\<lparr>lk_heap := fmupd p ((the_link s p)\<lparr>l_conn := None,
        l_err := Some (case err of None \<Rightarrow> ErrRemoteClosed | Some e \<Rightarrow> ErrHandler e), l_errtime := now\<rparr>) (lk_heap s),
      lk_dialers := fmupd p t2 (lk_dialers s),
      lk_links := (if dt_pc t2 = Finished then fmdrop (dt_info t) (lk_links s) else lk_links s),
      lk_conns := lk_conns s, lk_open := lk_open s |-| {|c|}\<rparr>"
    using at t1(2)
    by (simp add: handler_done_def close_conn_def t1_def [symmetric] t2_def Let_def backoffNow_def
          finish_dial_def delete_if_def set_link_def set_thread_def)
  show ?thesis
    by (rule inv_thread_step [OF assms(1,2) _ _ _ _ _ _ _ _ _ eq]) (use D t2 assms(3) in auto)
qed

lemma inv_backoff_over:
  assumes "links_inv s" "fmlookup (lk_dialers s) p = Some t" "dt_pc t = BackingOff d"
  shows "links_inv (backoff_over p t b s)"
  using inv_finish_idle [OF assms(1,2)] inv_idle_move [OF assms(1,2), of "t\<lparr>dt_pc := LoopTop\<rparr>"]
    links_invD(2) [OF assms(1,2)] assms(1,3)
  by (simp add: backoff_over_def thread_ok_pc)

lemma inv_kick: "links_inv s \<Longrightarrow> links_inv (kick p s)"
  using inv_idle_move [of s p _ "_\<lparr>dt_pc := LoopTop\<rparr>"] links_invD(2) [of s p]
  by (auto simp: kick_def thread_ok_pc split: option.splits dial_pc.splits)

lemma inv_resetBackoff:
  assumes "links_inv s" "fmlookup (lk_dialers s) p = Some t" "dt_pc t = Handling c"
  shows "links_inv (resetBackoff p t s)"
proof (rule inv_thread_step [OF assms(1,2), where t' = "t\<lparr>dt_backoff := 0\<rparr>" and l' = "the_link s p"
      and K = "lk_conns s" and opn = "lk_open s"])
  have p: "p |\<in>| fmdom (lk_heap s)" using thread_in_heap [OF links_invD(1) [OF assms(1)] assms(2)] .
  then have "fmupd p (the_link s p) (lk_heap s) = lk_heap s"
    by (intro fmap_ext) (auto simp: the_link_def fmlookup_dom_iff)
  then show "resetBackoff p t s = s\<lparr>lk_heap := fmupd p (the_link s p) (lk_heap s), lk_dialers := fmupd p (t\<lparr>dt_backoff := 0\<rparr>) (lk_dialers s),
      lk_links := if dt_pc (t\<lparr>dt_backoff := 0\<rparr>) = Finished then fmdrop (dt_info t) (lk_links s) else lk_links s,
      lk_conns := lk_conns s, lk_open := lk_open s\<rparr>"
    using assms(3) by (simp add: resetBackoff_def set_thread_def)
  have "c |\<in>| fmdom (lk_conns s)" using links_invD(8) [OF assms(1) p] links_invD(2) [OF assms(1,2)] assms(3) by auto
  then show "fmdom (lk_conns s) = fmdom (lk_conns s) |\<union>| (case pc_conn (dt_pc (t\<lparr>dt_backoff := 0\<rparr>)) of None \<Rightarrow> {||} | Some c \<Rightarrow> {|c|})"
    using assms(3) by auto
qed (use links_invD(2) [OF assms(1,2)] assms(3) in \<open>auto simp: thread_ok_def\<close>)


lemma inv_remove:
  assumes inv: "links_inv s" and rem: "links_remove u sintf s = Ok (err, s', outs)"
  shows "links_inv s'"
proof (cases "fmlookup (lk_links s) (linkInfo_for u sintf)")
  case None
  then show ?thesis using assms by (auto simp: links_remove_def)
next
  case (Some p)
  have p: "p |\<in>| fmdom (lk_heap s)" using links_invD(1) [OF inv] Some unfolding links_wf_def by blast
  have cancel: "l_cancel (the_link s p)" using rem Some by (auto simp: links_remove_def split: if_splits)
  obtain t where t: "fmlookup (lk_dialers s) p = Some t" using links_invD(3) [OF inv p cancel] by auto
  have pc: "dt_pc t \<noteq> Finished" using links_invD(5) [OF inv Some t] by simp
  have conn: "l_conn (the_link s p) = pc_conn (dt_pc t)" "thread_ok t" using links_invD(2) [OF inv t] by auto
  define l where "l = (the_link s p)\<lparr>l_cancelled := True\<rparr>"
  define opn where "opn = (case pc_conn (dt_pc t) of None \<Rightarrow> lk_open s | Some c \<Rightarrow> lk_open s |-| {|c|})"
  have dial: "fmupd p t (lk_dialers s) = lk_dialers s" using t by (intro fmap_ext) auto
  have eq: "s' = s\<lparr>lk_heap := fmupd p l (lk_heap s), lk_dialers := fmupd p t (lk_dialers s),
      lk_links := (if dt_pc t = Finished then fmdrop (dt_info t) (lk_links s) else lk_links s),
      lk_conns := lk_conns s, lk_open := opn\<rparr>"
    using rem Some cancel pc conn(1) unfolding dial opn_def l_def
    by (auto simp: links_remove_def Let_def close_conn_def set_link_def split: option.splits)
  have "c |\<in>| fmdom (lk_conns s)" if "pc_conn (dt_pc t) = Some c" for c
    using links_invD(8) [OF inv p] conn(1) that by simp
  then show ?thesis
    by (intro inv_thread_step [OF inv t pc _ _ _ _ _ _ _ _ eq])
       (use cancel conn in \<open>auto simp: l_def opn_def split: option.splits\<close>)
qed

lemma inv_add_new:
  assumes inv: "links_inv s" and new: "fmlookup (lk_links s) info = None"
    and t: "thread_ok t" "dt_info t = info" "dt_pc t = LoopTop"
    and l: "l_cancel l" "l_conn l = None"
    and s': "s' = (set_thread (lk_next s) t (set_link (lk_next s) l s))\<lparr>lk_links := fmupd info (lk_next s) (lk_links s),
      lk_next := Suc (lk_next s)\<rparr>"
  shows "links_inv s'"
proof -
  note D = links_invD [OF inv]
  define p where "p = lk_next s"
  have heap: "q |\<in>| fmdom (lk_heap s) \<Longrightarrow> q < p" for q using D(1) unfolding links_wf_def p_def by blast
  then have fresh: "p |\<notin>| fmdom (lk_heap s)" by blast
  have map: "fmlookup (lk_links s) i = Some q \<Longrightarrow> q |\<in>| fmdom (lk_heap s)" for i q using D(1) unfolding links_wf_def by blast
  have dl: "fmlookup (lk_dialers s) q = Some u \<Longrightarrow> q |\<in>| fmdom (lk_heap s)" for q u using thread_in_heap [OF D(1)] .
  have inc: "fmlookup (lk_incoming s) c = Some (i, q) \<Longrightarrow> q |\<in>| fmdom (lk_heap s)" for c i q
    using D(1) unfolding links_wf_def by blast
  have link: "the_link s' q = (if q = p then l else the_link s q)" for q
    by (auto simp: s' p_def set_thread_def set_link_def the_link_def)
  have th: "fmlookup (lk_dialers s') q = (if q = p then Some t else fmlookup (lk_dialers s) q)" for q
    by (simp add: s' p_def set_thread_def set_link_def)
  have lk: "fmlookup (lk_links s') i = (if i = info then Some p else fmlookup (lk_links s) i)" for i
    by (simp add: s' p_def)
  have same: "fmdom (lk_heap s') = finsert p (fmdom (lk_heap s))" "lk_incoming s' = lk_incoming s"
    "lk_conns s' = lk_conns s" "lk_open s' = lk_open s" "lk_next s' = Suc p"
    by (simp_all add: s' p_def set_thread_def set_link_def)
  have no_th: "fmlookup (lk_dialers s) p = None" using dl fresh by (cases "fmlookup (lk_dialers s) p") auto
  have "links_wf s'"
    unfolding links_wf_def same lk using heap map inc dl
    by (auto simp: less_Suc_eq th fmlookup_dom_iff split: if_splits)
  moreover have "l_cancel (the_link s' q) \<and> thread_ok u \<and> l_conn (the_link s' q) = pc_conn (dt_pc u)"
    if "fmlookup (lk_dialers s') q = Some u" for q u
    using that D(2) t l by (auto simp: th link split: if_splits)
  moreover have "q |\<in>| fmdom (lk_dialers s')" if "q |\<in>| fmdom (lk_heap s')" "l_cancel (the_link s' q)" for q
    using that D(3) [of q] th [of q] by (auto simp: same link fmlookup_dom_iff split: if_splits)
  moreover have "fmlookup (lk_links s') (dt_info u) = Some q" if "fmlookup (lk_dialers s') q = Some u" "dt_pc u \<noteq> Finished" for q u
    using that D(4) [of q u] new t(2) by (auto simp: th lk split: if_splits)
  moreover have "dt_info u = i \<and> dt_pc u \<noteq> Finished"
    if "fmlookup (lk_links s') i = Some q" "fmlookup (lk_dialers s') q = Some u" for i q u
    using that D(5) [of i q u] map [of i q] fresh t(2,3) by (auto simp: th lk split: if_splits)
  moreover have "l_conn (the_link s' q) \<noteq> None"
    if "fmlookup (lk_links s') i = Some q" "\<not> l_cancel (the_link s' q)" for i q
    using that D(6) [of i q] l(1) by (auto simp: link lk split: if_splits)
  moreover have "\<not> l_cancel (the_link s' q) \<and> l_conn (the_link s' q) \<noteq> None"
    if "fmlookup (lk_incoming s') c = Some (i, q)" for c i q
    using that D(7) [of c i q] inc [of c i q] fresh by (auto simp: same link)
  moreover have "c |\<in>| fmdom (lk_conns s')" if "q |\<in>| fmdom (lk_heap s')" "l_conn (the_link s' q) = Some c" for q c
    using that D(8) [of q c] l(2) by (auto simp: same link split: if_splits)
  moreover have "q = r"
    if "q |\<in>| fmdom (lk_heap s')" "r |\<in>| fmdom (lk_heap s')" "l_conn (the_link s' q) = Some c" "l_conn (the_link s' r) = Some c" for q r c
    using that D(9) [of q r c] l(2) unfolding link same by (auto split: if_splits)
  moreover have "c |\<in>| fmdom (lk_incoming s') \<or> (\<exists>q u. fmlookup (lk_dialers s') q = Some u \<and> dt_pc u = Handling c)"
    if "c |\<in>| lk_open s'" for c
    using that D(10) [of c] no_th unfolding same th by (metis option.distinct(1))
  ultimately show ?thesis unfolding links_inv_def by blast
qed

lemma add_options_backoff:
  "add_options lib u = Inr options \<Longrightarrow> minimumBackoffLimit \<le> maxBackoff options"
  by (auto simp: add_options_def backoff_option_def Let_def defaultBackoffLimit_def minimumBackoffLimit_def second_def
      split: sum.splits if_splits option.splits)

lemma inv_add: "links_inv s \<Longrightarrow> links_inv (snd (links_add lib u sintf lt s))"
proof -
  assume inv: "links_inv s"
  show ?thesis
  proof (cases "dialerFor u")
    case (Inr proto)
    show ?thesis
    proof (cases "add_options lib u")
      case ok: (Inr options)
      show ?thesis
      proof (cases "fmlookup (lk_links s) (linkInfo_for u sintf)")
        case None
        show ?thesis
          by (rule inv_add_new [OF inv None,
                where t = "\<lparr>dt_info = linkInfo_for u sintf, dt_type = lt, dt_url = u, dt_options = options,
                  dt_backoff = 0, dt_pc = LoopTop\<rparr>"
                and l = "\<lparr>l_cancel = True, l_cancelled = False, l_type = lt, l_proto = ToUpper (u_scheme u),
                  l_conn = None, l_err = None, l_errtime = 0\<rparr>"])
             (use None ok Inr add_options_backoff [OF ok] in \<open>auto simp: links_add_def Let_def thread_ok_def\<close>)
      next
        case (Some p)
        then show ?thesis using ok Inr inv_kick [OF inv] by (simp add: links_add_def Let_def)
      qed
    qed (use Inr inv in \<open>simp add: links_add_def\<close>)
  qed (use inv in \<open>simp add: links_add_def\<close>)
qed


text \<open>Entries of accepted links go, connections close, counters move.\<close>

lemma inv_shrink:
  assumes inv: "links_inv s"
    and M: "\<And>i p. fmlookup M i = Some p \<Longrightarrow> fmlookup (lk_links s) i = Some p"
      "\<And>i p. fmlookup (lk_links s) i = Some p \<Longrightarrow> l_cancel (the_link s p) \<Longrightarrow> fmlookup M i = Some p"
    and N: "\<And>c x. fmlookup N c = Some x \<Longrightarrow> fmlookup (lk_incoming s) c = Some x"
    and opn: "\<And>c. c |\<in>| opn \<Longrightarrow> c |\<in>| lk_open s \<and> (c |\<in>| fmdom (lk_incoming s) \<longrightarrow> c |\<in>| fmdom N)"
    and K: "fmdom K = fmdom (lk_conns s)"
  shows "links_inv (s\<lparr>lk_links := M, lk_incoming := N, lk_conns := K, lk_open := opn, lk_listeners := a, lk_sockets := b,
    lk_core_done := d\<rparr>)"
proof -
  note D = links_invD [OF inv]
  have "fmlookup M (dt_info t) = Some p" if "fmlookup (lk_dialers s) p = Some t" "dt_pc t \<noteq> Finished" for p t
    using M(2) D(4) [OF that] D(2) [OF that(1)] by blast
  moreover have "links_wf (s\<lparr>lk_links := M, lk_incoming := N, lk_conns := K, lk_open := opn, lk_listeners := a,
      lk_sockets := b, lk_core_done := d\<rparr>)"
    using D(1) M(1) N unfolding links_wf_def by simp blast
  moreover have "c |\<in>| fmdom N \<or> (\<exists>p t. fmlookup (lk_dialers s) p = Some t \<and> dt_pc t = Handling c)" if "c |\<in>| opn" for c
    using opn [OF that] D(10) [of c] by blast
  moreover have "dt_info t = i \<and> dt_pc t \<noteq> Finished" if "fmlookup M i = Some p" "fmlookup (lk_dialers s) p = Some t" for i p t
    using D(5) [OF M(1) [OF that(1)] that(2)] .
  moreover have "l_conn (the_link s p) \<noteq> None" if "fmlookup M i = Some p" "\<not> l_cancel (the_link s p)" for i p
    using D(6) [OF M(1) [OF that(1)] that(2)] .
  moreover have "\<not> l_cancel (the_link s p) \<and> l_conn (the_link s p) \<noteq> None" if "fmlookup N c = Some (i, p)" for c i p
    using D(7) [OF N [OF that]] .
  ultimately show ?thesis
    using D(2,3,8,9) K unfolding links_inv_def the_link_upd by simp
qed

lemma inv_incoming_new:
  assumes inv: "links_inv s" and new: "fmlookup (lk_links s) info = None" "c |\<notin>| fmdom (lk_conns s)"
    and l: "\<not> l_cancel l" "l_conn l = Some c"
    and K: "fmdom K = finsert c (fmdom (lk_conns s))"
    and s': "s' = s\<lparr>lk_heap := fmupd (lk_next s) l (lk_heap s), lk_next := Suc (lk_next s),
      lk_links := fmupd info (lk_next s) (lk_links s), lk_incoming := fmupd c (info, lk_next s) (lk_incoming s),
      lk_conns := K, lk_open := finsert c (lk_open s)\<rparr>"
  shows "links_inv s'"
proof -
  note D = links_invD [OF inv]
  define p where "p = lk_next s"
  have heap: "q |\<in>| fmdom (lk_heap s) \<Longrightarrow> q < p" for q using D(1) unfolding links_wf_def p_def by blast
  then have fresh: "p |\<notin>| fmdom (lk_heap s)" by blast
  have map: "fmlookup (lk_links s) i = Some q \<Longrightarrow> q |\<in>| fmdom (lk_heap s)" for i q using D(1) unfolding links_wf_def by blast
  have dl: "fmlookup (lk_dialers s) q = Some u \<Longrightarrow> q |\<in>| fmdom (lk_heap s)" for q u using thread_in_heap [OF D(1)] .
  have inc: "fmlookup (lk_incoming s) x = Some (i, q) \<Longrightarrow> q |\<in>| fmdom (lk_heap s)" for x i q
    using D(1) unfolding links_wf_def by blast
  have link: "the_link s' q = (if q = p then l else the_link s q)" for q by (auto simp: s' p_def the_link_def)
  have lk: "fmlookup (lk_links s') i = (if i = info then Some p else fmlookup (lk_links s) i)" for i by (simp add: s' p_def)
  have ic: "fmlookup (lk_incoming s') x = (if x = c then Some (info, p) else fmlookup (lk_incoming s) x)" for x by (simp add: s' p_def)
  have same: "fmdom (lk_heap s') = finsert p (fmdom (lk_heap s))" "lk_dialers s' = lk_dialers s"
    "fmdom (lk_conns s') = finsert c (fmdom (lk_conns s))" "lk_open s' = finsert c (lk_open s)" "lk_next s' = Suc p"
    "fmdom (lk_incoming s') = finsert c (fmdom (lk_incoming s))"
    by (simp_all add: s' p_def K)
  have other: "l_conn (the_link s q) \<noteq> Some c" if "q |\<in>| fmdom (lk_heap s)" for q using D(8) [OF that] new(2) by blast
  have "links_wf s'"
    unfolding links_wf_def same lk ic using heap map inc dl
    by (auto simp: less_Suc_eq fmlookup_dom_iff split: if_splits)
  moreover have "l_cancel (the_link s' q) \<and> thread_ok u \<and> l_conn (the_link s' q) = pc_conn (dt_pc u)"
    if "fmlookup (lk_dialers s') q = Some u" for q u
    using that D(2) [of q u] dl [of q u] fresh by (auto simp: same link)
  moreover have "q |\<in>| fmdom (lk_dialers s')" if "q |\<in>| fmdom (lk_heap s')" "l_cancel (the_link s' q)" for q
    using that D(3) [of q] l(1) by (auto simp: same link split: if_splits)
  moreover have "fmlookup (lk_links s') (dt_info u) = Some q" if "fmlookup (lk_dialers s') q = Some u" "dt_pc u \<noteq> Finished" for q u
    using that D(4) [of q u] new(1) by (auto simp: same lk split: if_splits)
  moreover have "dt_info u = i \<and> dt_pc u \<noteq> Finished"
    if "fmlookup (lk_links s') i = Some q" "fmlookup (lk_dialers s') q = Some u" for i q u
    using that D(5) [of i q u] dl [of q u] fresh by (auto simp: same lk split: if_splits)
  moreover have "l_conn (the_link s' q) \<noteq> None"
    if "fmlookup (lk_links s') i = Some q" "\<not> l_cancel (the_link s' q)" for i q
    using that D(6) [of i q] l(2) by (auto simp: link lk split: if_splits)
  moreover have "\<not> l_cancel (the_link s' q) \<and> l_conn (the_link s' q) \<noteq> None"
    if "fmlookup (lk_incoming s') x = Some (i, q)" for x i q
    using that D(7) [of x i q] inc [of x i q] fresh l by (auto simp: ic link split: if_splits)
  moreover have "x |\<in>| fmdom (lk_conns s')" if "q |\<in>| fmdom (lk_heap s')" "l_conn (the_link s' q) = Some x" for q x
    using that D(8) [of q x] l(2) by (auto simp: same link split: if_splits)
  moreover have "q = r"
    if "q |\<in>| fmdom (lk_heap s')" "r |\<in>| fmdom (lk_heap s')" "l_conn (the_link s' q) = Some x" "l_conn (the_link s' r) = Some x" for q r x
    using that D(9) [of q r x] other [of q] other [of r] l(2) unfolding link same by (auto split: if_splits)
  moreover have "x |\<in>| fmdom (lk_incoming s') \<or> (\<exists>q u. fmlookup (lk_dialers s') q = Some u \<and> dt_pc u = Handling x)"
    if "x |\<in>| lk_open s'" for x
    using that D(10) [of x] unfolding same by blast
  ultimately show ?thesis unfolding links_inv_def by blast
qed

lemma inv_incoming_duplicate:
  assumes inv: "links_inv s" and p: "fmlookup (lk_links s) info = Some p" "\<not> l_cancel (the_link s p)"
  shows "links_inv (s\<lparr>lk_incoming := fmupd c (info, p) (lk_incoming s), lk_open := finsert c (lk_open s)\<rparr>)"
proof -
  note D = links_invD [OF inv]
  have "links_wf (s\<lparr>lk_incoming := fmupd c (info, p) (lk_incoming s), lk_open := finsert c (lk_open s)\<rparr>)"
    using D(1) p(1) unfolding links_wf_def by auto
  moreover have "\<not> l_cancel (the_link s q) \<and> l_conn (the_link s q) \<noteq> None"
    if "fmlookup (fmupd c (info, p) (lk_incoming s)) x = Some (i, q)" for x i q
    using that D(7) [of x i q] D(6) [OF p] p(2) by (auto split: if_splits)
  moreover have "x |\<in>| finsert c (fmdom (lk_incoming s)) \<or> (\<exists>q t. fmlookup (lk_dialers s) q = Some t \<and> dt_pc t = Handling x)"
    if "x |\<in>| finsert c (lk_open s)" for x
    using that D(10) [of x] by auto
  ultimately show ?thesis using D(2-6,8,9) unfolding links_inv_def the_link_upd by simp
qed

lemma inv_incoming_accept:
  assumes inv: "links_inv s" and c: "fresh_conn s c"
    and own: "\<And>p. fmlookup (lk_links s) (linkInfo_for (u\<lparr>u_host := remote\<rparr>) sintf) = Some p \<Longrightarrow> \<not> l_cancel (the_link s p)"
  shows "links_inv (incoming_accept u sintf remote c now s)"
proof -
  define info where "info = linkInfo_for (u\<lparr>u_host := remote\<rparr>) sintf"
  have c': "c |\<notin>| fmdom (lk_conns s)" using c by (simp add: fresh_conn_def)
  show ?thesis
  proof (cases "fmlookup (lk_links s) info")
    case None
    show ?thesis
      by (rule inv_incoming_new [OF inv None c', where K = "fmupd c (new_conn now) (lk_conns s)" and
            l = "\<lparr>l_cancel = False, l_cancelled = False, l_type = linkTypeIncoming,
                  l_proto = ToUpper (u_scheme u), l_conn = Some c, l_err = None, l_errtime = 0\<rparr>"])
         (use None in \<open>simp_all add: incoming_accept_def info_def incoming_state_def incoming_up_def set_link_def the_link_def Let_def\<close>)
  next
    case (Some p)
    then have p: "\<not> l_cancel (the_link s p)" using own info_def by blast
    have "incoming_accept u sintf remote c now s =
        s\<lparr>lk_incoming := fmupd c (info, p) (lk_incoming s), lk_open := finsert c (lk_open s)\<rparr>"
      using Some links_invD(6) [OF inv Some p]
      by (simp add: incoming_accept_def info_def [symmetric] incoming_state_def)
    then show ?thesis using inv_incoming_duplicate [OF inv Some p] by simp
  qed
qed

lemma inv_incoming_done:
  assumes inv: "links_inv s" and th: "fmlookup (lk_incoming s) c = Some th"
  shows "links_inv (fst (incoming_done c th s))"
proof -
  obtain info p where i: "th = (info, p)" by (cases th)
  have p: "\<not> l_cancel (the_link s p)" using links_invD(7) [OF inv] th i by blast
  define M where "M = (if fmlookup (lk_links s) info = Some p then fmdrop info (lk_links s) else lk_links s)"
  have "fst (incoming_done c th s) = s\<lparr>lk_links := M, lk_incoming := fmdrop c (lk_incoming s),
      lk_conns := lk_conns s, lk_open := lk_open s |-| {|c|}, lk_listeners := lk_listeners s, lk_sockets := lk_sockets s,
      lk_core_done := lk_core_done s\<rparr>"
    by (simp add: incoming_done_def i close_conn_def delete_if_def M_def)
  moreover have "links_inv (s\<lparr>lk_links := M, lk_incoming := fmdrop c (lk_incoming s),
      lk_conns := lk_conns s, lk_open := lk_open s |-| {|c|}, lk_listeners := lk_listeners s, lk_sockets := lk_sockets s,
      lk_core_done := lk_core_done s\<rparr>)"
    by (rule inv_shrink [OF inv]) (use p in \<open>auto simp: M_def split: if_splits\<close>)
  ultimately show ?thesis by simp
qed


lemma inv_environment:
  assumes inv: "links_inv s"
  shows "links_inv (snd (links_listen u opened s))" "links_inv (listener_stopped li s)" "links_inv (links_shutdown s)"
    "links_inv (updateAverages s)" "links_inv (s\<lparr>lk_core_done := True\<rparr>)"
    "fmlookup (lk_conns s) c = Some conn \<Longrightarrow> links_inv (s\<lparr>lk_conns := fmupd c conn' (lk_conns s)\<rparr>)"
proof -
  have shrink: "links_inv (s\<lparr>lk_conns := K, lk_open := opn, lk_listeners := a, lk_sockets := b, lk_core_done := d\<rparr>)"
    if "fmdom K = fmdom (lk_conns s)" "opn |\<subseteq>| lk_open s" for K opn a b d
    using inv_shrink [OF inv, where M = "lk_links s" and N = "lk_incoming s" and K = K and opn = opn and a = a and b = b and d = d]
      that by auto
  have comm: "s\<lparr>lk_sockets := x, lk_listeners := y\<rparr> = s\<lparr>lk_listeners := y, lk_sockets := x\<rparr>" for x y by (cases s) simp
  have full: "links_inv (s\<lparr>lk_sockets := x, lk_listeners := y\<rparr>)" "links_inv (s\<lparr>lk_sockets := x\<rparr>)" for x y
    using shrink [where K = "lk_conns s" and opn = "lk_open s" and a = y and b = x and d = "lk_core_done s"]
      shrink [where K = "lk_conns s" and opn = "lk_open s" and a = "lk_listeners s" and b = x and d = "lk_core_done s"]
    by (simp_all add: comm)
  show "links_inv (snd (links_listen u opened s))"
    using inv full by (auto simp: links_listen_def Let_def split: sum.splits)
  show "links_inv (listener_stopped li s)" using full by (simp add: listener_stopped_def cancel_listener_def)
  show "links_inv (links_shutdown s)"
    using shrink [where K = "lk_conns s" and opn = "lk_open s |-| linked_conns s" and a = "lk_listeners s"
        and b = "lk_sockets s |-| lk_listeners s" and d = "lk_core_done s"]
    by (auto simp: links_shutdown_def)
  show "links_inv (updateAverages s)"
    using inv shrink [where K = "fmmap_keys (\<lambda>c conn. if c |\<in>| linked_conns s then update_rates conn else conn) (lk_conns s)"
        and opn = "lk_open s" and a = "lk_listeners s" and b = "lk_sockets s" and d = "lk_core_done s"]
    by (simp add: updateAverages_def)
  show "links_inv (s\<lparr>lk_core_done := True\<rparr>)"
    using shrink [where K = "lk_conns s" and opn = "lk_open s" and a = "lk_listeners s" and b = "lk_sockets s" and d = True] by simp
  show "fmlookup (lk_conns s) c = Some conn \<Longrightarrow> links_inv (s\<lparr>lk_conns := fmupd c conn' (lk_conns s)\<rparr>)"
    using shrink [where K = "fmupd c conn' (lk_conns s)" and opn = "lk_open s" and a = "lk_listeners s" and b = "lk_sockets s"
        and d = "lk_core_done s"]
    by (auto simp: fmdomI finsert_absorb)
qed

text \<open>
  The two situations the code does not handle: an accepted connection whose URI is that of a
  configured peer, and the removal of an accepted link.
\<close>

fun benign :: "links \<Rightarrow> link_event \<Rightarrow> bool" where
  "benign s (Accept u sintf remote c now) \<longleftrightarrow>
     (case fmlookup (lk_links s) (linkInfo_for (u\<lparr>u_host := remote\<rparr>) sintf) of
        None \<Rightarrow> True | Some p \<Rightarrow> \<not> l_cancel (the_link s p))"
| "benign s (Remove u sintf) \<longleftrightarrow>
     (case fmlookup (lk_links s) (linkInfo_for u sintf) of None \<Rightarrow> True | Some p \<Rightarrow> l_cancel (the_link s p))"
| "benign s _ \<longleftrightarrow> True"

lemma links_step_inv:
  assumes inv: "links_inv s" and ok: "benign s e"
  shows "\<exists>s' outs. links_step lib s e = Ok (s', outs) \<and> links_inv s'"
proof (cases e)
  case (Remove u sintf)
  have "links_remove u sintf s \<noteq> Panic"
    using ok Remove by (auto simp: links_remove_def Let_def split: option.splits)
  then obtain r where "links_remove u sintf s = Ok r" by (cases "links_remove u sintf s") auto
  then obtain err s' outs where "links_remove u sintf s = Ok (err, s', outs)" by (cases r) auto
  then show ?thesis using Remove inv_remove [OF inv] by (simp add: links_step_def)
next
  case (Accept u sintf remote c now)
  have "links_inv (incoming_accept u sintf remote c now s)" if "fresh_conn s c"
    by (rule inv_incoming_accept [OF inv that]) (use ok Accept in simp)
  then show ?thesis using Accept inv by (simp add: links_step_def)
next
  case (LoopStep p)
  show ?thesis
  proof (cases "fmlookup (lk_dialers s) p")
    case (Some t)
    then show ?thesis using LoopStep inv inv_dial_loop [OF inv Some]
      by (cases "dial_loop p t s") (auto simp: links_step_def)
  qed (use LoopStep inv in \<open>auto simp: links_step_def\<close>)
next
  case (HandlerDone p err now)
  show ?thesis
  proof (cases "fmlookup (lk_dialers s) p")
    case (Some t)
    show ?thesis
    proof (cases "dt_pc t")
      case (Handling c)
      then show ?thesis using HandlerDone Some inv_handler_done [OF inv Some Handling, of err now]
        by (cases "handler_done p t c err now s") (auto simp: links_step_def)
    qed (use HandlerDone Some inv in \<open>auto simp: links_step_def\<close>)
  qed (use HandlerDone inv in \<open>auto simp: links_step_def\<close>)
next
  case (IncomingDone c)
  show ?thesis
  proof (cases "fmlookup (lk_incoming s) c")
    case (Some th)
    then show ?thesis using IncomingDone inv_incoming_done [OF inv Some]
      by (cases "incoming_done c th s") (auto simp: links_step_def)
  qed (use IncomingDone inv in \<open>auto simp: links_step_def\<close>)
next
  case (DialFailed p err now)
  then show ?thesis using inv inv_dial_failed [OF inv] by (auto simp: links_step_def split: option.splits)
next
  case (DialUp p c now)
  then show ?thesis using inv inv_dial_up [OF inv] by (auto simp: links_step_def fresh_conn_def split: option.splits)
next
  case (HandshakeUp p)
  then show ?thesis using inv inv_resetBackoff [OF inv] by (auto simp: links_step_def split: option.splits dial_pc.splits)
next
  case (BackoffOver p b)
  then show ?thesis using inv inv_backoff_over [OF inv] by (auto simp: links_step_def split: option.splits dial_pc.splits)
qed (use inv inv_add [OF inv] inv_environment [OF inv] in \<open>auto simp: links_step_def split: option.splits\<close>)

inductive reachable :: "golib \<Rightarrow> links \<Rightarrow> bool" for lib where
  start: "reachable lib links_init"
| step: "reachable lib s \<Longrightarrow> benign s e \<Longrightarrow> links_step lib s e = Ok (s', outs) \<Longrightarrow> reachable lib s'"

lemma reachable_inv: "reachable lib s \<Longrightarrow> links_inv s"
proof (induction rule: reachable.induct)
  case (step s e s' outs)
  then show ?case using links_step_inv [OF step.IH step.hyps(2), of lib] by auto
qed (rule links_inv_init)


subsection \<open>Backoff\<close>

lemma second_shift:
  assumes "0 \<le> b" "b \<le> 32"
  shows "sint (push_bit (nat b) (of_int second) :: 64 word) = second * 2 ^ nat b"
proof -
  have n: "nat b \<le> 32" using assms by linarith
  then have le: "(2 :: int) ^ nat b \<le> 2 ^ 32" by (intro power_increasing) auto
  have "sint (push_bit (nat b) (of_int second) :: 64 word) = sint (of_int (second * 2 ^ nat b) :: 64 word)"
    by (simp add: push_bit_eq_mult)
  also have "\<dots> = signed_take_bit 63 (second * 2 ^ nat b)"
    unfolding signed_of_int by simp
  also have "\<dots> = second * 2 ^ nat b"
    using le by (intro signed_take_bit_int_eq_self) (auto simp: second_def intro: order_trans [of _ 0])
  finally show ?thesis .
qed

lemma backoff_duration_eq:
  assumes "-1 \<le> b" "b \<le> 32"
  shows "backoff_duration limit b = (if b = -1 then None else Some (min (second * 2 ^ nat b) limit))"
  using assms second_shift [of b] by (auto simp: backoff_duration_def Let_def min_def)

text \<open>What a step does to a goroutine: it keeps it sound, and only a connection to the node itself makes it wait for ever.\<close>

definition threads_ok :: "links \<Rightarrow> bool" where
  "threads_ok s \<longleftrightarrow> (\<forall>p t. fmlookup (lk_dialers s) p = Some t \<longrightarrow> thread_ok t)"

definition thread_from :: "links \<Rightarrow> link_event \<Rightarrow> nat \<Rightarrow> dial_thread \<Rightarrow> bool" where
  "thread_from s e p t' \<longleftrightarrow>
     thread_ok t' \<and> (dt_backoff t' = -1 \<longrightarrow>
       (\<exists>t. fmlookup (lk_dialers s) p = Some t \<and> dt_backoff t = -1) \<or> (\<exists>now. e = HandlerDone p (Some ErrLinkToSelf) now))"

lemma thread_from_same: "threads_ok s \<Longrightarrow> fmlookup (lk_dialers s) p = Some t \<Longrightarrow> thread_from s e p t"
  by (auto simp: threads_ok_def thread_from_def)

lemma thread_from_pc:
  "threads_ok s \<Longrightarrow> fmlookup (lk_dialers s) p = Some t \<Longrightarrow> (\<And>d. pc \<noteq> BackingOff d) \<Longrightarrow> thread_from s e p (t\<lparr>dt_pc := pc\<rparr>)"
  by (auto simp: threads_ok_def thread_from_def thread_ok_pc)

lemma thread_from_backoff:
  assumes "thread_from s e p t"
  shows "thread_from s e p (t\<lparr>dt_backoff := backoff_next (dt_backoff t),
     dt_pc := BackingOff (backoff_duration (maxBackoff (dt_options t)) (backoff_next (dt_backoff t)))\<rparr>)"
  using assms thread_ok_backoff [of t] by (auto simp: thread_from_def thread_ok_def backoff_next_def)

lemma dialers_simps [simp]:
  "lk_dialers (set_link p l s) = lk_dialers s" "lk_dialers (set_thread p t s) = fmupd p t (lk_dialers s)"
  "lk_dialers (delete_if info p s) = lk_dialers s" "lk_dialers (fst (close_conn c s)) = lk_dialers s"
  "lk_dialers (finish_dial p t s) = fmupd p (t\<lparr>dt_pc := Finished\<rparr>) (lk_dialers s)"
  "lk_dialers (backoffNow p t s) = fmupd p (t\<lparr>dt_backoff := backoff_next (dt_backoff t),
     dt_pc := BackingOff (backoff_duration (maxBackoff (dt_options t)) (backoff_next (dt_backoff t)))\<rparr>) (lk_dialers s)"
  by (simp_all add: update_defs close_conn_def)

lemma dialers_incoming [simp]: "lk_dialers (incoming_accept u sintf remote c now s) = lk_dialers s"
  by (simp add: incoming_accept_def incoming_state_def incoming_up_def set_link_def Let_def split: option.split prod.split)

lemma dialers_handler_done:
  "lk_dialers (fst (handler_done p t c err now s)) =
     (let t = (if err = Some ErrLinkToSelf then t\<lparr>dt_backoff := -1\<rparr> else t)
      in fmupd p (if dt_type t = linkTypePersistent
           then t\<lparr>dt_backoff := backoff_next (dt_backoff t),
                  dt_pc := BackingOff (backoff_duration (maxBackoff (dt_options t)) (backoff_next (dt_backoff t)))\<rparr>
           else t\<lparr>dt_pc := Finished\<rparr>) (lk_dialers s))"
  by (simp add: handler_done_def Let_def split: prod.split) (simp add: close_conn_def)

lemma thread_from_handler_done:
  assumes ok: "threads_ok s" and t: "fmlookup (lk_dialers s) p = Some t" "dt_pc t = Handling c"
    and t': "fmlookup (lk_dialers (fst (handler_done p t c err now s))) q = Some t'"
  shows "thread_from s (HandlerDone p err now) q t'"
proof (cases "q = p")
  case True
  define t1 where "t1 = (if err = Some ErrLinkToSelf then t\<lparr>dt_backoff := -1\<rparr> else t)"
  have "thread_ok t1" using ok t by (auto simp: t1_def threads_ok_def thread_ok_def)
  then have 1: "thread_from s (HandlerDone p err now) p t1"
    using thread_from_same [OF ok t(1)] by (auto simp: t1_def thread_from_def)
  then have "thread_from s (HandlerDone p err now) p (t1\<lparr>dt_pc := Finished\<rparr>)" by (simp add: thread_from_def thread_ok_pc)
  then show ?thesis
    using t' thread_from_backoff [OF 1] True unfolding dialers_handler_done Let_def t1_def [symmetric] by (auto split: if_splits)
next
  case False
  then have "fmlookup (lk_dialers s) q = Some t'" using t' unfolding dialers_handler_done Let_def by simp
  then show ?thesis by (rule thread_from_same [OF ok])
qed

lemma thread_from_add:
  assumes ok: "threads_ok s" and t': "fmlookup (lk_dialers (snd (links_add lib u sintf lt s))) q = Some t'"
  shows "thread_from s e q t'"
proof -
  have kick: "thread_from s e q t'" if "fmlookup (lk_dialers (kick p s)) q = Some t'" for p
    using that thread_from_same [OF ok] thread_from_pc [OF ok]
    by (auto simp: kick_def split: option.splits dial_pc.splits if_splits)
  have new: "thread_from s e q \<lparr>dt_info = info, dt_type = lt, dt_url = u, dt_options = opts, dt_backoff = 0, dt_pc = LoopTop\<rparr>"
    if "add_options lib u = Inr opts" for info opts
    using add_options_backoff [OF that] by (simp add: thread_from_def thread_ok_def)
  show ?thesis
    using t' kick new thread_from_same [OF ok] unfolding links_add_def
    by (auto simp: Let_def split: sum.splits option.splits if_splits)
qed

lemma links_step_threads:
  assumes ok: "threads_ok s" and st: "links_step lib s e = Ok (s', outs)" and t': "fmlookup (lk_dialers s') q = Some t'"
  shows "thread_from s e q t'"
proof (cases e)
  case (Add u sintf lt)
  then show ?thesis using st t' thread_from_add [OF ok] by (auto simp: links_step_def)
next
  case (Remove u sintf)
  then have "lk_dialers s' = lk_dialers s"
    using st by (auto simp: links_step_def links_remove_def go_bind_eq_Ok close_conn_def Let_def split: option.splits if_splits)
  then show ?thesis using t' thread_from_same [OF ok] by simp
next
  case (LoopStep p)
  then show ?thesis
    using st t' thread_from_same [OF ok] thread_from_pc [OF ok]
    by (auto simp: links_step_def dial_loop_def split: option.splits if_splits)
next
  case (DialFailed p err now)
  then show ?thesis
    using st t' thread_from_same [OF ok] thread_from_pc [OF ok] thread_from_backoff [OF thread_from_same [OF ok]]
    by (auto simp: links_step_def dial_failed_def split: option.splits if_splits)
next
  case (DialUp p c now)
  then show ?thesis
    using st t' thread_from_same [OF ok] thread_from_pc [OF ok]
    by (auto simp: links_step_def dial_up_def Let_def split: option.splits if_splits)
next
  case (HandshakeUp p)
  have "thread_from s e p (t\<lparr>dt_backoff := 0\<rparr>)" if "fmlookup (lk_dialers s) p = Some t" "dt_pc t = Handling c" for t c
    using ok that by (auto simp: threads_ok_def thread_from_def thread_ok_def)
  then show ?thesis
    using st t' thread_from_same [OF ok] HandshakeUp
    by (auto simp: links_step_def resetBackoff_def split: option.splits dial_pc.splits if_splits)
next
  case (HandlerDone p err now)
  then show ?thesis
    using st t' thread_from_same [OF ok] thread_from_handler_done [OF ok]
    by (auto simp: links_step_def split: option.splits dial_pc.splits)
next
  case (BackoffOver p b)
  then show ?thesis
    using st t' thread_from_same [OF ok] thread_from_pc [OF ok]
    by (auto simp: links_step_def backoff_over_def split: option.splits dial_pc.splits if_splits)
next
  case (Accept u sintf remote c now)
  then show ?thesis using st t' thread_from_same [OF ok] by (auto simp: links_step_def split: if_splits)
next
  case (IncomingDone c)
  then have "lk_dialers s' = lk_dialers s"
    using st by (auto simp: links_step_def incoming_done_def close_conn_def Let_def split: option.splits)
  then show ?thesis using t' thread_from_same [OF ok] by simp
qed (use st t' thread_from_same [OF ok] in \<open>auto simp: links_step_def links_listen_def listener_stopped_def cancel_listener_def
       updateAverages_def links_shutdown_def Let_def split: option.splits sum.splits if_splits\<close>)

lemma links_run_threads:
  assumes "threads_ok s" "run_events (links_step lib) s es = Ok (s', outs)" "fmlookup (lk_dialers s') p = Some t'"
  shows "thread_ok t' \<and> (dt_backoff t' = -1 \<longrightarrow>
    (\<exists>t. fmlookup (lk_dialers s) p = Some t \<and> dt_backoff t = -1) \<or> (\<exists>now. HandlerDone p (Some ErrLinkToSelf) now \<in> set es))"
  using assms
proof (induction es arbitrary: s outs)
  case (Cons e es)
  obtain s1 o1 where 1: "links_step lib s e = Ok (s1, o1)" using Cons.prems(2) by (cases "links_step lib s e") auto
  obtain s2 o2 where 2: "run_events (links_step lib) s1 es = Ok (s2, o2)"
    using Cons.prems(2) 1 by (cases "run_events (links_step lib) s1 es") auto
  have eq: "s2 = s'" using Cons.prems(2) 1 2 by auto
  note st = links_step_threads [OF Cons.prems(1) 1]
  then have "threads_ok s1" unfolding threads_ok_def thread_from_def by blast
  note ih = Cons.IH [OF this 2 [unfolded eq] Cons.prems(3)]
  show ?case using ih st [of p] unfolding thread_from_def by auto
qed (auto simp: threads_ok_def)

text \<open>
  C30. Waits between dials. Take any run of the node and any of its dialling goroutines. While it backs
  off it waits either for ever or for two to the power of its failures seconds, or for its configured
  limit if that is less, and never less than one second; the shift never overflows 64 bits. It waits
  for ever only if one of its connections ended in finding the node itself at the other end, and then
  no timer ends the wait. When the handler of a persistent peering returns, or its dial fails, it
  backs off: for ever after a connection to self, and with one failure more, up to 32, otherwise. A
  successful handshake sets the count to zero.
\<close>

theorem backoff_bounded:
  assumes "run_events (links_step lib) links_init es = Ok (s, outs)" "fmlookup (lk_dialers s) p = Some t"
  shows "-1 \<le> dt_backoff t \<and> dt_backoff t \<le> 32
    \<and> (\<forall>d. dt_pc t = BackingOff d \<longrightarrow>
         d = (if dt_backoff t = -1 then None else Some (min (second * 2 ^ nat (dt_backoff t)) (maxBackoff (dt_options t))))
         \<and> (\<forall>w. d = Some w \<longrightarrow> second \<le> w \<and> w \<le> maxBackoff (dt_options t))
         \<and> (d = None \<longrightarrow> links_step lib s (BackoffOver p True) = Ok (s, [])))
    \<and> (dt_backoff t = -1 \<longrightarrow> (\<exists>now. HandlerDone p (Some ErrLinkToSelf) now \<in> set es))
    \<and> (\<forall>c err now. dt_pc t = Handling c \<longrightarrow> dt_type t = linkTypePersistent \<longrightarrow>
         (\<exists>s' outs t' d. links_step lib s (HandlerDone p err now) = Ok (s', outs) \<and> fmlookup (lk_dialers s') p = Some t'
            \<and> dt_pc t' = BackingOff d
            \<and> dt_backoff t' = (if err = Some ErrLinkToSelf then -1 else backoff_next (dt_backoff t))))
    \<and> (\<forall>err now. dt_pc t = Dialling \<longrightarrow> dt_type t = linkTypePersistent \<longrightarrow>
         (\<exists>s' t' d. links_step lib s (DialFailed p err now) = Ok (s', []) \<and> fmlookup (lk_dialers s') p = Some t'
            \<and> dt_pc t' = BackingOff d \<and> dt_backoff t' = backoff_next (dt_backoff t)))
    \<and> backoff_next (dt_backoff t) = (if dt_backoff t \<in> {-1, 32} then dt_backoff t else dt_backoff t + 1)
    \<and> dt_backoff (the (fmlookup (lk_dialers (resetBackoff p t s)) p)) = 0"
proof -
  have "threads_ok links_init" by (simp add: threads_ok_def links_init_def)
  note run = links_run_threads [OF this assms]
  then have ok: "thread_ok t" by simp
  then have b: "-1 \<le> dt_backoff t" "dt_backoff t \<le> 32" "minimumBackoffLimit \<le> maxBackoff (dt_options t)"
    by (auto simp: thread_ok_def)
  have d: "d = backoff_duration (maxBackoff (dt_options t)) (dt_backoff t)" if "dt_pc t = BackingOff d" for d
    using ok that by (simp add: thread_ok_def)
  have "1 \<le> (2 :: int) ^ n" for n by simp
  then have "second \<le> second * 2 ^ n" for n by (simp add: second_def)
  moreover have "second \<le> maxBackoff (dt_options t)" using b(3) by (simp add: minimumBackoffLimit_def second_def)
  ultimately have wait: "d = (if dt_backoff t = -1 then None else Some (min (second * 2 ^ nat (dt_backoff t)) (maxBackoff (dt_options t))))
         \<and> (\<forall>w. d = Some w \<longrightarrow> second \<le> w \<and> w \<le> maxBackoff (dt_options t))
         \<and> (d = None \<longrightarrow> links_step lib s (BackoffOver p True) = Ok (s, []))" if "dt_pc t = BackingOff d" for d
    using d [OF that] that assms(2) backoff_duration_eq [OF b(1,2), of "maxBackoff (dt_options t)"]
    by (auto simp: links_step_def)
  have self: "\<exists>now. HandlerDone p (Some ErrLinkToSelf) now \<in> set es" if "dt_backoff t = -1"
    using run that by (simp add: links_init_def)
  have handler: "\<exists>s' outs t' d. links_step lib s (HandlerDone p err now) = Ok (s', outs) \<and> fmlookup (lk_dialers s') p = Some t'
      \<and> dt_pc t' = BackingOff d \<and> dt_backoff t' = (if err = Some ErrLinkToSelf then -1 else backoff_next (dt_backoff t))"
    if "dt_pc t = Handling c" "dt_type t = linkTypePersistent" for c err now
    using that assms(2) dialers_handler_done [of p t c err now s]
    by (cases "handler_done p t c err now s") (auto simp: links_step_def Let_def backoff_next_def)
  have failed: "\<exists>s' t' d. links_step lib s (DialFailed p err now) = Ok (s', []) \<and> fmlookup (lk_dialers s') p = Some t'
      \<and> dt_pc t' = BackingOff d \<and> dt_backoff t' = backoff_next (dt_backoff t)"
    if "dt_pc t = Dialling" "dt_type t = linkTypePersistent" for err now
    using that assms(2) by (simp add: links_step_def dial_failed_def)
  show ?thesis
    using b(1,2) wait self handler failed by (auto simp: backoff_next_def resetBackoff_def)
qed

text \<open>
  C28. Links and connections stay consistent. In every state the node reaches through events the code
  handles: no such event makes the node panic; every configured peer in the table is served by
  exactly its own dialling goroutine, which has not finished, and conversely a goroutine that has not
  finished has its peer in the table; a link records the connection its goroutine handles and no two
  links share one; and every open connection has a handler that will close it, so none leaks.
\<close>

theorem links_consistent:
  assumes "reachable lib s"
  shows "(benign s e \<longrightarrow> links_step lib s e \<noteq> Panic)
    \<and> (fmlookup (lk_links s) info = Some p \<and> l_cancel (the_link s p) \<longrightarrow>
         (\<exists>t. fmlookup (lk_dialers s) p = Some t \<and> dt_info t = info \<and> dt_pc t \<noteq> Finished))
    \<and> (\<forall>q t. fmlookup (lk_dialers s) q = Some t \<longrightarrow>
         l_conn (the_link s q) = pc_conn (dt_pc t) \<and> (dt_pc t \<noteq> Finished \<longrightarrow> fmlookup (lk_links s) (dt_info t) = Some q))
    \<and> (\<forall>q r c. q |\<in>| fmdom (lk_heap s) \<longrightarrow> r |\<in>| fmdom (lk_heap s) \<longrightarrow>
         l_conn (the_link s q) = Some c \<longrightarrow> l_conn (the_link s r) = Some c \<longrightarrow> q = r)
    \<and> (\<forall>c. c |\<in>| lk_open s \<longrightarrow>
         c |\<in>| fmdom (lk_incoming s) \<or> (\<exists>q t. fmlookup (lk_dialers s) q = Some t \<and> dt_pc t = Handling c))"
proof -
  note inv = reachable_inv [OF assms]
  have "\<exists>t. fmlookup (lk_dialers s) p = Some t \<and> dt_info t = info \<and> dt_pc t \<noteq> Finished"
    if at: "fmlookup (lk_links s) info = Some p" and own: "l_cancel (the_link s p)"
  proof -
    have "p |\<in>| fmdom (lk_heap s)" using links_invD(1) [OF inv] at unfolding links_wf_def by blast
    then obtain t where "fmlookup (lk_dialers s) p = Some t" using links_invD(3) [OF inv _ own] by auto
    then show ?thesis using links_invD(5) [OF inv at] by blast
  qed
  moreover have "benign s e \<longrightarrow> links_step lib s e \<noteq> Panic" using links_step_inv [OF inv, of e lib] by auto
  ultimately show ?thesis using links_invD(2,4,9,10) [OF inv] by blast
qed


section \<open>A peering in use\<close>

definition sample_lib :: golib where
  "sample_lib = \<lparr>ParseDuration = (\<lambda>s. None), ParseIP = (\<lambda>s. None)\<rparr>"

definition sample_peer_options :: linkOptions where
  "sample_peer_options = \<lparr>pinnedEd25519Keys = {||}, lo_priority = 0, tlsSNI = ''peer'', lo_password = [],
     requireSecure = False, maxBackoff = defaultBackoffLimit\<rparr>"

lemma sample_peer_add:
  "dialerFor sample_url = Inr linkTCP" "add_options sample_lib sample_url = Inr sample_peer_options"
  by (simp_all add: dialerFor_def sample_url_def ToLower_def lower_char_def add_options_def priority_option_def
        password_option_def secure_option_def backoff_option_def sni_option_def query_Get_def query_values_def
        sample_url_parts sample_lib_def sample_peer_options_def)

definition sample_info :: linkInfo where "sample_info = linkInfo_for sample_url ''''"

definition sample_thread :: "dial_pc \<Rightarrow> int \<Rightarrow> dial_thread" where
  "sample_thread pc b = \<lparr>dt_info = sample_info, dt_type = linkTypePersistent, dt_url = sample_url,
     dt_options = sample_peer_options, dt_backoff = b, dt_pc = pc\<rparr>"

text \<open>The node after adding the sample peer, with its goroutine and link as given.\<close>

definition sample_links :: "dial_thread \<Rightarrow> link \<Rightarrow> links" where
  "sample_links t l = links_init\<lparr>lk_links := fmupd sample_info 0 fmempty, lk_heap := fmupd 0 l fmempty,
     lk_next := 1, lk_dialers := fmupd 0 t fmempty\<rparr>"

definition sample_link :: link where
  "sample_link = \<lparr>l_cancel = True, l_cancelled = False, l_type = linkTypePersistent, l_proto = ToUpper ''tcp'',
     l_conn = None, l_err = None, l_errtime = 0\<rparr>"

lemma sample_added:
  "links_step sample_lib links_init (Add sample_url '''' linkTypePersistent)
     = Ok (sample_links (sample_thread LoopTop 0) sample_link, [])"
  by (simp add: links_step_def links_add_def sample_peer_add sample_links_def sample_thread_def sample_link_def
        sample_info_def set_link_def set_thread_def Let_def links_init_def) (simp add: sample_url_def)

lemma sample_dialling:
  "links_step sample_lib (sample_links (sample_thread LoopTop 0) sample_link) (LoopStep 0)
     = Ok (sample_links (sample_thread Dialling 0) sample_link, [StartDial 0 sample_url sample_peer_options])"
  by (simp add: links_step_def sample_links_def dial_loop_def sample_thread_def ctx_done_def the_link_def sample_link_def
        set_thread_def links_init_def)

lemma sample_failed:
  "links_step sample_lib (sample_links (sample_thread Dialling 0) sample_link) (DialFailed 0 (Some ErrLookup) 5)
     = Ok (sample_links (sample_thread (BackingOff (Some (2 * second))) 1)
         (sample_link\<lparr>l_err := Some ErrLookup, l_errtime := 5\<rparr>), [])"
proof -
  have "backoff_duration defaultBackoffLimit 1 = Some (2 * second)"
    using backoff_duration_eq [of 1 defaultBackoffLimit] by (simp add: defaultBackoffLimit_def second_def)
  then show ?thesis
    by (simp add: links_step_def sample_links_def dial_failed_def sample_thread_def the_link_def sample_link_def
          set_thread_def set_link_def backoffNow_def backoff_next_def links_init_def sample_peer_options_def)
qed

definition sample_connected :: links where
  "sample_connected = (sample_links (sample_thread (Handling 7) 0) (sample_link\<lparr>l_conn := Some 7, l_errtime := 3\<rparr>))
     \<lparr>lk_conns := fmupd 7 (new_conn 3) fmempty, lk_open := {|7|}\<rparr>"

lemma sample_up:
  "links_step sample_lib (sample_links (sample_thread Dialling 0) sample_link) (DialUp 0 7 3) = Ok (sample_connected, [])"
  by (simp add: links_step_def sample_links_def dial_up_def sample_thread_def the_link_def sample_link_def fresh_conn_def
        set_thread_def set_link_def links_init_def sample_connected_def Let_def)

definition sample_removed :: links where
  "sample_removed = sample_connected\<lparr>lk_heap := fmupd 0 (sample_link\<lparr>l_conn := Some 7, l_errtime := 3, l_cancelled := True\<rparr>) fmempty,
     lk_open := {||}\<rparr>"

lemma sample_remove: "links_remove sample_url '''' sample_connected = Ok (None, sample_removed, [CloseConn 7])"
  by (simp add: links_remove_def sample_connected_def sample_removed_def sample_links_def sample_info_def [symmetric]
        the_link_def set_link_def sample_link_def Let_def close_conn_def)

theorem removed_peer_not_redialled_witness:
  "\<exists>s outs s' s'' outs'.
     run_events (links_step sample_lib) links_init [Add sample_url '''' linkTypePersistent, LoopStep 0, DialUp 0 7 3] = Ok (s, outs)
   \<and> StartDial 0 sample_url sample_peer_options \<in> set outs
   \<and> fmlookup (lk_links s) (linkInfo_for sample_url '''') = Some 0 \<and> l_conn (the_link s 0) = Some 7 \<and> 7 |\<in>| lk_open s
   \<and> links_remove sample_url '''' s = Ok (None, s', [CloseConn 7]) \<and> 7 |\<notin>| lk_open s'
   \<and> run_events (links_step sample_lib) s' [HandlerDone 0 None 9, BackoffOver 0 True, LoopStep 0] = Ok (s'', outs')
   \<and> StartDial 0 sample_url sample_peer_options \<notin> set outs'"
proof -
  have 1: "run_events (links_step sample_lib) links_init [Add sample_url '''' linkTypePersistent, LoopStep 0, DialUp 0 7 3]
      = Ok (sample_connected, [StartDial 0 sample_url sample_peer_options])"
    by (simp add: sample_added sample_dialling sample_up)
  have 2: "fmlookup (lk_links sample_connected) (linkInfo_for sample_url '''') = Some 0"
    "l_conn (the_link sample_connected 0) = Some 7" "7 |\<in>| lk_open sample_connected"
    by (simp_all add: sample_connected_def sample_links_def sample_info_def the_link_def)
  obtain s'' outs' where 3:
    "run_events (links_step sample_lib) sample_removed [HandlerDone 0 None 9, BackoffOver 0 True, LoopStep 0] = Ok (s'', outs')"
    by (simp add: links_step_def sample_removed_def sample_connected_def sample_links_def sample_thread_def links_init_def
          handler_done_def close_conn_def backoffNow_def backoff_next_def backoff_duration_def backoff_over_def
          dial_loop_def set_thread_def set_link_def the_link_def Let_def ctx_done_def)
  from removed_peer_not_redialled [OF 1 2(1) sample_remove 3, of sample_url sample_peer_options]
  have "StartDial 0 sample_url sample_peer_options \<notin> set outs' \<and> 7 |\<notin>| lk_open sample_removed" using 2(2) by blast
  then show ?thesis using 1 2 3 sample_remove by (metis list.set_intros(1))
qed

lemma sample_reachable:
  "reachable sample_lib (sample_links (sample_thread (BackingOff (Some (2 * second))) 1)
     (sample_link\<lparr>l_err := Some ErrLookup, l_errtime := 5\<rparr>))"
  by (rule reachable.step [OF reachable.step [OF reachable.step [OF reachable.start _ sample_added] _ sample_dialling] _ sample_failed])
     simp_all

theorem backoff_bounded_witness:
  "\<exists>es s outs t d. run_events (links_step sample_lib) links_init es = Ok (s, outs) \<and> fmlookup (lk_dialers s) 0 = Some t
     \<and> dt_pc t = BackingOff (Some d) \<and> second \<le> d \<and> d \<le> maxBackoff (dt_options t)"
proof -
  define s where "s = sample_links (sample_thread (BackingOff (Some (2 * second))) 1)
     (sample_link\<lparr>l_err := Some ErrLookup, l_errtime := 5\<rparr>)"
  define t where "t = sample_thread (BackingOff (Some (2 * second))) 1"
  have t: "fmlookup (lk_dialers s) 0 = Some t" "dt_pc t = BackingOff (Some (2 * second))"
    by (simp_all add: s_def t_def sample_links_def sample_thread_def)
  have r: "run_events (links_step sample_lib) links_init
      [Add sample_url '''' linkTypePersistent, LoopStep 0, DialFailed 0 (Some ErrLookup) 5]
      = Ok (s, [StartDial 0 sample_url sample_peer_options])"
    by (simp add: sample_added sample_dialling sample_failed s_def)
  from backoff_bounded [OF r t(1)] r t show ?thesis by blast
qed

theorem links_consistent_witness:
  "\<exists>s. reachable sample_lib s \<and> benign s (LoopStep 0) \<and> links_step sample_lib s (LoopStep 0) \<noteq> Panic"
  using links_consistent [OF sample_reachable, of "LoopStep 0" sample_info 0] sample_reachable by (meson benign.simps)


section \<open>Adding a peer\<close>

lemma pinned_keys_eq:
  "pinned_keys ks hs = Inr ks' \<longleftrightarrow>
     (\<forall>h \<in> set hs. hex_decode h \<noteq> None) \<and> ks' = ks |\<union>| fset_of_list (map (\<lambda>h. array_of 32 (the (hex_decode h))) hs)"
  by (induction ks hs rule: pinned_keys.induct) (auto split: option.splits)

text \<open>What the query of a peer URI may hold.\<close>

definition peer_query_ok :: "golib \<Rightarrow> url \<Rightarrow> bool" where
  "peer_query_ok lib u \<longleftrightarrow>
     (\<forall>h \<in> set (query_values u ''key''). hex_decode h \<noteq> None)
   \<and> (query_Get u ''priority'' = '''' \<or> ParseUint 8 (query_Get u ''priority'') \<noteq> None)
   \<and> length (query_Get u ''password'') \<le> 64
   \<and> query_Get u ''secure'' \<in> {'''', ''required'', ''opportunistic''}
   \<and> (query_Get u ''maxbackoff'' = ''''
      \<or> (\<exists>d. ParseDuration lib (query_Get u ''maxbackoff'') = Some d \<and> 5 * second \<le> d))"

lemma option_parts_ok:
  "(\<exists>x. priority_option u = Inr x) \<longleftrightarrow> query_Get u ''priority'' = '''' \<or> ParseUint 8 (query_Get u ''priority'') \<noteq> None"
  "(\<exists>x. password_option u = Inr x) \<longleftrightarrow> length (query_Get u ''password'') \<le> 64"
  "(\<exists>x. secure_option u = Inr x) \<longleftrightarrow> query_Get u ''secure'' \<in> {'''', ''required'', ''opportunistic''}"
  "(\<exists>x. backoff_option lib u = Inr x) \<longleftrightarrow> query_Get u ''maxbackoff'' = ''''
      \<or> (\<exists>d. ParseDuration lib (query_Get u ''maxbackoff'') = Some d \<and> 5 * second \<le> d)"
  by (auto simp: priority_option_def password_option_def secure_option_def backoff_option_def Let_def
        blake2b_Size_def minimumBackoffLimit_def split: option.splits)

lemma add_options_iff: "(\<exists>opts. add_options lib u = Inr opts) \<longleftrightarrow> peer_query_ok lib u"
proof -
  have "(\<exists>opts. add_options lib u = Inr opts) \<longleftrightarrow>
      (\<exists>x. pinned_keys {||} (query_values u ''key'') = Inr x) \<and> (\<exists>x. priority_option u = Inr x)
    \<and> (\<exists>x. password_option u = Inr x) \<and> (\<exists>x. secure_option u = Inr x) \<and> (\<exists>x. backoff_option lib u = Inr x)"
    by (auto simp: add_options_def split: sum.splits)
  then show ?thesis unfolding option_parts_ok peer_query_ok_def by (simp add: pinned_keys_eq)
qed

lemma add_options_values:
  assumes "add_options lib u = Inr opts"
  shows "pinnedEd25519Keys opts = fset_of_list (map (\<lambda>h. array_of 32 (the (hex_decode h))) (query_values u ''key''))"
    and "lo_password opts = ascii (query_Get u ''password'')"
    and "query_Get u ''priority'' \<noteq> '''' \<Longrightarrow> ParseUint 8 (query_Get u ''priority'') = Some (unat (lo_priority opts))"
    and "requireSecure opts \<longleftrightarrow> query_Get u ''secure'' = ''required''"
proof -
  show "pinnedEd25519Keys opts = fset_of_list (map (\<lambda>h. array_of 32 (the (hex_decode h))) (query_values u ''key''))"
    using assms by (auto simp: add_options_def pinned_keys_eq split: sum.splits)
  show "lo_password opts = ascii (query_Get u ''password'')"
    using assms by (auto simp: add_options_def password_option_def Let_def ascii_def split: sum.splits if_splits)
  have "unat (of_nat n :: byte) = n" if "ParseUint 8 x = Some n" for x n
    using ParseUint_less [OF that] by (simp add: unat_of_nat)
  then show "query_Get u ''priority'' \<noteq> '''' \<Longrightarrow> ParseUint 8 (query_Get u ''priority'') = Some (unat (lo_priority opts))"
    using assms by (auto simp: add_options_def priority_option_def Let_def split: sum.splits option.splits if_splits)
  show "requireSecure opts \<longleftrightarrow> query_Get u ''secure'' = ''required''"
    using assms by (auto simp: add_options_def secure_option_def Let_def split: sum.splits if_splits)
qed

lemma add_options_not_configured: "add_options lib u = Inl e \<Longrightarrow> e \<noteq> ErrLinkAlreadyConfigured"
proof -
  assume a: "add_options lib u = Inl e"
  have keys: "pinned_keys ks hs = Inl e' \<Longrightarrow> e' = ErrLinkPinnedKeyInvalid" for ks hs e'
    by (induction ks hs rule: pinned_keys.induct) (auto split: option.splits)
  show ?thesis
    using a by (auto simp: add_options_def priority_option_def password_option_def secure_option_def backoff_option_def
        Let_def split: sum.splits if_splits option.splits dest: keys)
qed

lemma kick_eq:
  "kick p s =
     (case fmlookup (lk_dialers s) p of
        Some t \<Rightarrow> if (\<exists>d. dt_pc t = BackingOff d) then s\<lparr>lk_dialers := fmupd p (t\<lparr>dt_pc := LoopTop\<rparr>) (lk_dialers s)\<rparr> else s
      | None \<Rightarrow> s)"
  by (auto simp: kick_def set_thread_def split: option.splits dial_pc.splits)

lemma links_add_new:
  assumes "dialerFor u = Inr proto" "add_options lib u = Inr opts" "fmlookup (lk_links s) (linkInfo_for u sintf) = None"
  shows "\<exists>t l. links_add lib u sintf lt s = (None, s\<lparr>lk_links := fmupd (linkInfo_for u sintf) (lk_next s) (lk_links s),
      lk_next := Suc (lk_next s), lk_heap := fmupd (lk_next s) l (lk_heap s), lk_dialers := fmupd (lk_next s) t (lk_dialers s)\<rparr>)
    \<and> l_type l = lt \<and> l_conn l = None \<and> \<not> l_cancelled l
    \<and> dt_pc t = LoopTop \<and> dt_backoff t = 0 \<and> dt_type t = lt \<and> dt_options t = opts \<and> dt_url t = u"
  by (intro exI [of _ "\<lparr>dt_info = linkInfo_for u sintf, dt_type = lt, dt_url = u, dt_options = opts,
         dt_backoff = 0, dt_pc = LoopTop\<rparr>"]
       exI [of _ "\<lparr>l_cancel = True, l_cancelled = False, l_type = lt, l_proto = ToUpper (u_scheme u),
         l_conn = None, l_err = None, l_errtime = 0\<rparr>"])
     (use assms in \<open>simp add: links_add_def Let_def set_link_def set_thread_def\<close>)

text \<open>
  C31. Adding a peer. A URI is accepted exactly when its scheme is known, every pinned key is
  hexadecimal, the priority is a number below 256, the password has at most 64 characters, the
  security policy is a known one, the backoff limit is a duration of at least five seconds, and the
  peer is not configured yet. Then there is a new link for it, whose goroutine is about to dial with
  the keys, password, priority and policy of the URI, and nothing else changes. A URI that is correct
  but configured already is refused as such, and if its goroutine is backing off it is woken up to dial at
  once, which is all that changes. Every other URI is refused and changes nothing at all.
\<close>

theorem add_peer:
  "(fst (links_add lib u sintf lt s) = None \<longleftrightarrow>
      \<not> isl (dialerFor u) \<and> peer_query_ok lib u \<and> linkInfo_for u sintf |\<notin>| fmdom (lk_links s))
   \<and> (fst (links_add lib u sintf lt s) = Some ErrLinkAlreadyConfigured \<longleftrightarrow>
      \<not> isl (dialerFor u) \<and> peer_query_ok lib u \<and> linkInfo_for u sintf |\<in>| fmdom (lk_links s))
   \<and> (case links_add lib u sintf lt s of
     (None, s') \<Rightarrow>
       (\<exists>opts t l. s' = s\<lparr>lk_links := fmupd (linkInfo_for u sintf) (lk_next s) (lk_links s), lk_next := Suc (lk_next s),
             lk_heap := fmupd (lk_next s) l (lk_heap s), lk_dialers := fmupd (lk_next s) t (lk_dialers s)\<rparr>
        \<and> l_type l = lt \<and> l_conn l = None \<and> \<not> l_cancelled l
        \<and> dt_pc t = LoopTop \<and> dt_backoff t = 0 \<and> dt_type t = lt \<and> dt_options t = opts \<and> dt_url t = u
        \<and> pinnedEd25519Keys opts = fset_of_list (map (\<lambda>h. array_of 32 (the (hex_decode h))) (query_values u ''key''))
        \<and> lo_password opts = ascii (query_Get u ''password'') \<and> 5 * second \<le> maxBackoff opts
        \<and> (query_Get u ''priority'' \<noteq> '''' \<longrightarrow> ParseUint 8 (query_Get u ''priority'') = Some (unat (lo_priority opts)))
        \<and> (requireSecure opts \<longleftrightarrow> query_Get u ''secure'' = ''required''))
   | (Some e, s') \<Rightarrow>
       if e = ErrLinkAlreadyConfigured
       then s' = (case fmlookup (lk_dialers s) (the (fmlookup (lk_links s) (linkInfo_for u sintf))) of
              Some t \<Rightarrow>
                if (\<exists>d. dt_pc t = BackingOff d)
                then s\<lparr>lk_dialers := fmupd (the (fmlookup (lk_links s) (linkInfo_for u sintf))) (t\<lparr>dt_pc := LoopTop\<rparr>) (lk_dialers s)\<rparr>
                else s
            | None \<Rightarrow> s)
       else s' = s)"
proof (cases "dialerFor u")
  case (Inl e)
  then show ?thesis by (auto simp: links_add_def dialerFor_def Let_def split: if_splits)
next
  case proto: (Inr proto)
  show ?thesis
  proof (cases "add_options lib u")
    case (Inl e)
    then have "\<not> peer_query_ok lib u" using add_options_iff [of lib u] by auto
    then show ?thesis using proto Inl add_options_not_configured [OF Inl] by (simp add: links_add_def)
  next
    case opts: (Inr opts)
    have ok: "peer_query_ok lib u" using add_options_iff [of lib u] opts by auto
    have back_off: "5 * second \<le> maxBackoff opts"
      using add_options_backoff [OF opts] by (auto simp: minimumBackoffLimit_def)
    show ?thesis
    proof (cases "fmlookup (lk_links s) (linkInfo_for u sintf)")
      case None
      then obtain t l where "links_add lib u sintf lt s = (None, s\<lparr>lk_links := fmupd (linkInfo_for u sintf) (lk_next s) (lk_links s),
          lk_next := Suc (lk_next s), lk_heap := fmupd (lk_next s) l (lk_heap s), lk_dialers := fmupd (lk_next s) t (lk_dialers s)\<rparr>)"
        "l_type l = lt" "l_conn l = None" "\<not> l_cancelled l"
        "dt_pc t = LoopTop" "dt_backoff t = 0" "dt_type t = lt" "dt_options t = opts" "dt_url t = u"
        using links_add_new [OF proto opts, of s sintf lt] by blast
      moreover have "linkInfo_for u sintf |\<notin>| fmdom (lk_links s)" using None by (simp add: fmdom_notI)
      ultimately show ?thesis
        using proto ok back_off add_options_values [OF opts] unfolding prod.case option.case
        by (simp, intro exI [of _ t] exI [of _ l]) simp
    next
      case (Some p)
      then have "links_add lib u sintf lt s = (Some ErrLinkAlreadyConfigured, kick p s)"
        using proto opts by (simp add: links_add_def Let_def)
      moreover have "linkInfo_for u sintf |\<in>| fmdom (lk_links s)" using Some by (rule fmdomI)
      ultimately show ?thesis using proto ok Some by (auto simp: kick_eq split: option.split)
    qed
  qed
qed

theorem add_peer_witness:
  "fst (links_add sample_lib sample_url '''' linkTypePersistent links_init) = None \<and> peer_query_ok sample_lib sample_url"
proof -
  have "fst (links_add sample_lib sample_url '''' linkTypePersistent links_init) = None"
    by (simp add: links_add_def sample_peer_add Let_def links_init_def)
  then show ?thesis using add_peer [of sample_lib sample_url "''''" linkTypePersistent links_init] by blast
qed

section \<open>Unhandled situations\<close>

text \<open>
  C32. The URI of an accepted link can be removed like that of a peer, but its link has no cancel
  function: removing it right after a connection with a URI that was not in the table is accepted is a
  nil call, whatever the state of the node.
\<close>

theorem remove_incoming_panics:
  assumes "fmlookup (lk_links s) (linkInfo_for (u\<lparr>u_host := remote\<rparr>) sintf) = None" "fresh_conn s c"
  shows "run_events (links_step lib) s [Accept u sintf remote c now, Remove (u\<lparr>u_host := remote\<rparr>) sintf] = Panic"
  using assms
  by (simp add: links_step_def incoming_accept_def incoming_state_def incoming_up_def links_remove_def set_link_def the_link_def Let_def)

theorem remove_incoming_panics_witness:
  "run_events (links_step sample_lib) links_init [Accept sample_url [] ''host:1'' 7 0, Remove (sample_url\<lparr>u_host := ''host:1''\<rparr>) []] = Panic"
  by (rule remove_incoming_panics) (simp_all add: links_init_def fresh_conn_def)

text \<open>
  C33. A second connection with the URI of an accepted link, as every client of a UNIX socket has it, is
  closed by its goroutine; but the clean-up of that goroutine takes the first connection, which lives
  on, out of the table.
\<close>

theorem duplicate_incoming_unlinks:
  assumes "fmlookup (lk_links s) (linkInfo_for (u\<lparr>u_host := remote\<rparr>) sintf) = None"
    "fresh_conn s c" "fresh_conn s c'" "c' \<noteq> c"
  shows "\<exists>s' outs. run_events (links_step lib) s
        [Accept u sintf remote c now, Accept u sintf remote c' now, IncomingDone c'] = Ok (s', outs)
    \<and> c |\<in>| lk_open s' \<and> c |\<in>| fmdom (lk_incoming s') \<and> c' |\<notin>| lk_open s' \<and> CloseConn c' \<in> set outs
    \<and> fmlookup (lk_links s') (linkInfo_for (u\<lparr>u_host := remote\<rparr>) sintf) = None"
  using assms
  by (simp add: links_step_def incoming_accept_def incoming_state_def incoming_up_def set_link_def the_link_def Let_def
        close_conn_def delete_if_def incoming_done_def fresh_conn_def)

theorem duplicate_incoming_unlinks_witness:
  "\<exists>s' outs. run_events (links_step sample_lib) links_init
      [Accept sample_url [] ''@'' 7 0, Accept sample_url [] ''@'' 8 0, IncomingDone 8] = Ok (s', outs)
    \<and> 7 |\<in>| lk_open s' \<and> 7 |\<in>| fmdom (lk_incoming s') \<and> 8 |\<notin>| lk_open s' \<and> CloseConn 8 \<in> set outs
    \<and> fmlookup (lk_links s') (linkInfo_for (sample_url\<lparr>u_host := ''@''\<rparr>) []) = None"
  by (rule duplicate_incoming_unlinks) (simp_all add: links_init_def fresh_conn_def)

text \<open>
  A listener whose options are refused stays open: its socket is not registered, so that not even the
  shutdown of the links closes it.
\<close>

theorem listen_leaks_socket:
  assumes "listenerFor u = Inr proto" "listen_options u = Inl e" "li |\<notin>| lk_listeners s"
  shows "fst (links_listen u (Inr li) s) = Inl e \<and> li |\<in>| lk_sockets (links_shutdown (snd (links_listen u (Inr li) s)))"
  using assms by (simp add: links_listen_def links_shutdown_def)

text \<open>
  An accepted connection with the URI of a configured peer takes the peer's link over: when it ends,
  the peer is out of the table, its next connection is never handled or closed, and its goroutine
  ends, so that the peer is lost.
\<close>

theorem crossed_connection_loses_peer:
  "\<exists>s outs. run_events (links_step sample_lib)
      (sample_links (sample_thread (BackingOff (Some (2 * second))) 1) sample_link)
      [Accept sample_url '''' (u_host sample_url) 7 0, IncomingDone 7, BackoffOver 0 True, LoopStep 0, DialUp 0 8 0] = Ok (s, outs)
    \<and> fmlookup (lk_links s) sample_info = None \<and> map_option dt_pc (fmlookup (lk_dialers s) 0) = Some Finished
    \<and> 8 |\<in>| lk_open s \<and> fmdom (lk_incoming s) = {||}"
proof -
  have info: "linkInfo_for sample_url '''' = sample_info" by (simp add: sample_info_def)
  have none: "ffilter (\<lambda>a. a \<noteq> 7) {|7 :: nat|} = {||}" by auto
  show ?thesis
    by (simp add: links_step_def sample_links_def sample_link_def sample_thread_def links_init_def incoming_accept_def
          incoming_state_def incoming_up_def incoming_done_def info none set_link_def set_thread_def the_link_def Let_def
          close_conn_def delete_if_def backoff_over_def dial_loop_def dial_up_def finish_dial_def ctx_done_def fmfilter_alt_defs
          fresh_conn_def)
qed

section \<open>Rates\<close>

text \<open>Between two updates, the rate is the number of bytes read or written, also when the counter wraps.\<close>

lemma rate_counts_bytes:
  "rxrate (update_rates (fold linkConn_Read ns (update_rates c))) = of_nat (sum_list ns)"
  "txrate (update_rates (fold linkConn_Write ns (update_rates c))) = of_nat (sum_list ns)"
proof -
  have r: "lc_rx (fold linkConn_Read ns d) = lc_rx d + of_nat (sum_list ns) \<and> lastrx (fold linkConn_Read ns d) = lastrx d" for d
    by (induction ns arbitrary: d) (auto simp: linkConn_Read_def algebra_simps)
  have w: "lc_tx (fold linkConn_Write ns d) = lc_tx d + of_nat (sum_list ns) \<and> lasttx (fold linkConn_Write ns d) = lasttx d" for d
    by (induction ns arbitrary: d) (auto simp: linkConn_Write_def algebra_simps)
  show "rxrate (update_rates (fold linkConn_Read ns (update_rates c))) = of_nat (sum_list ns)"
    "txrate (update_rates (fold linkConn_Write ns (update_rates c))) = of_nat (sum_list ns)"
    by (simp_all add: update_rates_def r w)
qed


end
