(* ===== verification/Multicast.thy ===== *)
theory Multicast
  imports Links Json "HOL-Library.Multiset"
begin

text \<open>
  Discovery of peers on the local network, \<^verbatim>\<open>src/multicast/\<close>: the beacon and its encoding, the choice of
  interfaces, the periodic announcement with its listeners, and the reaction to a received beacon,
  which calls the peer through the links. The operating system's interfaces, the opening of
  listeners and name resolution are arguments.
\<close>

section \<open>Advertisements\<close>

record multicastAdvertisement =
  MajorVersion :: u16
  MinorVersion :: u16
  PublicKey :: bytes
  Port :: u16
  Hash :: bytes

definition MarshalBinary :: "multicastAdvertisement \<Rightarrow> bytes" where
  "MarshalBinary m =
     be16 (MajorVersion m) @ be16 (MinorVersion m) @ PublicKey m @ be16 (Port m)
     @ be16 (of_nat (length (Hash m))) @ Hash m"

definition headerLen :: nat where "headerLen = publicKeySize + 8"

definition UnmarshalBinary :: "bytes \<Rightarrow> multicastAdvertisement option" where
  "UnmarshalBinary b =
     (if length b < headerLen then None
      else
        (let dl = unat (unbe 0 (take 2 (drop (6 + publicKeySize) b)) :: u16)
         in if length b < headerLen + dl then None
            else Some \<lparr>MajorVersion = unbe 0 (take 2 b), MinorVersion = unbe 0 (take 2 (drop 2 b)),
                       PublicKey = take publicKeySize (drop 4 b),
                       Port = unbe 0 (take 2 (drop (4 + publicKeySize) b)),
                       Hash = take dl (drop headerLen b)\<rparr>))"

section \<open>State\<close>

record multicastInterface =
  mi_Regex :: "string \<Rightarrow> bool"
  mi_Beacon :: bool
  mi_Listen :: bool
  mi_Port :: u16
  mi_Priority :: byte
  mi_Password :: string

text \<open>
  An interface of the system: its flags, and what asking for its addresses gives, each with the
  outcome of parsing it.
\<close>

record sys_iface =
  si_Name :: string
  FlagUp :: bool
  FlagRunning :: bool
  FlagMulticast :: bool
  FlagPointToPoint :: bool
  si_addrs :: "ip option list option"

record interfaceInfo =
  ii_iface :: sys_iface
  ii_addrs :: "ip list"
  ii_beacon :: bool
  ii_listen :: bool
  ii_port :: u16
  ii_priority :: byte
  ii_password :: bytes
  ii_hash :: bytes

record listenerInfo =
  ml_listener :: nat
  ml_addr :: "ip \<times> u16"
  ml_tcp6 :: bool
  ml_time :: nat
  ml_interval :: nat
  ml_port :: u16

datatype announce_timer = NoTimer | Pending | Fired

record multicast =
  mc_running :: bool
  mc_sock :: bool
  mc_listeners :: "(string, listenerInfo) fmap"
  mc_interfaces :: "(string, interfaceInfo) fmap"
  mc_timer :: announce_timer
  mc_groupAddr :: string
  mc_config :: "multicastInterface list"

datatype mc_option = OptInterface multicastInterface | OptGroupAddress string

definition mc_applyOption :: "mc_option \<Rightarrow> multicast \<Rightarrow> multicast" where
  "mc_applyOption opt m =
     (case opt of
        OptInterface v \<Rightarrow> m\<lparr>mc_config := mc_config m @ [v]\<rparr>
      | OptGroupAddress v \<Rightarrow> m\<lparr>mc_groupAddr := v\<rparr>)"

datatype mc_error = ErrAlreadyStarted | ErrResolve | ErrListenPacket

datatype mc_out =
    CancelListener nat
  | JoinGroup string
  | ListenLocal url string
  | SendBeacon bytes string
  | CloseSock
  | StartTimer

text \<open>\<open>resolves\<close>: the group address resolves; \<open>opens\<close>: the socket can be opened.\<close>

definition mc_start :: "bool \<Rightarrow> bool \<Rightarrow> multicast \<Rightarrow> mc_error option \<times> multicast" where
  "mc_start resolves opens m =
     (if mc_running m then (Some ErrAlreadyStarted, m)
      else if \<not> (\<exists>intf \<in> set (mc_config m). mi_Beacon intf \<or> mi_Listen intf) then (None, m\<lparr>mc_running := False\<rparr>)
      else if \<not> resolves then (Some ErrResolve, m\<lparr>mc_running := False\<rparr>)
      else if \<not> opens then (Some ErrListenPacket, m\<lparr>mc_running := False\<rparr>)
      else (None, m\<lparr>mc_running := True, mc_sock := True\<rparr>))"

definition mc_New :: "mc_option list \<Rightarrow> bool \<Rightarrow> bool \<Rightarrow> mc_error option \<times> multicast" where
  "mc_New opts resolves opens =
     mc_start resolves opens
       (fold mc_applyOption opts
          \<lparr>mc_running = False, mc_sock = False, mc_listeners = fmempty, mc_interfaces = fmempty, mc_timer = NoTimer,
           mc_groupAddr = ''[ff02::114]:9001'', mc_config = []\<rparr>)"

definition mc_stop :: "multicast \<Rightarrow> multicast \<times> mc_out list" where
  "mc_stop m =
     (if \<not> mc_running m then (m, [])
      else (m\<lparr>mc_running := False, mc_sock := False\<rparr>, if mc_sock m then [CloseSock] else []))"

section \<open>Interfaces\<close>

text \<open>
  The orders in which the maps of the module are walked: the configuration, anew for each interface,
  the listeners, and the interfaces. An order is a permutation of what is walked.
\<close>

record mc_orders =
  config_order :: "string \<Rightarrow> multicastInterface list \<Rightarrow> multicastInterface list"
  listener_order :: "string fset \<Rightarrow> string list"
  interface_order :: "string fset \<Rightarrow> string list"

definition mc_orders_ok :: "mc_orders \<Rightarrow> bool" where
  "mc_orders_ok ord \<longleftrightarrow>
     (\<forall>name cfgs. mset (config_order ord name cfgs) = mset cfgs)
     \<and> (\<forall>names. set (listener_order ord names) = fset names \<and> distinct (listener_order ord names))
     \<and> (\<forall>names. set (interface_order ord names) = fset names \<and> distinct (interface_order ord names))"

definition usable :: "sys_iface \<Rightarrow> bool" where
  "usable iface \<longleftrightarrow> FlagUp iface \<and> FlagRunning iface \<and> FlagMulticast iface \<and> \<not> FlagPointToPoint iface"

text \<open>
  The first configuration entry, in the order in which the map is walked, that applies to the
  interface and whose password can be hashed with the node's key.
\<close>

fun match_iface :: "blake2b \<Rightarrow> bytes \<Rightarrow> sys_iface \<Rightarrow> multicastInterface list \<Rightarrow> interfaceInfo option" where
  "match_iface bl pk iface [] = None"
| "match_iface bl pk iface (ifcfg # cfgs) =
     (if \<not> mi_Beacon ifcfg \<and> \<not> mi_Listen ifcfg then match_iface bl pk iface cfgs
      else if \<not> mi_Regex ifcfg (si_Name iface) then match_iface bl pk iface cfgs
      else case bl (ascii (mi_Password ifcfg)) pk of
             None \<Rightarrow> match_iface bl pk iface cfgs
           | Some h \<Rightarrow>
               if length pk \<noteq> publicKeySize then match_iface bl pk iface cfgs
               else Some \<lparr>ii_iface = iface, ii_addrs = [], ii_beacon = mi_Beacon ifcfg, ii_listen = mi_Listen ifcfg,
                          ii_port = mi_Port ifcfg, ii_priority = mi_Priority ifcfg,
                          ii_password = ascii (mi_Password ifcfg), ii_hash = h\<rparr>)"

fun allowed_ifaces ::
  "mc_orders \<Rightarrow> blake2b \<Rightarrow> bytes \<Rightarrow> multicastInterface list \<Rightarrow> sys_iface list
     \<Rightarrow> (string, interfaceInfo) fmap \<Rightarrow> (string, interfaceInfo) fmap" where
  "allowed_ifaces ord bl pk cfgs [] acc = acc"
| "allowed_ifaces ord bl pk cfgs (iface # ifaces) acc =
     (if \<not> usable iface then allowed_ifaces ord bl pk cfgs ifaces acc
      else case match_iface bl pk iface (config_order ord (si_Name iface) cfgs) of
             None \<Rightarrow> allowed_ifaces ord bl pk cfgs ifaces acc
           | Some info \<Rightarrow> allowed_ifaces ord bl pk cfgs ifaces (fmupd (si_Name iface) info acc))"

definition getAllowedInterfaces ::
  "mc_orders \<Rightarrow> blake2b \<Rightarrow> bytes \<Rightarrow> sys_iface list option \<Rightarrow> multicast \<Rightarrow> (string, interfaceInfo) fmap" where
  "getAllowedInterfaces ord bl pk ifaces m =
     (case ifaces of None \<Rightarrow> fmempty | Some allifaces \<Rightarrow> allowed_ifaces ord bl pk (mc_config m) allifaces fmempty)"

definition link_local6 :: "ip \<Rightarrow> bool" where
  "link_local6 ip \<longleftrightarrow> To4 ip = None \<and> IsLinkLocalUnicast ip"

fun link_local_addrs :: "ip option list \<Rightarrow> ip list" where
  "link_local_addrs [] = []"
| "link_local_addrs (None # addrs) = link_local_addrs addrs"
| "link_local_addrs (Some ip # addrs) = (if link_local6 ip then ip # link_local_addrs addrs else link_local_addrs addrs)"

definition updateInterfaces :: "mc_orders \<Rightarrow> blake2b \<Rightarrow> bytes \<Rightarrow> sys_iface list option \<Rightarrow> multicast \<Rightarrow> multicast" where
  "updateInterfaces ord bl pk ifaces m =
     m\<lparr>mc_interfaces :=
        fmmap (\<lambda>info. info\<lparr>ii_addrs := ii_addrs info @ link_local_addrs (the (si_addrs (ii_iface info)))\<rparr>)
          (fmfilter (\<lambda>name. si_addrs (ii_iface (the (fmlookup (getAllowedInterfaces ord bl pk ifaces m) name))) \<noteq> None)
             (getAllowedInterfaces ord bl pk ifaces m))\<rparr>"

section \<open>Announcements\<close>

text \<open>The URLs of listeners and calls: a query as \<^verbatim>\<open>url.Values.Encode\<close> writes it, in the order of the keys.\<close>

definition unreserved :: "char \<Rightarrow> bool" where
  "unreserved c \<longleftrightarrow>
     (let n = of_char c :: nat
      in 48 \<le> n \<and> n \<le> 57 \<or> 65 \<le> n \<and> n \<le> 90 \<or> 97 \<le> n \<and> n \<le> 122 \<or> n \<in> {45, 46, 95, 126})"

definition QueryEscape :: "string \<Rightarrow> string" where
  "QueryEscape s =
     concat (map (\<lambda>c. if unreserved c then [c]
                      else if c = CHR '' '' then ''+''
                      else ''%'' @ ToUpper (hex_encode [of_nat (of_char c)])) s)"

fun values_Encode :: "(string \<times> string) list \<Rightarrow> string" where
  "values_Encode [] = []"
| "values_Encode [(k, v)] = QueryEscape k @ ''='' @ QueryEscape v"
| "values_Encode ((k, v) # kv # kvs) = QueryEscape k @ ''='' @ QueryEscape v @ ''&'' @ values_Encode (kv # kvs)"

definition tls_url :: "string \<Rightarrow> (string \<times> string) list \<Rightarrow> url" where
  "tls_url host kvs =
     \<lparr>u_scheme = ''tls'', u_userinfo = [], u_user = None, u_host = host, u_path = [],
      u_rawquery = values_Encode kvs, u_query = kvs\<rparr>"

definition chars :: "bytes \<Rightarrow> string" where
  "chars bs = map (\<lambda>b. char_of (unat b)) bs"

definition listener_url :: "(ip \<Rightarrow> string) \<Rightarrow> interfaceInfo \<Rightarrow> ip \<Rightarrow> url" where
  "listener_url ip_string info addrIP =
     tls_url (JoinHostPort (ip_string addrIP) (show_nat (unat (ii_port info))))
       [(''password'', chars (ii_password info)), (''priority'', show_nat (unat (ii_priority info)))]"

text \<open>A listener is stopped when its interface is gone or its address no longer belongs to it.\<close>

definition listener_stays :: "(string, interfaceInfo) fmap \<Rightarrow> string \<Rightarrow> listenerInfo \<Rightarrow> bool" where
  "listener_stays interfaces name info \<longleftrightarrow>
     (case fmlookup interfaces name of
        None \<Rightarrow> False
      | Some ii \<Rightarrow>
          ml_tcp6 info \<and> (\<exists>addr \<in> set (ii_addrs ii). ip_Equal addr (fst (ml_addr info))))"

definition stop_listeners :: "mc_orders \<Rightarrow> multicast \<Rightarrow> multicast \<times> mc_out list" where
  "stop_listeners ord m =
     (let stays = (\<lambda>name. listener_stays (mc_interfaces m) name (the (fmlookup (mc_listeners m) name)));
          gone = filter (\<lambda>name. \<not> stays name) (listener_order ord (fmdom (mc_listeners m)))
      in (m\<lparr>mc_listeners := fmfilter stays (mc_listeners m)\<rparr>,
          map (\<lambda>name. CancelListener (ml_listener (the (fmlookup (mc_listeners m) name)))) gone))"

definition second_ns :: nat where "second_ns = 1000000000"

definition advertisement :: "bytes \<Rightarrow> interfaceInfo \<Rightarrow> u16 \<Rightarrow> multicastAdvertisement" where
  "advertisement pk info port =
     \<lparr>MajorVersion = ProtocolVersionMajor, MinorVersion = ProtocolVersionMinor, PublicKey = pk, Port = port,
      Hash = ii_hash info\<rparr>"

text \<open>
  The listener of an interface, opened if there is none. \<open>open_listener\<close> is the outcome of opening a
  listener: its number, its address, and whether the text of that address resolves again.
\<close>

definition find_listener ::
  "(ip \<Rightarrow> string) \<Rightarrow> (url \<Rightarrow> string \<Rightarrow> (nat \<times> (ip \<times> u16) \<times> bool) option) \<Rightarrow> nat \<Rightarrow> interfaceInfo \<Rightarrow> ip
     \<Rightarrow> (string, listenerInfo) fmap \<Rightarrow> listenerInfo option \<times> (string, listenerInfo) fmap \<times> mc_out list" where
  "find_listener ip_string open_listener now info addrIP ls =
     (let name = si_Name (ii_iface info)
      in case fmlookup ls name of
           Some linfo \<Rightarrow> (Some linfo, ls, [])
         | None \<Rightarrow>
             (let u = listener_url ip_string info addrIP
              in case open_listener u name of
                   None \<Rightarrow> (None, ls, [ListenLocal u name])
                 | Some (li, addr, tcp6) \<Rightarrow>
                     (let l = \<lparr>ml_listener = li, ml_addr = addr, ml_tcp6 = tcp6, ml_time = now, ml_interval = 0,
                               ml_port = ii_port info\<rparr>
                      in (Some l, fmupd name l ls, [ListenLocal u name]))))"

definition send_beacon ::
  "bytes \<Rightarrow> nat \<Rightarrow> interfaceInfo \<Rightarrow> listenerInfo \<Rightarrow> (string, listenerInfo) fmap \<Rightarrow> (string, listenerInfo) fmap \<times> mc_out list" where
  "send_beacon pk now info l ls =
     (let msg = MarshalBinary (advertisement pk info (snd (ml_addr l)));
          interval = (if ml_interval l < 15 * second_ns then ml_interval l + second_ns else ml_interval l)
      in (fmupd (si_Name (ii_iface info)) (l\<lparr>ml_interval := interval, ml_time := now\<rparr>) ls,
          [SendBeacon msg (si_Name (ii_iface info))]))"

text \<open>The announcement on one interface, address by address.\<close>

fun announce_addrs ::
  "(ip \<Rightarrow> string) \<Rightarrow> bytes \<Rightarrow> (url \<Rightarrow> string \<Rightarrow> (nat \<times> (ip \<times> u16) \<times> bool) option) \<Rightarrow> nat \<Rightarrow> interfaceInfo \<Rightarrow> ip list
     \<Rightarrow> (string, listenerInfo) fmap \<Rightarrow> (string, listenerInfo) fmap \<times> mc_out list" where
  "announce_addrs ip_string pk open_listener now info [] ls = (ls, [])"
| "announce_addrs ip_string pk open_listener now info (addrIP # addrs) ls =
     (if \<not> link_local6 addrIP then announce_addrs ip_string pk open_listener now info addrs ls
      else
        (let joined = (if ii_listen info then [JoinGroup (si_Name (ii_iface info))] else [])
         in if \<not> ii_beacon info then (ls, joined)
            else
              (let (linfo, ls, opened) = find_listener ip_string open_listener now info addrIP ls;
                   (ls, outs) = (case linfo of
                      None \<Rightarrow> announce_addrs ip_string pk open_listener now info addrs ls
                    | Some l \<Rightarrow>
                        if now - ml_time l < ml_interval l
                        then announce_addrs ip_string pk open_listener now info addrs ls
                        else send_beacon pk now info l ls)
               in (ls, joined @ opened @ outs))))"

fun announce_ifaces ::
  "(ip \<Rightarrow> string) \<Rightarrow> bytes \<Rightarrow> (url \<Rightarrow> string \<Rightarrow> (nat \<times> (ip \<times> u16) \<times> bool) option) \<Rightarrow> nat \<Rightarrow> interfaceInfo list
     \<Rightarrow> (string, listenerInfo) fmap \<Rightarrow> (string, listenerInfo) fmap \<times> mc_out list" where
  "announce_ifaces ip_string pk open_listener now [] ls = (ls, [])"
| "announce_ifaces ip_string pk open_listener now (info # infos) ls =
     (let (ls, outs) = announce_addrs ip_string pk open_listener now info (ii_addrs info) ls;
          (ls, outs') = announce_ifaces ip_string pk open_listener now infos ls
      in (ls, outs @ outs'))"

definition announce ::
  "mc_orders \<Rightarrow> blake2b \<Rightarrow> (ip \<Rightarrow> string) \<Rightarrow> bytes \<Rightarrow> (url \<Rightarrow> string \<Rightarrow> (nat \<times> (ip \<times> u16) \<times> bool) option) \<Rightarrow> bool \<Rightarrow> nat \<Rightarrow> sys_iface list option
     \<Rightarrow> multicast \<Rightarrow> (multicast \<times> mc_out list) go" where
  "announce ord bl ip_string pk open_listener resolves now ifaces m =
     (if \<not> mc_running m then Ok (m, [])
      else
        (let m = updateInterfaces ord bl pk ifaces m
         in if \<not> resolves then Panic
            else
              (let (m, stopped) = stop_listeners ord m;
                   infos = map (\<lambda>name. the (fmlookup (mc_interfaces m) name)) (interface_order ord (fmdom (mc_interfaces m)));
                   (ls, outs) = announce_ifaces ip_string pk open_listener now infos (mc_listeners m)
               in Ok (m\<lparr>mc_listeners := ls, mc_timer := Pending\<rparr>, stopped @ outs @ [StartTimer]))))"

text \<open>
  \<^verbatim>\<open>AnnounceNow\<close> receives from the channel of the timer when it cannot stop it. A timer made by
  \<^verbatim>\<open>AfterFunc\<close> has no channel, and a receive from it never returns: the result \<open>None\<close>.
\<close>

definition AnnounceNow :: "multicast \<Rightarrow> multicast option" where
  "AnnounceNow m =
     (case mc_timer m of
        NoTimer \<Rightarrow> Some m
      | Pending \<Rightarrow> Some (m\<lparr>mc_timer := Fired\<rparr>)
      | Fired \<Rightarrow> None)"

section \<open>Received beacons\<close>

text \<open>
  A datagram: its destination, where the system reports it; the sender's address and zone, or \<open>None\<close>
  when it is not a UDP address; and its bytes.
\<close>

record datagram =
  dg_dst :: "ip option"
  dg_from :: "(ip \<times> string) option"
  dg_bytes :: bytes

definition call_url :: "(ip \<Rightarrow> string) \<Rightarrow> ip \<Rightarrow> string \<Rightarrow> interfaceInfo \<Rightarrow> multicastAdvertisement \<Rightarrow> url" where
  "call_url ip_string ip zone info adv =
     tls_url (JoinHostPort (ip_string ip @ (if zone = [] then [] else ''%'' @ zone)) (show_nat (unat (Port adv))))
       [(''key'', hex_encode (PublicKey adv)), (''password'', chars (ii_password info)),
        (''priority'', show_nat (unat (ii_priority info)))]"

definition mc_listen ::
  "blake2b \<Rightarrow> (ip \<Rightarrow> string) \<Rightarrow> ip \<Rightarrow> bytes \<Rightarrow> (string, interfaceInfo) fmap \<Rightarrow> datagram \<Rightarrow> (url \<times> string) option" where
  "mc_listen bl ip_string groupAddr pk interfaces dg =
     (if (case dg_dst dg of None \<Rightarrow> False | Some dst \<Rightarrow> \<not> IsLinkLocalMulticast dst \<or> \<not> ip_Equal dst groupAddr) then None
      else case UnmarshalBinary (dg_bytes dg) of
             None \<Rightarrow> None
           | Some adv \<Rightarrow>
               if MajorVersion adv \<noteq> ProtocolVersionMajor \<or> MinorVersion adv \<noteq> ProtocolVersionMinor \<or> PublicKey adv = pk
               then None
               else
                 (case dg_from dg of
                    None \<Rightarrow> None
                  | Some (ip, zone) \<Rightarrow>
                      (case fmlookup interfaces zone of
                         None \<Rightarrow> None
                       | Some info \<Rightarrow>
                           if \<not> ii_listen info then None
                           else
                             (case bl (ii_password info) (PublicKey adv) of
                                None \<Rightarrow> None
                              | Some h \<Rightarrow>
                                  if length (PublicKey adv) \<noteq> publicKeySize \<or> h \<noteq> Hash adv then None
                                  else Some (call_url ip_string ip zone info adv, zone)))))"

section \<open>Admin view\<close>

record multicastInterfaceState =
  ms_Name :: string
  ms_Address :: "(ip \<times> u16) option"
  ms_Beacon :: bool
  ms_Listen :: bool
  ms_Password :: bool

text \<open>The address is \<open>None\<close> where the code writes a dash.\<close>

definition interface_state :: "multicast \<Rightarrow> string \<Rightarrow> multicastInterfaceState" where
  "interface_state m name =
     (let intf = the (fmlookup (mc_interfaces m) name)
      in \<lparr>ms_Name = si_Name (ii_iface intf), ms_Address = map_option ml_addr (fmlookup (mc_listeners m) name),
          ms_Beacon = ii_beacon intf, ms_Listen = ii_listen intf, ms_Password = (ii_password intf \<noteq> [])\<rparr>)"

definition getMulticastInterfaces :: "string list \<Rightarrow> multicast \<Rightarrow> multicastInterfaceState list" where
  "getMulticastInterfaces order m = sort_key ms_Name (map (interface_state m) order)"

section \<open>The beacon encoding\<close>

lemma unmarshal_marshal:
  assumes "length (PublicKey a) = 32" "length (Hash a) < 2 ^ 16"
  shows "UnmarshalBinary (MarshalBinary a @ rest) = Some a"
proof -
  define b where "b = MarshalBinary a @ rest"
  have parts: "take 2 b = be16 (MajorVersion a)" "take 2 (drop 2 b) = be16 (MinorVersion a)" "take 32 (drop 4 b) = PublicKey a"
    "take 2 (drop 36 b) = be16 (Port a)" "take 2 (drop 38 b) = be16 (of_nat (length (Hash a)))" "drop 40 b = Hash a @ rest"
    using assms(1) by (simp_all add: b_def MarshalBinary_def)
  have dl: "unat (of_nat (length (Hash a)) :: u16) = length (Hash a)"
    using assms(2) by (simp add: unat_of_nat)
  have len: "length b = 40 + length (Hash a) + length rest" using assms(1) by (simp add: b_def MarshalBinary_def)
  have "UnmarshalBinary b = Some a"
    unfolding UnmarshalBinary_def headerLen_def publicKeySize_def using parts dl len by (simp add: Let_def)
  then show ?thesis by (simp add: b_def)
qed

lemma ascii_chars [simp]: "ascii (chars bs) = bs"
proof -
  have "of_nat (of_char (char_of (unat b) :: char)) = b" for b :: byte
  proof -
    have "unat b < 2 ^ LENGTH(8)" by (rule unsigned_less)
    then show ?thesis by simp
  qed
  then show ?thesis by (simp add: ascii_def chars_def map_idI)
qed

lemma length_chars [simp]: "length (chars bs) = length bs"
  by (simp add: chars_def)

section \<open>From beacon to peering\<close>

lemma call_url_options:
  assumes "length (PublicKey adv) = 32" "length (ii_password info) \<le> 64"
  shows "\<exists>opts. dialerFor (call_url ip_string ip zone info adv) = Inr linkTLS
    \<and> add_options lib (call_url ip_string ip zone info adv) = Inr opts
    \<and> pinnedEd25519Keys opts = {|PublicKey adv|} \<and> lo_password opts = ii_password info
    \<and> lo_priority opts = ii_priority info \<and> \<not> requireSecure opts"
proof -
  define u where "u = call_url ip_string ip zone info adv"
  have q: "u_query u = [(''key'', hex_encode (PublicKey adv)), (''password'', chars (ii_password info)),
      (''priority'', show_nat (unat (ii_priority info)))]" "u_scheme u = ''tls''"
    by (simp_all add: u_def call_url_def tls_url_def)
  have "unat (ii_priority info) < 2 ^ 8" using unsigned_less [of "ii_priority info"] by simp
  then have prio: "priority_option u = Inr (ii_priority info)"
    by (simp add: priority_option_def query_Get_def query_values_def q)
  have pw: "password_option u = Inr (ii_password info)"
  proof (cases "ii_password info = []")
    case True
    then show ?thesis by (simp add: password_option_def query_Get_def query_values_def q chars_def)
  next
    case False
    then have "chars (ii_password info) \<noteq> []" by (simp add: chars_def)
    then show ?thesis using assms(2) by (simp add: password_option_def query_Get_def query_values_def q blake2b_Size_def)
  qed
  have key: "pinned_keys {||} (query_values u ''key'') = Inr {|PublicKey adv|}"
    using assms(1) by (simp add: query_values_def q array_of_def)
  have rest: "secure_option u = Inr False" "backoff_option lib u = Inr defaultBackoffLimit"
    by (simp_all add: secure_option_def backoff_option_def query_Get_def query_values_def q)
  have "dialerFor u = Inr linkTLS" by (simp add: dialerFor_def q ToLower_def lower_char_def)
  then show ?thesis using prio pw key rest by (simp add: add_options_def u_def [symmetric])
qed

lemma mc_listen_Some:
  assumes "mc_listen bl ip_string groupAddr pk interfaces dg = Some (u, zone)"
  shows "\<exists>adv info ip. UnmarshalBinary (dg_bytes dg) = Some adv \<and> fmlookup interfaces zone = Some info \<and> ii_listen info
    \<and> dg_from dg = Some (ip, zone) \<and> length (PublicKey adv) = 32 \<and> PublicKey adv \<noteq> pk
    \<and> MajorVersion adv = ProtocolVersionMajor \<and> MinorVersion adv = ProtocolVersionMinor
    \<and> bl (ii_password info) (PublicKey adv) = Some (Hash adv) \<and> u = call_url ip_string ip zone info adv"
  using assms by (auto simp: mc_listen_def publicKeySize_def split: if_splits option.splits)

text \<open>
  C34. A received beacon leads to a call only if it is of the node's protocol version, comes from
  another key over an interface the node listens on, and carries the hash of that key under the
  interface's password, so that a sender who does not know the password is not called. The call is
  then made over TLS on that interface, and the links accept it with options that pin exactly the
  advertised key and carry the interface's password and priority.
\<close>

theorem beacon_call_pinned:
  assumes "blake_laws bl" "mc_listen bl ip_string groupAddr pk interfaces dg = Some (u, zone)"
  shows "\<exists>adv info opts. UnmarshalBinary (dg_bytes dg) = Some adv \<and> fmlookup interfaces zone = Some info \<and> ii_listen info
    \<and> PublicKey adv \<noteq> pk \<and> MajorVersion adv = ProtocolVersionMajor \<and> MinorVersion adv = ProtocolVersionMinor
    \<and> bl (ii_password info) (PublicKey adv) = Some (Hash adv)
    \<and> dialerFor u = Inr linkTLS \<and> add_options lib u = Inr opts
    \<and> pinnedEd25519Keys opts = {|PublicKey adv|} \<and> lo_password opts = ii_password info \<and> lo_priority opts = ii_priority info
    \<and> (fmlookup (lk_links s) (linkInfo_for u zone) = None \<longrightarrow> fst (links_add lib u zone linkTypeEphemeral s) = None)"
proof -
  obtain adv info ip where a: "UnmarshalBinary (dg_bytes dg) = Some adv" "fmlookup interfaces zone = Some info" "ii_listen info"
    "length (PublicKey adv) = 32" "PublicKey adv \<noteq> pk" "MajorVersion adv = ProtocolVersionMajor"
    "MinorVersion adv = ProtocolVersionMinor" "bl (ii_password info) (PublicKey adv) = Some (Hash adv)"
    "u = call_url ip_string ip zone info adv"
    using mc_listen_Some [OF assms(2)] by blast
  have "length (ii_password info) \<le> 64"
  proof (rule ccontr)
    assume "\<not> length (ii_password info) \<le> 64"
    then have "bl (ii_password info) (PublicKey adv) = None" using assms(1) by (simp add: blake_laws_def)
    then show False using a(8) by simp
  qed
  from call_url_options [OF a(4) this, of ip_string ip zone lib] obtain opts where o:
    "dialerFor u = Inr linkTLS" "add_options lib u = Inr opts" "pinnedEd25519Keys opts = {|PublicKey adv|}"
    "lo_password opts = ii_password info" "lo_priority opts = ii_priority info" unfolding a(9) by blast
  have "fmlookup (lk_links s) (linkInfo_for u zone) = None \<longrightarrow> fst (links_add lib u zone linkTypeEphemeral s) = None"
    using o(1,2) by (simp add: links_add_def Let_def)
  then show ?thesis using a(1-3,5-8) o by (intro exI [of _ adv] exI [of _ info] exI [of _ opts]) simp
qed


definition sample_ii :: interfaceInfo where
  "sample_ii = \<lparr>ii_iface = \<lparr>si_Name = ''eth0'', FlagUp = True, FlagRunning = True, FlagMulticast = True,
     FlagPointToPoint = False, si_addrs = Some []\<rparr>, ii_addrs = [], ii_beacon = True, ii_listen = True, ii_port = 0,
     ii_priority = 3, ii_password = [], ii_hash = []\<rparr>"

definition sample_beacon :: datagram where
  "sample_beacon = \<lparr>dg_dst = None, dg_from = Some (0xfe # 0x80 # replicate 14 0, ''eth0''),
     dg_bytes = MarshalBinary \<lparr>MajorVersion = ProtocolVersionMajor, MinorVersion = ProtocolVersionMinor,
       PublicKey = replicate 32 9, Port = 5, Hash = array_of 64 [] @ replicate 32 9\<rparr>\<rparr>"

lemma sample_beacon_call:
  "\<exists>u. mc_listen sample_bl (\<lambda>_. ''fe80::'') [] (replicate 32 1) (fmupd ''eth0'' sample_ii fmempty) sample_beacon = Some (u, ''eth0'')"
proof -
  have "UnmarshalBinary (dg_bytes sample_beacon) = Some \<lparr>MajorVersion = ProtocolVersionMajor, MinorVersion = ProtocolVersionMinor,
       PublicKey = replicate 32 9, Port = 5, Hash = array_of 64 [] @ replicate 32 9\<rparr>"
    using unmarshal_marshal [of "\<lparr>MajorVersion = ProtocolVersionMajor, MinorVersion = ProtocolVersionMinor,
       PublicKey = replicate 32 9, Port = 5, Hash = array_of 64 [] @ replicate 32 9\<rparr>" "[]"]
    by (simp add: sample_beacon_def)
  moreover have "replicate 32 9 \<noteq> (replicate 32 1 :: bytes)" by simp
  ultimately show ?thesis by (simp add: mc_listen_def sample_beacon_def sample_ii_def sample_bl_def publicKeySize_def)
qed

theorem beacon_call_pinned_witness:
  "\<exists>u adv opts. mc_listen sample_bl (\<lambda>_. ''fe80::'') [] (replicate 32 1) (fmupd ''eth0'' sample_ii fmempty) sample_beacon = Some (u, ''eth0'')
     \<and> UnmarshalBinary (dg_bytes sample_beacon) = Some adv
     \<and> add_options sample_lib u = Inr opts \<and> pinnedEd25519Keys opts = {|PublicKey adv|}"
proof -
  obtain u where u: "mc_listen sample_bl (\<lambda>_. ''fe80::'') [] (replicate 32 1) (fmupd ''eth0'' sample_ii fmempty) sample_beacon = Some (u, ''eth0'')"
    using sample_beacon_call by blast
  show ?thesis using u beacon_call_pinned [OF sample_bl_laws u, of sample_lib links_init] by blast
qed

section \<open>Announcements\<close>

text \<open>The time between beacons is a whole number of seconds, fifteen at most.\<close>

definition whole_seconds :: "nat \<Rightarrow> bool" where
  "whole_seconds i \<longleftrightarrow> (\<exists>k \<le> 15. i = k * second_ns)"

lemma whole_seconds_0 [simp]: "whole_seconds 0"
  unfolding whole_seconds_def by (intro exI [of _ 0]) simp

lemma whole_seconds_next:
  assumes "whole_seconds i"
  shows "whole_seconds (if i < 15 * second_ns then i + second_ns else i)"
proof -
  obtain k where k: "k \<le> 15" "i = k * second_ns" using assms unfolding whole_seconds_def by blast
  show ?thesis
  proof (cases "k < 15")
    case True
    then have "(if i < 15 * second_ns then i + second_ns else i) = Suc k * second_ns" using k by (simp add: second_ns_def)
    then show ?thesis using True Suc_leI unfolding whole_seconds_def by blast
  next
    case False
    then have "(if i < 15 * second_ns then i + second_ns else i) = i" using k by simp
    then show ?thesis using assms by simp
  qed
qed

definition listeners_ok :: "(string, listenerInfo) fmap \<Rightarrow> bool" where
  "listeners_ok ls \<longleftrightarrow> (\<forall>name l. fmlookup ls name = Some l \<longrightarrow> whole_seconds (ml_interval l))"

text \<open>What the announcement on an interface does to the listeners, and what it may send.\<close>

definition announced :: "(ip \<Rightarrow> string) \<Rightarrow> bytes \<Rightarrow> interfaceInfo \<Rightarrow> mc_out \<Rightarrow> bool" where
  "announced ip_string pk info x \<longleftrightarrow>
     x = JoinGroup (si_Name (ii_iface info)) \<and> ii_listen info
     \<or> (\<exists>ip. link_local6 ip \<and> ii_beacon info \<and> x = ListenLocal (listener_url ip_string info ip) (si_Name (ii_iface info)))
     \<or> (\<exists>port. ii_beacon info \<and> x = SendBeacon (MarshalBinary (advertisement pk info port)) (si_Name (ii_iface info)))"

lemma find_listener_spec:
  assumes "find_listener ips opn now info ip ls = (r, ls', outs)"
  shows "fmlookup ls' (si_Name (ii_iface info)) = r" "n \<noteq> si_Name (ii_iface info) \<Longrightarrow> fmlookup ls' n = fmlookup ls n"
    "listeners_ok ls \<Longrightarrow> listeners_ok ls'"
    "x \<in> set outs \<Longrightarrow> x = ListenLocal (listener_url ips info ip) (si_Name (ii_iface info))"
  using assms by (auto simp: find_listener_def Let_def listeners_ok_def split: option.splits if_splits)

lemma send_beacon_spec:
  assumes "send_beacon pk now info l ls = (ls', outs)" "fmlookup ls (si_Name (ii_iface info)) = Some l"
  shows "n \<noteq> si_Name (ii_iface info) \<Longrightarrow> fmlookup ls' n = fmlookup ls n" "listeners_ok ls \<Longrightarrow> listeners_ok ls'"
    "x \<in> set outs \<Longrightarrow> x = SendBeacon (MarshalBinary (advertisement pk info (snd (ml_addr l)))) (si_Name (ii_iface info))"
proof -
  show "n \<noteq> si_Name (ii_iface info) \<Longrightarrow> fmlookup ls' n = fmlookup ls n"
    "x \<in> set outs \<Longrightarrow> x = SendBeacon (MarshalBinary (advertisement pk info (snd (ml_addr l)))) (si_Name (ii_iface info))"
    using assms by (auto simp: send_beacon_def Let_def)
  show "listeners_ok ls \<Longrightarrow> listeners_ok ls'"
    using assms whole_seconds_next [of "ml_interval l"] unfolding listeners_ok_def send_beacon_def Let_def
    by (auto split: if_splits)
qed

lemma announce_addrs_spec:
  assumes "announce_addrs ips pk opn now info addrs ls = (ls', outs)"
  shows "(\<forall>n. n \<noteq> si_Name (ii_iface info) \<longrightarrow> fmlookup ls' n = fmlookup ls n)
    \<and> (listeners_ok ls \<longrightarrow> listeners_ok ls') \<and> (\<forall>x \<in> set outs. announced ips pk info x)"
  using assms
proof (induction addrs arbitrary: ls ls' outs)
  case (Cons ip addrs)
  show ?case
  proof (cases "link_local6 ip \<and> ii_beacon info")
    case False
    then show ?thesis using Cons by (auto simp: announced_def Let_def split: if_splits)
  next
    case True
    obtain r ls1 o1 where f: "find_listener ips opn now info ip ls = (r, ls1, o1)" by (rule prod_cases3)
    define rest where "rest = (case r of None \<Rightarrow> announce_addrs ips pk opn now info addrs ls1
      | Some l \<Rightarrow> if now - ml_time l < ml_interval l then announce_addrs ips pk opn now info addrs ls1 else send_beacon pk now info l ls1)"
    obtain ls2 o2 where r: "rest = (ls2, o2)" by (rule prod.exhaust)
    have eq: "ls' = ls2" "outs = (if ii_listen info then [JoinGroup (si_Name (ii_iface info))] else []) @ o1 @ o2"
      using Cons.prems True f r by (auto simp: rest_def [symmetric] Let_def)
    have "(\<forall>n. n \<noteq> si_Name (ii_iface info) \<longrightarrow> fmlookup ls2 n = fmlookup ls1 n)
        \<and> (listeners_ok ls1 \<longrightarrow> listeners_ok ls2) \<and> (\<forall>x \<in> set o2. announced ips pk info x)"
    proof (cases "announce_addrs ips pk opn now info addrs ls1 = (ls2, o2)")
      case True
      then show ?thesis by (rule Cons.IH)
    next
      case False
      then obtain l where "r = Some l" "send_beacon pk now info l ls1 = (ls2, o2)"
        using r unfolding rest_def by (auto split: option.splits if_splits)
      moreover have "fmlookup ls1 (si_Name (ii_iface info)) = Some l" using find_listener_spec(1) [OF f] \<open>r = Some l\<close> by simp
      ultimately show ?thesis using send_beacon_spec [of pk now info l ls1 ls2 o2] True unfolding announced_def by blast
    qed
    moreover have "announced ips pk info x" if "x \<in> set o1" for x
      using find_listener_spec(4) [OF f that] True unfolding announced_def by blast
    moreover have "announced ips pk info (JoinGroup (si_Name (ii_iface info)))" if "ii_listen info"
      using that unfolding announced_def by blast
    ultimately show ?thesis using find_listener_spec(2,3) [OF f] unfolding eq by auto
  qed
qed auto

lemma announce_ifaces_spec:
  assumes "announce_ifaces ips pk opn now infos ls = (ls', outs)"
  shows "(\<forall>n. n \<notin> (\<lambda>info. si_Name (ii_iface info)) ` set infos \<longrightarrow> fmlookup ls' n = fmlookup ls n)
    \<and> (listeners_ok ls \<longrightarrow> listeners_ok ls') \<and> (\<forall>x \<in> set outs. \<exists>info \<in> set infos. announced ips pk info x)"
  using assms
proof (induction infos arbitrary: ls ls' outs)
  case (Cons info infos)
  obtain ls1 o1 where 1: "announce_addrs ips pk opn now info (ii_addrs info) ls = (ls1, o1)" by (rule prod.exhaust)
  obtain ls2 o2 where 2: "announce_ifaces ips pk opn now infos ls1 = (ls2, o2)" by (rule prod.exhaust)
  have "ls' = ls2" "outs = o1 @ o2" using Cons.prems 1 2 by auto
  then show ?case using announce_addrs_spec [OF 1] Cons.IH [OF 2] by auto
qed simp

text \<open>The settings of an interface are those of a configuration entry that applies to it.\<close>

definition settings_of :: "multicastInterface \<Rightarrow> interfaceInfo \<Rightarrow> bool" where
  "settings_of cfg info \<longleftrightarrow> (mi_Beacon cfg \<or> mi_Listen cfg) \<and> mi_Regex cfg (si_Name (ii_iface info))
     \<and> ii_beacon info = mi_Beacon cfg \<and> ii_listen info = mi_Listen cfg \<and> ii_port info = mi_Port cfg
     \<and> ii_priority info = mi_Priority cfg \<and> ii_password info = ascii (mi_Password cfg)"

lemma match_iface_settings: "match_iface bl pk iface cfgs = Some info \<Longrightarrow> \<exists>cfg \<in> set cfgs. settings_of cfg info"
  by (induction bl pk iface cfgs rule: match_iface.induct) (auto simp: settings_of_def split: if_splits option.splits)

lemma match_iface_spec:
  "match_iface bl pk iface cfgs = Some info \<Longrightarrow>
     ii_iface info = iface \<and> ii_addrs info = [] \<and> bl (ii_password info) pk = Some (ii_hash info) \<and> length pk = 32
     \<and> (ii_beacon info \<or> ii_listen info)"
  by (induction bl pk iface cfgs rule: match_iface.induct) (auto simp: publicKeySize_def split: if_splits option.splits)

lemma match_iface_None:
  "match_iface bl pk iface cfgs = None \<Longrightarrow> length pk = 32 \<Longrightarrow> cfg \<in> set cfgs \<Longrightarrow> mi_Beacon cfg \<or> mi_Listen cfg \<Longrightarrow>
     mi_Regex cfg (si_Name iface) \<Longrightarrow> bl (ascii (mi_Password cfg)) pk = None"
  by (induction bl pk iface cfgs rule: match_iface.induct) (auto simp: publicKeySize_def split: if_splits option.splits)

lemma allowed_ifaces_spec:
  assumes "fmlookup (allowed_ifaces ord bl pk cfgs ifaces acc) name = Some info"
    "\<And>n i. fmlookup acc n = Some i \<Longrightarrow> si_Name (ii_iface i) = n \<and> usable (ii_iface i) \<and> ii_addrs i = []
       \<and> bl (ii_password i) pk = Some (ii_hash i) \<and> length pk = 32"
  shows "si_Name (ii_iface info) = name \<and> usable (ii_iface info) \<and> ii_addrs info = []
    \<and> bl (ii_password info) pk = Some (ii_hash info) \<and> length pk = 32"
  using assms
proof (induction ifaces arbitrary: acc)
  case (Cons iface ifaces)
  define r where "r = match_iface bl pk iface (config_order ord (si_Name iface) cfgs)"
  show ?case
  proof (cases "usable iface \<and> r \<noteq> None")
    case False
    then show ?thesis using Cons.prems Cons.IH [of acc] by (auto simp: r_def [symmetric] split: if_splits)
  next
    case True
    then obtain i where i: "usable iface" "r = Some i" by auto
    have "fmlookup (allowed_ifaces ord bl pk cfgs ifaces (fmupd (si_Name iface) i acc)) name = Some info"
      using Cons.prems(1) i by (simp add: r_def)
    then show ?thesis
      using Cons.prems(2) match_iface_spec [OF i(2) [unfolded r_def]] i(1) by (intro Cons.IH) (auto split: if_splits)
  qed
qed simp

lemma allowed_ifaces_other:
  "name \<notin> si_Name ` set ifaces \<Longrightarrow> fmlookup (allowed_ifaces ord bl pk cfgs ifaces acc) name = fmlookup acc name"
  by (induction ifaces arbitrary: acc) (auto split: option.splits)

lemma allowed_ifaces_at:
  assumes "distinct (map si_Name ifaces)" "iface \<in> set ifaces" "usable iface"
  shows "fmlookup (allowed_ifaces ord bl pk cfgs ifaces acc) (si_Name iface) =
    (case match_iface bl pk iface (config_order ord (si_Name iface) cfgs) of
       None \<Rightarrow> fmlookup acc (si_Name iface) | Some info \<Rightarrow> Some info)"
  using assms
proof (induction ifaces arbitrary: acc)
  case (Cons x ifaces)
  show ?case
  proof (cases "x = iface")
    case True
    then show ?thesis using Cons.prems by (auto simp: allowed_ifaces_other split: option.splits)
  next
    case False
    then have "iface \<in> set ifaces" using Cons.prems by simp
    moreover from this have "si_Name iface \<in> si_Name ` set ifaces" by simp
    then have "si_Name iface \<noteq> si_Name x" using Cons.prems(1) by auto
    ultimately show ?thesis using Cons.IH Cons.prems by (auto split: option.splits)
  qed
qed simp

lemma link_local_addrs_local: "ip \<in> set (link_local_addrs addrs) \<Longrightarrow> link_local6 ip"
  by (induction addrs rule: link_local_addrs.induct) (auto split: if_splits)

lemma updateInterfaces_spec:
  assumes "fmlookup (mc_interfaces (updateInterfaces ord bl pk ifaces m)) name = Some info"
  shows "si_Name (ii_iface info) = name \<and> usable (ii_iface info) \<and> bl (ii_password info) pk = Some (ii_hash info)
    \<and> length pk = 32 \<and> list_all link_local6 (ii_addrs info)"
proof -
  obtain i where i: "fmlookup (getAllowedInterfaces ord bl pk ifaces m) name = Some i"
    "info = i\<lparr>ii_addrs := ii_addrs i @ link_local_addrs (the (si_addrs (ii_iface i)))\<rparr>"
    using assms by (auto simp: updateInterfaces_def split: if_splits)
  show ?thesis
  proof (cases ifaces)
    case (Some all)
    then show ?thesis
      using i allowed_ifaces_spec [of ord bl pk "mc_config m" all fmempty name i] link_local_addrs_local
      by (auto simp: getAllowedInterfaces_def list_all_iff)
  qed (use i in \<open>simp add: getAllowedInterfaces_def\<close>)
qed

text \<open>An interface of the system that the configuration asks for is in the table.\<close>

definition asked_for :: "blake2b \<Rightarrow> bytes \<Rightarrow> multicast \<Rightarrow> sys_iface \<Rightarrow> bool" where
  "asked_for bl pk m iface \<longleftrightarrow>
     (\<exists>cfg \<in> set (mc_config m). (mi_Beacon cfg \<or> mi_Listen cfg) \<and> mi_Regex cfg (si_Name iface)
        \<and> bl (ascii (mi_Password cfg)) pk \<noteq> None)"

lemma updateInterfaces_at:
  assumes "mc_orders_ok ord" "length pk = 32" "distinct (map si_Name all)" "iface \<in> set all" "usable iface"
    "si_addrs iface = Some addrs" "asked_for bl pk m iface"
  shows "\<exists>info. fmlookup (mc_interfaces (updateInterfaces ord bl pk (Some all) m)) (si_Name iface) = Some info
    \<and> ii_iface info = iface \<and> ii_addrs info = link_local_addrs addrs \<and> (\<exists>cfg \<in> set (mc_config m). settings_of cfg info)"
proof -
  let ?cfgs = "config_order ord (si_Name iface) (mc_config m)"
  have "mset ?cfgs = mset (mc_config m)" using assms(1) by (simp add: mc_orders_ok_def)
  then have same: "set ?cfgs = set (mc_config m)" by (rule mset_eq_setD)
  then obtain cfg where "cfg \<in> set ?cfgs" "mi_Beacon cfg \<or> mi_Listen cfg" "mi_Regex cfg (si_Name iface)"
    "bl (ascii (mi_Password cfg)) pk \<noteq> None" using assms(7) unfolding asked_for_def by blast
  then obtain i where i: "match_iface bl pk iface ?cfgs = Some i"
    using match_iface_None [of bl pk iface ?cfgs cfg] assms(2) by (cases "match_iface bl pk iface ?cfgs") auto
  have "fmlookup (getAllowedInterfaces ord bl pk (Some all) m) (si_Name iface) = Some i"
    using allowed_ifaces_at [OF assms(3,4,5), of ord bl pk "mc_config m" fmempty] i by (simp add: getAllowedInterfaces_def)
  then show ?thesis
    using match_iface_spec [OF i] match_iface_settings [OF i] same assms(6) by (auto simp: updateInterfaces_def settings_of_def)
qed

text \<open>What the announcement does on one interface.\<close>

lemma announce_addrs_early:
  assumes "list_all link_local6 addrs" "ii_beacon info" "fmlookup ls (si_Name (ii_iface info)) = Some l" "now - ml_time l < ml_interval l"
  shows "fst (announce_addrs ips pk opn now info addrs ls) = ls
    \<and> SendBeacon msg name \<notin> set (snd (announce_addrs ips pk opn now info addrs ls))"
  using assms(1) by (induction addrs) (use assms(2-) in \<open>auto simp: find_listener_def Let_def split: prod.split\<close>)

lemma announce_addrs_due:
  assumes "list_all link_local6 addrs" "addrs \<noteq> []" "ii_beacon info" "find_listener ips opn now info (hd addrs) ls = (Some l, ls1, opened)"
    "\<not> now - ml_time l < ml_interval l"
  shows "announce_addrs ips pk opn now info addrs ls =
    (fmupd (si_Name (ii_iface info)) (l\<lparr>ml_interval := if ml_interval l < 15 * second_ns then ml_interval l + second_ns else ml_interval l,
        ml_time := now\<rparr>) ls1,
     (if ii_listen info then [JoinGroup (si_Name (ii_iface info))] else []) @ opened
       @ [SendBeacon (MarshalBinary (advertisement pk info (snd (ml_addr l)))) (si_Name (ii_iface info))])"
  using assms by (cases addrs) (auto simp: send_beacon_def Let_def)

lemma announce_ifaces_at:
  assumes "announce_ifaces ips pk opn now infos ls = (ls', outs)" "info \<in> set infos"
    "distinct (map (\<lambda>info. si_Name (ii_iface info)) infos)" "name = si_Name (ii_iface info)"
  shows "\<exists>ls1 ls2 o1. announce_addrs ips pk opn now info (ii_addrs info) ls1 = (ls2, o1)
    \<and> fmlookup ls1 name = fmlookup ls name \<and> fmlookup ls' name = fmlookup ls2 name
    \<and> (\<forall>msg. SendBeacon msg name \<in> set outs \<longleftrightarrow> SendBeacon msg name \<in> set o1)"
  using assms
proof (induction infos arbitrary: ls ls' outs)
  case (Cons x infos)
  obtain ls1 o1 where 1: "announce_addrs ips pk opn now x (ii_addrs x) ls = (ls1, o1)" by (rule prod.exhaust)
  obtain ls2 o2 where 2: "announce_ifaces ips pk opn now infos ls1 = (ls2, o2)" by (rule prod.exhaust)
  have eq: "ls' = ls2" "outs = o1 @ o2" using Cons.prems(1) 1 2 by auto
  show ?case
  proof (cases "x = info")
    case True
    then have out: "name \<notin> (\<lambda>info. si_Name (ii_iface info)) ` set infos" using Cons.prems(3,4) by auto
    have "SendBeacon msg name \<notin> set o2" for msg
      using announce_ifaces_spec [OF 2] out unfolding announced_def by fastforce
    then show ?thesis using 1 True eq announce_ifaces_spec [OF 2] out by (intro exI [of _ ls] exI [of _ ls1] exI [of _ o1]) simp
  next
    case False
    then have in_rest: "info \<in> set infos" using Cons.prems(2) by simp
    then have "name \<in> (\<lambda>info. si_Name (ii_iface info)) ` set infos" using Cons.prems(4) by simp
    then have ne: "name \<noteq> si_Name (ii_iface x)" using Cons.prems(3) unfolding list.map distinct.simps set_map by blast
    have "SendBeacon msg name \<notin> set o1" for msg
      using announce_addrs_spec [OF 1] ne unfolding announced_def by fastforce
    moreover have "fmlookup ls1 name = fmlookup ls name" using announce_addrs_spec [OF 1] ne by simp
    ultimately show ?thesis using Cons.IH [OF 2 in_rest _ Cons.prems(4)] Cons.prems(3) eq by auto
  qed
qed simp

lemma stop_listeners_spec:
  "fmlookup (mc_listeners (fst (stop_listeners ord m))) name =
     (case fmlookup (mc_listeners m) name of
        None \<Rightarrow> None | Some l \<Rightarrow> if listener_stays (mc_interfaces m) name l then Some l else None)"
  "mc_interfaces (fst (stop_listeners ord m)) = mc_interfaces m"
  "SendBeacon msg n \<notin> set (snd (stop_listeners ord m))"
  "mc_orders_ok ord \<Longrightarrow> fmlookup (mc_listeners m) name = Some l \<Longrightarrow> \<not> listener_stays (mc_interfaces m) name l \<Longrightarrow>
     CancelListener (ml_listener l) \<in> set (snd (stop_listeners ord m))"
proof -
  show "CancelListener (ml_listener l) \<in> set (snd (stop_listeners ord m))"
    if "mc_orders_ok ord" "fmlookup (mc_listeners m) name = Some l" "\<not> listener_stays (mc_interfaces m) name l"
    using that by (auto simp: stop_listeners_def Let_def mc_orders_ok_def fmdomI intro!: image_eqI [of _ _ name])
qed (auto simp: stop_listeners_def Let_def split: option.split)

text \<open>An announcement: the interfaces are read, listeners stopped, then each interface has its turn.\<close>

lemma announce_run:
  assumes "mc_running m" and m1: "m1 = updateInterfaces ord bl pk ifaces m"
    and infos: "infos = map (\<lambda>name. the (fmlookup (mc_interfaces m1) name)) (interface_order ord (fmdom (mc_interfaces m1)))"
    and a: "announce_ifaces ips pk opn now infos (mc_listeners (fst (stop_listeners ord m1))) = (ls, outs)"
  shows "announce ord bl ips pk opn True now ifaces m =
    Ok ((fst (stop_listeners ord m1))\<lparr>mc_listeners := ls, mc_timer := Pending\<rparr>, snd (stop_listeners ord m1) @ outs @ [StartTimer])"
  using assms(1) a unfolding announce_def infos m1 [symmetric]
  by (simp add: Let_def case_prod_beta stop_listeners_spec(2))

lemma walked_interfaces:
  assumes "mc_orders_ok ord" and name: "\<And>name info. fmlookup I name = Some info \<Longrightarrow> si_Name (ii_iface info) = name"
    and infos: "infos = map (\<lambda>name. the (fmlookup I name)) (interface_order ord (fmdom I))"
  shows "info \<in> set infos \<longleftrightarrow> fmlookup I (si_Name (ii_iface info)) = Some info"
    "distinct (map (\<lambda>info. si_Name (ii_iface info)) infos)"
proof -
  have ord: "set (interface_order ord (fmdom I)) = fset (fmdom I)" "distinct (interface_order ord (fmdom I))"
    using assms(1) by (simp_all add: mc_orders_ok_def)
  have at: "fmlookup I n = Some (the (fmlookup I n))" if "n |\<in>| fmdom I" for n
    using that by (auto simp: fmlookup_dom_iff)
  have "map (\<lambda>info. si_Name (ii_iface info)) infos = interface_order ord (fmdom I)"
    unfolding infos map_map by (rule map_idI) (use ord(1) name [OF at] in simp)
  then show "distinct (map (\<lambda>info. si_Name (ii_iface info)) infos)" using ord(2) by simp
  show "info \<in> set infos \<longleftrightarrow> fmlookup I (si_Name (ii_iface info)) = Some info"
  proof
    assume "info \<in> set infos"
    then obtain n where "n |\<in>| fmdom I" "info = the (fmlookup I n)" by (auto simp: infos ord(1))
    then show "fmlookup I (si_Name (ii_iface info)) = Some info" using at [of n] name [of n info] by simp
  next
    assume "fmlookup I (si_Name (ii_iface info)) = Some info"
    then show "info \<in> set infos" by (auto simp: infos ord(1) fmdomI intro!: image_eqI [of _ _ "si_Name (ii_iface info)"])
  qed
qed

text \<open>The beacon of one interface: of a listener that is there, and of a new one.\<close>

lemma beacon_due:
  assumes at: "announce_addrs ips pk opn now info (ii_addrs info) ls1 = (ls2, o1)"
    and info: "ii_beacon info" "ii_addrs info \<noteq> []" "list_all link_local6 (ii_addrs info)" "si_Name (ii_iface info) = name"
    and l: "fmlookup ls1 name = Some l" "whole_seconds (ml_interval l)"
  shows "if now - ml_time l < ml_interval l
     then fmlookup ls2 name = Some l \<and> (\<forall>msg. SendBeacon msg name \<notin> set o1)
     else SendBeacon (MarshalBinary (advertisement pk info (snd (ml_addr l)))) name \<in> set o1
       \<and> fmlookup ls2 name = Some (l\<lparr>ml_interval := min (15 * second_ns) (ml_interval l + second_ns), ml_time := now\<rparr>)"
proof (cases "now - ml_time l < ml_interval l")
  case True
  then show ?thesis
    using announce_addrs_early [OF info(3,1), of ls1 l now ips pk opn] l(1) info(4) at by simp
next
  case False
  obtain k where k: "k \<le> 15" "ml_interval l = k * second_ns" using l(2) unfolding whole_seconds_def by blast
  have "(if ml_interval l < 15 * second_ns then ml_interval l + second_ns else ml_interval l) = min (15 * second_ns) (ml_interval l + second_ns)"
    using k by (auto simp: second_ns_def)
  moreover have "find_listener ips opn now info (hd (ii_addrs info)) ls1 = (Some l, ls1, [])"
    using l(1) info(4) by (simp add: find_listener_def)
  ultimately show ?thesis
    using announce_addrs_due [OF info(3,2,1) _ False, of ips opn ls1 ls1 "[]" pk] False at info(4) by auto
qed

lemma beacon_new:
  assumes at: "announce_addrs ips pk opn now info (ii_addrs info) ls1 = (ls2, o1)"
    and info: "ii_beacon info" "ii_addrs info \<noteq> []" "list_all link_local6 (ii_addrs info)" "si_Name (ii_iface info) = name"
    and l: "fmlookup ls1 name = None" "opn (listener_url ips info (hd (ii_addrs info))) name = Some (li, addr, tcp6)"
  shows "SendBeacon (MarshalBinary (advertisement pk info (snd addr))) name \<in> set o1
    \<and> fmlookup ls2 name = Some \<lparr>ml_listener = li, ml_addr = addr, ml_tcp6 = tcp6, ml_time = now, ml_interval = second_ns,
        ml_port = ii_port info\<rparr>"
proof -
  define l where "l = \<lparr>ml_listener = li, ml_addr = addr, ml_tcp6 = tcp6, ml_time = now, ml_interval = 0, ml_port = ii_port info\<rparr>"
  have "find_listener ips opn now info (hd (ii_addrs info)) ls1
      = (Some l, fmupd name l ls1, [ListenLocal (listener_url ips info (hd (ii_addrs info))) name])"
    using l info(4) by (simp add: find_listener_def l_def Let_def)
  moreover have "\<not> now - ml_time l < ml_interval l" by (simp add: l_def)
  ultimately have "announce_addrs ips pk opn now info (ii_addrs info) ls1 =
    (fmupd name (l\<lparr>ml_interval := if ml_interval l < 15 * second_ns then ml_interval l + second_ns else ml_interval l, ml_time := now\<rparr>)
       (fmupd name l ls1),
     (if ii_listen info then [JoinGroup name] else []) @ [ListenLocal (listener_url ips info (hd (ii_addrs info))) name]
       @ [SendBeacon (MarshalBinary (advertisement pk info (snd (ml_addr l)))) name])"
    using announce_addrs_due [OF info(3,2,1), of ips opn now ls1 l] info(4) by simp
  then show ?thesis using at by (auto simp: l_def second_ns_def)
qed

text \<open>One round over the interfaces, as \<open>announce_run\<close> has it, and what it does to each interface and listener.\<close>

definition announce_round ::
  "mc_orders \<Rightarrow> blake2b \<Rightarrow> (ip \<Rightarrow> string) \<Rightarrow> bytes \<Rightarrow> (url \<Rightarrow> string \<Rightarrow> (nat \<times> (ip \<times> u16) \<times> bool) option) \<Rightarrow> nat \<Rightarrow> sys_iface list option
     \<Rightarrow> multicast \<Rightarrow> multicast \<Rightarrow> (string, listenerInfo) fmap \<Rightarrow> mc_out list \<Rightarrow> bool" where
  "announce_round ord bl ips pk opn now ifaces m m1 ls outs \<longleftrightarrow>
     m1 = updateInterfaces ord bl pk ifaces m
     \<and> announce_ifaces ips pk opn now
         (map (\<lambda>name. the (fmlookup (mc_interfaces m1) name)) (interface_order ord (fmdom (mc_interfaces m1))))
         (mc_listeners (fst (stop_listeners ord m1))) = (ls, outs)"

lemma round_interface:
  assumes "announce_round ord bl ips pk opn now ifaces m m1 ls outs" "fmlookup (mc_interfaces m1) name = Some info"
  shows "si_Name (ii_iface info) = name" "usable (ii_iface info)" "bl (ii_password info) pk = Some (ii_hash info)"
    "list_all link_local6 (ii_addrs info)"
  using updateInterfaces_spec [of ord bl pk ifaces m name info] assms unfolding announce_round_def by auto

lemma round_kept:
  assumes "announce_round ord bl ips pk opn now ifaces m m1 ls outs"
  shows "fmlookup (mc_listeners (fst (stop_listeners ord m1))) name = (case fmlookup (mc_listeners m) name of None \<Rightarrow> None
      | Some l \<Rightarrow> if listener_stays (mc_interfaces m1) name l then Some l else None)"
  using assms unfolding announce_round_def stop_listeners_spec(1) by (auto simp: updateInterfaces_def)

lemma round_at:
  assumes r: "announce_round ord bl ips pk opn now ifaces m m1 ls outs" and "mc_orders_ok ord"
    and i: "fmlookup (mc_interfaces m1) name = Some info"
  shows "\<exists>ls1 ls2 o1. announce_addrs ips pk opn now info (ii_addrs info) ls1 = (ls2, o1)
      \<and> fmlookup ls1 name = fmlookup (mc_listeners (fst (stop_listeners ord m1))) name \<and> fmlookup ls name = fmlookup ls2 name
      \<and> (\<forall>msg. SendBeacon msg name \<in> set outs \<longleftrightarrow> SendBeacon msg name \<in> set o1)"
proof (rule announce_ifaces_at)
  show "announce_ifaces ips pk opn now
      (map (\<lambda>name. the (fmlookup (mc_interfaces m1) name)) (interface_order ord (fmdom (mc_interfaces m1))))
      (mc_listeners (fst (stop_listeners ord m1))) = (ls, outs)" using r unfolding announce_round_def by blast
  note walked = walked_interfaces [OF assms(2) round_interface(1) [OF r] refl]
  show "info \<in> set (map (\<lambda>name. the (fmlookup (mc_interfaces m1) name)) (interface_order ord (fmdom (mc_interfaces m1))))"
    using walked(1) round_interface(1) [OF r i] i by simp
  show "distinct (map (\<lambda>info. si_Name (ii_iface info))
      (map (\<lambda>name. the (fmlookup (mc_interfaces m1) name)) (interface_order ord (fmdom (mc_interfaces m1)))))"
    by (rule walked(2))
qed (use round_interface(1) [OF r i] in simp)

lemma round_gone:
  assumes r: "announce_round ord bl ips pk opn now ifaces m m1 ls outs" and "mc_orders_ok ord" and no: "name |\<notin>| fmdom (mc_interfaces m1)"
  shows "fmlookup ls name = None"
proof -
  have a: "announce_ifaces ips pk opn now
      (map (\<lambda>name. the (fmlookup (mc_interfaces m1) name)) (interface_order ord (fmdom (mc_interfaces m1))))
      (mc_listeners (fst (stop_listeners ord m1))) = (ls, outs)" using r unfolding announce_round_def by blast
  note walked = walked_interfaces [OF assms(2) round_interface(1) [OF r] refl]
  have "name \<notin> (\<lambda>info. si_Name (ii_iface info)) `
      set (map (\<lambda>name. the (fmlookup (mc_interfaces m1) name)) (interface_order ord (fmdom (mc_interfaces m1))))"
    using walked(1) no fmdomI by fastforce
  moreover have "fmlookup (mc_listeners (fst (stop_listeners ord m1))) name = None"
    using no by (auto simp: round_kept [OF r] listener_stays_def fmdom_notD split: option.split)
  ultimately show ?thesis using conjunct1 [OF announce_ifaces_spec [OF a]] by (metis (no_types, lifting))
qed

lemma round_due:
  assumes r: "announce_round ord bl ips pk opn now ifaces m m1 ls outs" and o: "mc_orders_ok ord" and ok: "listeners_ok (mc_listeners m)"
    and c: "fmlookup (mc_interfaces m1) name = Some info \<and> ii_beacon info \<and> ii_addrs info \<noteq> []
      \<and> fmlookup (mc_listeners m) name = Some l \<and> listener_stays (mc_interfaces m1) name l"
  shows "if now - ml_time l < ml_interval l
     then fmlookup ls name = Some l \<and> (\<forall>msg. SendBeacon msg name \<notin> set outs)
     else SendBeacon (MarshalBinary (advertisement pk info (snd (ml_addr l)))) name \<in> set outs
       \<and> fmlookup ls name = Some (l\<lparr>ml_interval := min (15 * second_ns) (ml_interval l + second_ns), ml_time := now\<rparr>)"
proof -
  have k: "fmlookup (mc_listeners (fst (stop_listeners ord m1))) name = Some l" "whole_seconds (ml_interval l)"
    using c ok by (auto simp: round_kept [OF r] listeners_ok_def)
  from round_at [OF r o conjunct1 [OF c]] show ?thesis
    using beacon_due [where name = name and info = info and l = l] c k round_interface [OF r conjunct1 [OF c]] by fastforce
qed

lemma round_new:
  assumes r: "announce_round ord bl ips pk opn now ifaces m m1 ls outs" and o: "mc_orders_ok ord"
    and c: "fmlookup (mc_interfaces m1) name = Some info \<and> ii_beacon info \<and> ii_addrs info \<noteq> []
      \<and> (\<forall>l. fmlookup (mc_listeners m) name = Some l \<longrightarrow> \<not> listener_stays (mc_interfaces m1) name l)
      \<and> opn (listener_url ips info (hd (ii_addrs info))) name = Some (li, addr, tcp6)"
  shows "SendBeacon (MarshalBinary (advertisement pk info (snd addr))) name \<in> set outs"
    "fmlookup ls name = Some \<lparr>ml_listener = li, ml_addr = addr, ml_tcp6 = tcp6, ml_time = now, ml_interval = second_ns,
       ml_port = ii_port info\<rparr>"
proof -
  have k: "fmlookup (mc_listeners (fst (stop_listeners ord m1))) name = None"
    using c by (auto simp: round_kept [OF r] split: option.splits)
  obtain ls1 ls2 o1 where at: "announce_addrs ips pk opn now info (ii_addrs info) ls1 = (ls2, o1)" "fmlookup ls1 name = None"
      "fmlookup ls name = fmlookup ls2 name" "\<And>msg. SendBeacon msg name \<in> set outs \<longleftrightarrow> SendBeacon msg name \<in> set o1"
    using round_at [OF r o conjunct1 [OF c]] k by auto
  note b = beacon_new [OF at(1) _ _ _ _ at(2), of li addr tcp6]
  show "SendBeacon (MarshalBinary (advertisement pk info (snd addr))) name \<in> set outs"
    "fmlookup ls name = Some \<lparr>ml_listener = li, ml_addr = addr, ml_tcp6 = tcp6, ml_time = now, ml_interval = second_ns,
       ml_port = ii_port info\<rparr>"
    using b c round_interface [OF r conjunct1 [OF c]] at(3,4) by auto
qed

lemma round_sent:
  assumes r: "announce_round ord bl ips pk opn now ifaces m m1 ls outs" and o: "mc_orders_ok ord"
    and h: "\<forall>pw h. bl pw pk = Some h \<longrightarrow> length h < 2 ^ 16" "length pk = 32" and sent: "SendBeacon msg name \<in> set outs"
  shows "\<exists>info adv. fmlookup (mc_interfaces m1) name = Some info \<and> ii_beacon info \<and> usable (ii_iface info)
            \<and> (\<forall>rest. UnmarshalBinary (msg @ rest) = Some adv) \<and> PublicKey adv = pk \<and> bl (ii_password info) pk = Some (Hash adv)"
proof -
  have a: "announce_ifaces ips pk opn now
      (map (\<lambda>name. the (fmlookup (mc_interfaces m1) name)) (interface_order ord (fmdom (mc_interfaces m1))))
      (mc_listeners (fst (stop_listeners ord m1))) = (ls, outs)" using r unfolding announce_round_def by blast
  from bspec [OF conjunct2 [OF conjunct2 [OF announce_ifaces_spec [OF a]]] sent]
  obtain info where i: "info \<in> set (map (\<lambda>name. the (fmlookup (mc_interfaces m1) name)) (interface_order ord (fmdom (mc_interfaces m1))))"
      "announced ips pk info (SendBeacon msg name)" by (rule bexE)
  then obtain port where p: "ii_beacon info" "msg = MarshalBinary (advertisement pk info port)" "name = si_Name (ii_iface info)"
    unfolding announced_def by blast
  have f: "fmlookup (mc_interfaces m1) name = Some info"
    using walked_interfaces(1) [OF o round_interface(1) [OF r] refl] i(1) p(3) by simp
  then have "UnmarshalBinary (msg @ rest) = Some (advertisement pk info port)" for rest
    unfolding p(2) using h round_interface [OF r f] by (intro unmarshal_marshal) (auto simp: advertisement_def)
  then show ?thesis using f p(1) round_interface [OF r f]
    by (intro exI [of _ info] exI [of _ "advertisement pk info port"]) (simp add: advertisement_def)
qed


text \<open>A module with one interface, whose listener sent its last beacon four seconds ago, at an interval of two.\<close>

definition sample_orders :: mc_orders where
  "sample_orders = \<lparr>config_order = (\<lambda>_ cfgs. cfgs), listener_order = sorted_list_of_fset, interface_order = sorted_list_of_fset\<rparr>"

definition sample_eth :: sys_iface where
  "sample_eth = \<lparr>si_Name = ''eth0'', FlagUp = True, FlagRunning = True, FlagMulticast = True, FlagPointToPoint = False,
     si_addrs = Some [None, Some (0xfe # 0x80 # replicate 14 1)]\<rparr>"

definition sample_ml :: listenerInfo where
  "sample_ml = \<lparr>ml_listener = 5, ml_addr = (0xfe # 0x80 # replicate 14 1, 9001), ml_tcp6 = True, ml_time = 6 * second_ns,
     ml_interval = 2 * second_ns, ml_port = 0\<rparr>"

definition sample_mc :: multicast where
  "sample_mc = \<lparr>mc_running = True, mc_sock = True, mc_listeners = fmupd ''eth0'' sample_ml fmempty, mc_interfaces = fmempty,
     mc_timer = NoTimer, mc_groupAddr = [],
     mc_config = [\<lparr>mi_Regex = (\<lambda>n. n = ''eth0''), mi_Beacon = True, mi_Listen = True, mi_Port = 0, mi_Priority = 0, mi_Password = []\<rparr>]\<rparr>"

lemma sample_local: "link_local6 (0xfe # 0x80 # replicate 14 1)" "ip_Equal (0xfe # 0x80 # replicate 14 1) (0xfe # 0x80 # replicate 14 1)"
  by code_simp+


text \<open>
  After the module was stopped, its last timer fires without a new one being made; asking for an
  announcement then blocks the actor for ever.
\<close>

theorem announce_now_blocks:
  "AnnounceNow (fst (mc_stop m)\<lparr>mc_timer := Fired\<rparr>) = None"
  "mc_running m' = False \<Longrightarrow> announce ord bl ips pk opn resolves now ifaces m' = Ok (m', [])"
  by (simp_all add: AnnounceNow_def announce_def)

text \<open>The admin view lists every interface once, in the order of the names, whatever the order of the map.\<close>

lemma interfaces_listed:
  assumes "set order = fset (fmdom (mc_interfaces m))" "distinct order"
    "\<And>n i. fmlookup (mc_interfaces m) n = Some i \<Longrightarrow> si_Name (ii_iface i) = n"
  shows "map ms_Name (getMulticastInterfaces order m) = sorted_list_of_fset (fmdom (mc_interfaces m))"
proof -
  have name: "ms_Name (interface_state m n) = n" if "n \<in> set order" for n
    using assms(1,3) that by (auto simp: interface_state_def Let_def fmlookup_dom_iff)
  then have names: "map ms_Name (map (interface_state m) order) = order" by (simp add: map_idI)
  have perm: "mset (map ms_Name (getMulticastInterfaces order m)) = mset order"
    unfolding getMulticastInterfaces_def using names by (metis mset_map mset_sort)
  show ?thesis
    by (rule sorted_distinct_set_unique)
       (use assms(1,2) mset_eq_setD [OF perm] mset_eq_imp_distinct_iff [OF perm] in
         \<open>auto simp: getMulticastInterfaces_def sorted_list_of_fset.rep_eq\<close>)
qed


end
