(* ===== verification/Core.thy ===== *)
theory Core
  imports Links Proto
begin

text \<open>
  The node: \<^verbatim>\<open>src/core/core.go\<close>, \<^verbatim>\<open>options.go\<close> and \<^verbatim>\<open>api.go\<close>. Setup options and the start of a node with its
  peers and listeners, the node's own address and subnet, what the node tells about itself, its
  peers, paths and sessions, and its shutdown. What the router's and the session layer's debug
  interfaces return, the parser of URIs and the opening of a socket are arguments; iteration over a
  Go map takes its order as an argument.
\<close>

section \<open>Options\<close>

datatype setup_option =
    ListenAddress string
  | Peer string string
  | NodeInfo "(string, json) fmap"
  | NodeInfoPrivacy bool
  | AllowedPublicKey bytes
  | PeerFilter "ip \<Rightarrow> bool"
  | GroupPassword string

record core_config =
  cfg_tls :: "tls_config option"
  cfg_listeners :: "string fset"
  peerFilter :: "(ip \<Rightarrow> bool) option"
  cfg_nodeinfo :: "(string, json) fmap"
  nodeinfoPrivacy :: bool
  allowedPublicKeys :: "bytes fset"
  groupPassword :: string

record core =
  co_secret :: bytes
  co_public :: bytes
  co_links :: links
  co_proto :: protoHandler
  co_config :: core_config
  pathNotify :: "nat option"
  co_closed :: bool

text \<open>The zero value of the structure with the maps that \<^verbatim>\<open>New\<close> makes; the context is a flag of the links.\<close>

definition core_zero :: core where
  "core_zero =
     \<lparr>co_secret = [], co_public = [], co_links = links_init, co_proto = proto_start,
      co_config = \<lparr>cfg_tls = None, cfg_listeners = {||}, peerFilter = None, cfg_nodeinfo = fmempty,
        nodeinfoPrivacy = False, allowedPublicKeys = {||}, groupPassword = ''''\<rparr>,
      pathNotify = None, co_closed = False\<rparr>"

datatype core_error =
    ErrPeeringURI
  | ErrAddPeer link_error
  | ErrNoPrivateKey
  | ErrKeyNotEd25519
  | ErrKeyLength
  | ErrSettingNodeInfo nodeinfo_error

record core_env =
  url_Parse :: "string \<Rightarrow> url option"
  ce_lib :: golib
  ce_open :: "url \<Rightarrow> link_error + nat"
  ce_build :: build

definition core_applyOption :: "core_env \<Rightarrow> setup_option \<Rightarrow> core \<Rightarrow> core_error option \<times> core" where
  "core_applyOption env opt c =
     (let cfg = co_config c
      in case opt of
           Peer uri sintf \<Rightarrow>
             (case url_Parse env uri of
                None \<Rightarrow> (Some ErrPeeringURI, c)
              | Some u \<Rightarrow>
                  (let (err, l) = links_add (ce_lib env) u sintf linkTypePersistent (co_links c);
                       c = c\<lparr>co_links := l\<rparr>
                   in case err of
                        None \<Rightarrow> (None, c)
                      | Some e \<Rightarrow> if e = ErrLinkAlreadyConfigured then (None, c) else (Some (ErrAddPeer e), c)))
         | ListenAddress a \<Rightarrow> (None, c\<lparr>co_config := cfg\<lparr>cfg_listeners := finsert a (cfg_listeners cfg)\<rparr>\<rparr>)
         | PeerFilter f \<Rightarrow> (None, c\<lparr>co_config := cfg\<lparr>peerFilter := Some f\<rparr>\<rparr>)
         | NodeInfo m \<Rightarrow> (None, c\<lparr>co_config := cfg\<lparr>cfg_nodeinfo := m\<rparr>\<rparr>)
         | NodeInfoPrivacy b \<Rightarrow> (None, c\<lparr>co_config := cfg\<lparr>nodeinfoPrivacy := b\<rparr>\<rparr>)
         | AllowedPublicKey k \<Rightarrow>
             (None, c\<lparr>co_config := cfg\<lparr>allowedPublicKeys := finsert (array_of 32 k) (allowedPublicKeys cfg)\<rparr>\<rparr>)
         | GroupPassword p \<Rightarrow> (None, c\<lparr>co_config := cfg\<lparr>groupPassword := p\<rparr>\<rparr>))"

section \<open>Starting a node\<close>

text \<open>Peers and listeners wait for the second pass over the options.\<close>

fun needs_links :: "setup_option \<Rightarrow> bool" where
  "needs_links (Peer _ _) = True"
| "needs_links (ListenAddress _) = True"
| "needs_links _ = False"

fun apply_options :: "core_env \<Rightarrow> bool \<Rightarrow> setup_option list \<Rightarrow> core \<Rightarrow> core_error option \<times> core" where
  "apply_options env second_pass [] c = (None, c)"
| "apply_options env second_pass (opt # opts) c =
     (if needs_links opt \<noteq> second_pass then apply_options env second_pass opts c
      else case core_applyOption env opt c of
             (Some e, c) \<Rightarrow> (Some e, c)
           | (None, c) \<Rightarrow> apply_options env second_pass opts c)"

fun start_listeners :: "core_env \<Rightarrow> string list \<Rightarrow> links \<Rightarrow> links" where
  "start_listeners env [] s = s"
| "start_listeners env (a # as) s =
     start_listeners env as
       (case url_Parse env a of None \<Rightarrow> s | Some u \<Rightarrow> snd (links_listen u (ce_open env u) s))"

datatype private_key = NoPrivateKey | Ed25519Key bytes | OtherKey

definition ed25519_Public :: "bytes \<Rightarrow> bytes" where
  "ed25519_Public sk = array_of 32 (drop 32 sk)"

text \<open>
  \<^verbatim>\<open>New\<close> with the node it leaves behind, also when it returns an error: goroutines that were started go
  on. Creating the session layer cannot fail for a key of the right length.
\<close>

definition core_boot :: "nat \<Rightarrow> bytes \<Rightarrow> core \<Rightarrow> core" where
  "core_boot now sk c =
     c\<lparr>co_secret := sk, co_public := ed25519_Public sk,
       co_config := (co_config c)\<lparr>cfg_tls := Some generateTLSConfig\<rparr>,
       co_proto := fst (proto_init now), co_links := links_init\<rparr>"

definition core_New ::
  "core_env \<Rightarrow> private_key option \<Rightarrow> setup_option list \<Rightarrow> nat \<Rightarrow> string list \<Rightarrow> core_error option \<times> core" where
  "core_New env cert opts now order =
     (case apply_options env False opts core_zero of
        (Some e, c) \<Rightarrow> (Some e, c)
      | (None, c) \<Rightarrow>
          (case cert of
             None \<Rightarrow> (Some ErrNoPrivateKey, c)
           | Some NoPrivateKey \<Rightarrow> (Some ErrNoPrivateKey, c)
           | Some OtherKey \<Rightarrow> (Some ErrKeyNotEd25519, c)
           | Some (Ed25519Key sk) \<Rightarrow>
               if length sk \<noteq> 64 then (Some ErrKeyLength, c)
               else
                 (case apply_options env True opts (core_boot now sk c) of
                    (Some e, c) \<Rightarrow> (Some e, c)
                  | (None, c) \<Rightarrow>
                      (case setNodeInfo (ce_build env) (cfg_nodeinfo (co_config c)) (nodeinfoPrivacy (co_config c))
                              (ph_nodeinfo (co_proto c)) of
                         (Some e, ni) \<Rightarrow> (Some (ErrSettingNodeInfo e), c\<lparr>co_proto := (co_proto c)\<lparr>ph_nodeinfo := ni\<rparr>\<rparr>)
                       | (None, ni) \<Rightarrow>
                           (None, c\<lparr>co_proto := (co_proto c)\<lparr>ph_nodeinfo := ni\<rparr>,
                                    co_links := start_listeners env order (co_links c)\<rparr>)))))"

text \<open>The key under which the router's Bloom filters hold a node.\<close>

definition keyXform :: "publicKey \<Rightarrow> publicKey option" where
  "keyXform key = map_option Subnet_GetKey (SubnetForKey key)"

definition RetryPeersNow :: "nat list \<Rightarrow> core \<Rightarrow> core" where
  "RetryPeersNow order c = c\<lparr>co_links := fold kick order (co_links c)\<rparr>"

definition core_close :: "core \<Rightarrow> core" where
  "core_close c = c\<lparr>co_links := links_shutdown ((co_links c)\<lparr>lk_core_done := True\<rparr>), co_closed := True\<rparr>"

definition SetPathNotify :: "nat option \<Rightarrow> core \<Rightarrow> core" where
  "SetPathNotify notify c = c\<lparr>pathNotify := notify\<rparr>"

definition doPathNotify :: "publicKey \<Rightarrow> core \<Rightarrow> (nat \<times> publicKey) list" where
  "doPathNotify key c = (case pathNotify c of None \<Rightarrow> [] | Some f \<Rightarrow> [(f, key)])"

section \<open>What a node tells about itself\<close>

record selfInfo =
  si_Key :: bytes
  si_RoutingEntries :: u64

record debugPeerInfo =
  dp_Key :: bytes
  dp_Root :: bytes
  dp_Port :: u64
  dp_Cost :: u64
  dp_Priority :: byte
  dp_Conn :: nat
  dp_Latency :: int

record peerInfo =
  pi_URI :: string
  pi_Up :: bool
  pi_Inbound :: bool
  pi_LastError :: "link_error option"
  pi_LastErrorTime :: nat
  pi_Key :: bytes
  pi_Root :: bytes
  pi_Port :: u64
  pi_Priority :: byte
  pi_Cost :: u64
  pi_RXBytes :: u64
  pi_TXBytes :: u64
  pi_RXRate :: u64
  pi_TXRate :: u64
  pi_Uptime :: int
  pi_Latency :: int

definition no_peerInfo :: peerInfo where
  "no_peerInfo =
     \<lparr>pi_URI = '''', pi_Up = False, pi_Inbound = False, pi_LastError = None, pi_LastErrorTime = 0,
      pi_Key = [], pi_Root = [], pi_Port = 0, pi_Priority = 0, pi_Cost = 0, pi_RXBytes = 0, pi_TXBytes = 0,
      pi_RXRate = 0, pi_TXRate = 0, pi_Uptime = 0, pi_Latency = 0\<rparr>"

definition GetSelf :: "bytes \<Rightarrow> u64 \<Rightarrow> selfInfo" where
  "GetSelf key entries = \<lparr>si_Key = key, si_RoutingEntries = entries\<rparr>"

text \<open>A later debug record of the same connection replaces an earlier one.\<close>

definition peer_conns :: "debugPeerInfo list \<Rightarrow> (nat, debugPeerInfo) fmap" where
  "peer_conns ps = fold (\<lambda>p. fmupd (dp_Conn p) p) ps fmempty"

definition peer_info :: "nat \<Rightarrow> (nat, debugPeerInfo) fmap \<Rightarrow> links \<Rightarrow> linkInfo \<Rightarrow> link \<Rightarrow> peerInfo" where
  "peer_info now conns s info state =
     (let r = no_peerInfo\<lparr>pi_URI := li_uri info, pi_LastError := l_err state, pi_LastErrorTime := l_errtime state\<rparr>
      in case l_conn state of
           None \<Rightarrow> r
         | Some c \<Rightarrow>
             (let conn = the (fmlookup (lk_conns s) c);
                  r = r\<lparr>pi_Up := True, pi_Inbound := (l_type state = linkTypeIncoming),
                        pi_RXBytes := lc_rx conn, pi_TXBytes := lc_tx conn,
                        pi_RXRate := rxrate conn, pi_TXRate := txrate conn,
                        pi_Uptime := int now - int (lc_up conn)\<rparr>
              in case fmlookup conns c of
                   None \<Rightarrow> r
                 | Some p \<Rightarrow> r\<lparr>pi_Key := dp_Key p, pi_Root := dp_Root p, pi_Port := dp_Port p,
                                pi_Priority := dp_Priority p, pi_Latency := dp_Latency p, pi_Cost := dp_Cost p\<rparr>))"

text \<open>\<open>order\<close> is the order in which the range over the table of links meets its keys.\<close>

definition GetPeers :: "nat \<Rightarrow> debugPeerInfo list \<Rightarrow> (linkInfo fset \<Rightarrow> linkInfo list) \<Rightarrow> links \<Rightarrow> peerInfo list" where
  "GetPeers now iwpeers order s =
     map (\<lambda>info. peer_info now (peer_conns iwpeers) s info (the_link s (the (fmlookup (lk_links s) info))))
       (order (fmdom (lk_links s)))"

definition Core_Address :: "core \<Rightarrow> bytes go" where
  "Core_Address c = (case AddrForKey (co_public c) of None \<Rightarrow> Panic | Some a \<Rightarrow> Ok a)"

definition Core_Subnet :: "core \<Rightarrow> (bytes \<times> nat) go" where
  "Core_Subnet c = (case SubnetForKey (co_public c) of None \<Rightarrow> Panic | Some s \<Rightarrow> Ok (s @ replicate 8 0, 64))"

definition AddPeer :: "core_env \<Rightarrow> url \<Rightarrow> string \<Rightarrow> core \<Rightarrow> link_error option \<times> core" where
  "AddPeer env u sintf c =
     (let (err, l) = links_add (ce_lib env) u sintf linkTypePersistent (co_links c) in (err, c\<lparr>co_links := l\<rparr>))"

definition CallPeer :: "core_env \<Rightarrow> url \<Rightarrow> string \<Rightarrow> core \<Rightarrow> link_error option \<times> core" where
  "CallPeer env u sintf c =
     (let (err, l) = links_add (ce_lib env) u sintf linkTypeEphemeral (co_links c) in (err, c\<lparr>co_links := l\<rparr>))"

definition RemovePeer :: "url \<Rightarrow> string \<Rightarrow> core \<Rightarrow> (link_error option \<times> core \<times> link_out list) go" where
  "RemovePeer u sintf c =
     go_bind (links_remove u sintf (co_links c)) (\<lambda>(err, l, outs). Ok (err, c\<lparr>co_links := l\<rparr>, outs))"

record treeEntryInfo =
  ti_Key :: bytes
  ti_Parent :: bytes
  ti_Sequence :: u64

record pathEntryInfo =
  pt_Key :: bytes
  pt_Path :: "u64 list"
  pt_Sequence :: u64

record sessionInfo =
  ss_Key :: bytes
  ss_RXBytes :: u64
  ss_TXBytes :: u64
  ss_Uptime :: int

text \<open>The records that the debug interfaces of the router and of the session layer return.\<close>

record debugTreeInfo =
  dt_Key :: bytes
  dt_Parent :: bytes
  dt_Sequence :: u64

record debugPathInfo =
  dh_Key :: bytes
  dh_Path :: "u64 list"
  dh_Sequence :: u64

record debugSessionInfo =
  ds_Key :: bytes
  ds_RX :: u64
  ds_TX :: u64
  ds_Uptime :: int

definition GetTree :: "debugTreeInfo list \<Rightarrow> treeEntryInfo list" where
  "GetTree ts = map (\<lambda>t. \<lparr>ti_Key = dt_Key t, ti_Parent = dt_Parent t, ti_Sequence = dt_Sequence t\<rparr>) ts"

definition GetPaths :: "debugPathInfo list \<Rightarrow> pathEntryInfo list" where
  "GetPaths ps = map (\<lambda>p. \<lparr>pt_Key = dh_Key p, pt_Path = dh_Path p, pt_Sequence = dh_Sequence p\<rparr>) ps"

definition GetSessions :: "debugSessionInfo list \<Rightarrow> sessionInfo list" where
  "GetSessions xs = map (\<lambda>x. \<lparr>ss_Key = ds_Key x, ss_RXBytes = ds_RX x, ss_TXBytes = ds_TX x, ss_Uptime = ds_Uptime x\<rparr>) xs"

section \<open>Starting: the first pass\<close>

text \<open>What one option of the first pass, or a listen address, does to the configuration.\<close>

fun config_option :: "setup_option \<Rightarrow> core_config \<Rightarrow> core_config" where
  "config_option (ListenAddress a) cfg = cfg\<lparr>cfg_listeners := finsert a (cfg_listeners cfg)\<rparr>"
| "config_option (Peer uri sintf) cfg = cfg"
| "config_option (NodeInfo m) cfg = cfg\<lparr>cfg_nodeinfo := m\<rparr>"
| "config_option (NodeInfoPrivacy b) cfg = cfg\<lparr>nodeinfoPrivacy := b\<rparr>"
| "config_option (AllowedPublicKey k) cfg = cfg\<lparr>allowedPublicKeys := finsert (array_of 32 k) (allowedPublicKeys cfg)\<rparr>"
| "config_option (PeerFilter f) cfg = cfg\<lparr>peerFilter := Some f\<rparr>"
| "config_option (GroupPassword p) cfg = cfg\<lparr>groupPassword := p\<rparr>"

lemma core_applyOption_config:
  "\<not> needs_links opt \<Longrightarrow> core_applyOption env opt c = (None, c\<lparr>co_config := config_option opt (co_config c)\<rparr>)"
  "core_applyOption env (ListenAddress a) c = (None, c\<lparr>co_config := config_option (ListenAddress a) (co_config c)\<rparr>)"
  by (cases opt) (simp_all add: core_applyOption_def Let_def)

lemma first_pass:
  "apply_options env False opts c
     = (None, c\<lparr>co_config := fold config_option (filter (\<lambda>opt. \<not> needs_links opt) opts) (co_config c)\<rparr>)"
proof (induction opts arbitrary: c)
  case (Cons opt opts)
  show ?case
  proof (cases "needs_links opt")
    case False
    then show ?thesis using Cons by (simp add: core_applyOption_config)
  qed (use Cons in simp)
qed simp

section \<open>Starting: peers and listeners\<close>

lemma links_add_cases:
  obtains (refused) e where "links_add lib u sintf lt s = (Some e, s)" "e \<noteq> ErrLinkAlreadyConfigured"
      "isl (dialerFor u) \<or> \<not> peer_query_ok lib u"
  | (known) p where "links_add lib u sintf lt s = (Some ErrLinkAlreadyConfigured, kick p s)"
      "fmlookup (lk_links s) (linkInfo_for u sintf) = Some p" "\<not> isl (dialerFor u)" "peer_query_ok lib u"
  | (added) s' t where "links_add lib u sintf lt s = (None, s')" "\<not> isl (dialerFor u)" "peer_query_ok lib u"
      "lk_links s' = fmupd (linkInfo_for u sintf) (lk_next s) (lk_links s)"
      "lk_dialers s' = fmupd (lk_next s) t (lk_dialers s)" "dt_pc t = LoopTop" "dt_type t = lt"
      "lk_listeners s' = lk_listeners s"
proof (cases "dialerFor u")
  case (Inl e)
  then have "e \<noteq> ErrLinkAlreadyConfigured" by (auto simp: dialerFor_def Let_def split: if_splits)
  with Inl show thesis using refused [of e] by (simp add: links_add_def)
next
  case proto: (Inr proto)
  show thesis
  proof (cases "add_options lib u")
    case (Inl e)
    then show thesis
      using refused [of e] proto add_options_iff [of lib u] add_options_not_configured [OF Inl] by (auto simp: links_add_def)
  next
    case opts: (Inr opts)
    have ok: "\<not> isl (dialerFor u)" "peer_query_ok lib u" using proto opts add_options_iff [of lib u] by auto
    show thesis
    proof (cases "fmlookup (lk_links s) (linkInfo_for u sintf)")
      case None
      then show thesis
        using proto opts ok
        by (intro added [OF _ ok, of "snd (links_add lib u sintf lt s)"
              "\<lparr>dt_info = linkInfo_for u sintf, dt_type = lt, dt_url = u, dt_options = opts, dt_backoff = 0, dt_pc = LoopTop\<rparr>"])
           (simp_all add: links_add_def Let_def set_link_def set_thread_def)
    next
      case (Some p)
      then show thesis using known [OF _ Some ok] proto opts by (simp add: links_add_def Let_def)
    qed
  qed
qed

text \<open>No goroutine of the links has run yet.\<close>

definition untouched :: "links \<Rightarrow> bool" where
  "untouched s \<longleftrightarrow>
     (\<forall>info p. fmlookup (lk_links s) info = Some p \<longrightarrow>
        (\<exists>t. fmlookup (lk_dialers s) p = Some t \<and> dt_pc t = LoopTop \<and> dt_type t = linkTypePersistent))"

definition peer_accepted :: "core_env \<Rightarrow> string \<Rightarrow> bool" where
  "peer_accepted env uri \<longleftrightarrow>
     (\<exists>u. url_Parse env uri = Some u \<and> \<not> isl (dialerFor u) \<and> peer_query_ok (ce_lib env) u)"

definition configured :: "core_env \<Rightarrow> setup_option list \<Rightarrow> linkInfo set" where
  "configured env opts = {linkInfo_for u sintf | u uri sintf. Peer uri sintf \<in> set opts \<and> url_Parse env uri = Some u}"

lemma reachable_add: "reachable lib s \<Longrightarrow> reachable lib (snd (links_add lib u sintf lt s))"
  by (rule reachable.step [where e = "Add u sintf lt"]) (auto simp: links_step_def)

lemma reachable_listen: "reachable lib s \<Longrightarrow> reachable lib (snd (links_listen u opened s))"
  by (rule reachable.step [where e = "Listen u opened"]) (auto simp: links_step_def)

lemma untouched_kick: "untouched s \<Longrightarrow> fmlookup (lk_links s) info = Some p \<Longrightarrow> kick p s = s"
  unfolding untouched_def kick_def by (auto split: option.splits dial_pc.splits) force

lemma untouched_added:
  assumes "untouched s" "links_wf s" "lk_links s' = fmupd info (lk_next s) (lk_links s)"
    "lk_dialers s' = fmupd (lk_next s) t (lk_dialers s)" "dt_pc t = LoopTop" "dt_type t = linkTypePersistent"
  shows "untouched s'"
proof -
  have "p \<noteq> lk_next s" if "fmlookup (lk_links s) i = Some p" for i p
    using that assms(2) unfolding links_wf_def by (metis less_irrefl)
  then show ?thesis using assms unfolding untouched_def by (auto split: if_splits)
qed

lemma apply_peer:
  assumes "reachable (ce_lib env) (co_links c)" "untouched (co_links c)"
  shows "(fst (core_applyOption env (Peer uri sintf) c) = None \<longleftrightarrow> peer_accepted env uri)
    \<and> (\<exists>l. snd (core_applyOption env (Peer uri sintf) c) = c\<lparr>co_links := l\<rparr>
        \<and> reachable (ce_lib env) l \<and> untouched l \<and> lk_listeners l = lk_listeners (co_links c)
        \<and> (peer_accepted env uri \<longrightarrow>
             fset (fmdom (lk_links l)) = fset (fmdom (lk_links (co_links c))) \<union> configured env [Peer uri sintf]))"
proof (cases "url_Parse env uri")
  case None
  then have r: "core_applyOption env (Peer uri sintf) c = (Some ErrPeeringURI, c)" by (simp add: core_applyOption_def)
  have "\<not> peer_accepted env uri" using None by (simp add: peer_accepted_def)
  then show ?thesis unfolding r using assms by (intro conjI exI [of _ "co_links c"]) simp_all
next
  case (Some u)
  let ?s = "co_links c"
  have conf: "configured env [Peer uri sintf] = {linkInfo_for u sintf}" using Some by (auto simp: configured_def)
  have acc: "peer_accepted env uri \<longleftrightarrow> \<not> isl (dialerFor u) \<and> peer_query_ok (ce_lib env) u"
    using Some by (simp add: peer_accepted_def)
  show ?thesis
  proof (cases rule: links_add_cases [of "ce_lib env" u sintf linkTypePersistent ?s])
    case (refused e)
    then have r: "core_applyOption env (Peer uri sintf) c = (Some (ErrAddPeer e), c)"
      using Some by (simp add: core_applyOption_def Let_def)
    show ?thesis unfolding r acc using assms refused(3) by (intro conjI exI [of _ ?s]) auto
  next
    case (known p)
    have k: "kick p ?s = ?s" by (rule untouched_kick [OF assms(2) known(2)])
    have r: "core_applyOption env (Peer uri sintf) c = (None, c)"
      using Some known(1) k by (simp add: core_applyOption_def Let_def)
    have "linkInfo_for u sintf |\<in>| fmdom (lk_links ?s)" using known(2) by (rule fmdomI)
    then show ?thesis unfolding r acc conf using assms known(3,4) by (intro conjI exI [of _ ?s]) auto
  next
    case (added s' t)
    have r: "core_applyOption env (Peer uri sintf) c = (None, c\<lparr>co_links := s'\<rparr>)"
      using Some added(1) by (simp add: core_applyOption_def Let_def)
    have re: "reachable (ce_lib env) s'" using reachable_add [OF assms(1), of u sintf linkTypePersistent] added(1) by simp
    have "links_wf ?s" by (rule links_invD(1) [OF reachable_inv [OF assms(1)]])
    then have un: "untouched s'" using untouched_added [OF assms(2) _ added(4,5,6,7)] by simp
    show ?thesis unfolding r acc conf using re un added(2,3,4,8) by (intro conjI exI [of _ s']) auto
  qed
qed

lemma configured_Cons: "configured env (opt # opts) = configured env [opt] \<union> configured env opts"
  by (auto simp: configured_def)

lemma configured_other: "(\<And>uri sintf. opt \<noteq> Peer uri sintf) \<Longrightarrow> configured env [opt] = {}"
  by (auto simp: configured_def)

text \<open>What the second pass over \<open>opts\<close>, from node \<open>c\<close>, has to result in.\<close>

definition peers_accepted :: "core_env \<Rightarrow> setup_option list \<Rightarrow> bool" where
  "peers_accepted env opts \<longleftrightarrow> (\<forall>uri sintf. Peer uri sintf \<in> set opts \<longrightarrow> peer_accepted env uri)"

definition same_node :: "core \<Rightarrow> core \<Rightarrow> bool" where
  "same_node c c' \<longleftrightarrow>
     co_secret c' = co_secret c \<and> co_public c' = co_public c \<and> co_proto c' = co_proto c
   \<and> pathNotify c' = pathNotify c \<and> co_closed c' = co_closed c"

definition second_pass_ok :: "core_env \<Rightarrow> setup_option list \<Rightarrow> core \<Rightarrow> core_error option \<times> core \<Rightarrow> bool" where
  "second_pass_ok env opts c r \<longleftrightarrow>
     (fst r = None \<longleftrightarrow> peers_accepted env opts)
   \<and> same_node c (snd r)
   \<and> reachable (ce_lib env) (co_links (snd r)) \<and> untouched (co_links (snd r))
   \<and> lk_listeners (co_links (snd r)) = lk_listeners (co_links c)
   \<and> (fst r = None \<longrightarrow> co_config (snd r) = fold config_option (filter needs_links opts) (co_config c))
   \<and> (fst r = None \<longrightarrow>
        fset (fmdom (lk_links (co_links (snd r)))) = fset (fmdom (lk_links (co_links c))) \<union> configured env opts)"

lemma peers_accepted_Cons: "peers_accepted env (opt # opts) \<longleftrightarrow> peers_accepted env [opt] \<and> peers_accepted env opts"
  by (auto simp: peers_accepted_def)

lemma second_pass_one:
  assumes "reachable (ce_lib env) (co_links c)" "untouched (co_links c)" "needs_links opt"
  shows "second_pass_ok env [opt] c (core_applyOption env opt c)"
proof (cases opt)
  case (Peer uri sintf)
  note ap = apply_peer [OF assms(1,2), of uri sintf, folded Peer]
  from conjunct2 [OF ap] obtain l where
    l: "snd (core_applyOption env opt c) = c\<lparr>co_links := l\<rparr>" "reachable (ce_lib env) l" "untouched l"
      "lk_listeners l = lk_listeners (co_links c)"
      "peer_accepted env uri \<longrightarrow>
         fset (fmdom (lk_links l)) = fset (fmdom (lk_links (co_links c))) \<union> configured env [opt]"
    by (elim exE conjE)
  note acc = conjunct1 [OF ap]
  have "peers_accepted env [opt] \<longleftrightarrow> peer_accepted env uri" by (auto simp: peers_accepted_def Peer)
  moreover have "filter needs_links [opt] = [opt]" "config_option opt (co_config c) = co_config c" by (simp_all add: Peer)
  ultimately show ?thesis using l acc by (simp add: second_pass_ok_def same_node_def)
next
  case (ListenAddress a)
  have "configured env [opt] = {}" "peers_accepted env [opt]" by (auto simp: configured_def peers_accepted_def ListenAddress)
  then show ?thesis using assms by (simp add: second_pass_ok_def same_node_def ListenAddress core_applyOption_config)
qed (use assms in simp_all)

lemma second_pass_more:
  assumes one: "second_pass_ok env [opt] c (None, c1)" and rest: "second_pass_ok env opts c1 r" and "needs_links opt"
  shows "second_pass_ok env (opt # opts) c r"
proof -
  have "same_node c (snd r)" using one rest by (simp add: second_pass_ok_def same_node_def)
  moreover have "fst r = None \<longleftrightarrow> peers_accepted env (opt # opts)"
    using one rest peers_accepted_Cons [of env opt opts] by (simp add: second_pass_ok_def)
  ultimately show ?thesis
    using one rest assms(3) configured_Cons [of env opt opts] by (simp add: second_pass_ok_def Un_assoc)
qed

lemma second_pass:
  "reachable (ce_lib env) (co_links c) \<Longrightarrow> untouched (co_links c) \<Longrightarrow>
   second_pass_ok env opts c (apply_options env True opts c)"
proof (induction opts arbitrary: c)
  case Nil
  then show ?case by (simp add: second_pass_ok_def same_node_def configured_def peers_accepted_def)
next
  case (Cons opt opts)
  show ?case
  proof (cases "needs_links opt")
    case True
    note one = second_pass_one [OF Cons.prems True]
    obtain err c1 where s: "core_applyOption env opt c = (err, c1)" by (rule prod.exhaust)
    show ?thesis
    proof (cases err)
      case None
      have "reachable (ce_lib env) (co_links c1)" "untouched (co_links c1)"
        using one by (simp_all add: second_pass_ok_def s)
      from second_pass_more [OF _ Cons.IH [OF this] True] one show ?thesis by (simp add: s None True)
    next
      case (Some e)
      then have "\<not> peers_accepted env (opt # opts)"
        using one peers_accepted_Cons [of env opt opts] by (simp add: second_pass_ok_def s)
      then show ?thesis using one by (simp add: second_pass_ok_def s Some True)
    qed
  next
    case False
    have "configured env [opt] = {}" "peers_accepted env [opt]"
      using False by (auto simp: configured_def peers_accepted_def)
    then show ?thesis
      using Cons.IH [OF Cons.prems] False configured_Cons [of env opt opts] peers_accepted_Cons [of env opt opts]
      by (simp add: second_pass_ok_def)
  qed
qed

lemma config_option_commute:
  "needs_links a \<Longrightarrow> \<not> needs_links b \<Longrightarrow> config_option a (config_option b cfg) = config_option b (config_option a cfg)"
  by (cases a; cases b) simp_all

lemma fold_config_commute:
  "needs_links a \<Longrightarrow> fold config_option (filter (\<lambda>opt. \<not> needs_links opt) opts) (config_option a cfg)
     = config_option a (fold config_option (filter (\<lambda>opt. \<not> needs_links opt) opts) cfg)"
proof (induction opts arbitrary: cfg)
  case (Cons b opts)
  show ?case
  proof (cases "needs_links b")
    case True
    then show ?thesis using Cons by simp
  next
    case False
    then show ?thesis
      using Cons.IH [OF Cons.prems, of "config_option b cfg"] config_option_commute [OF Cons.prems False, of cfg] by simp
  qed
qed simp

text \<open>The two passes together apply the options in the order in which they are given.\<close>

lemma two_passes:
  "fold config_option (filter needs_links opts) (fold config_option (filter (\<lambda>opt. \<not> needs_links opt) opts) cfg)
     = fold config_option opts cfg"
proof (induction opts arbitrary: cfg)
  case (Cons opt opts)
  show ?case
  proof (cases "needs_links opt")
    case True
    then show ?thesis using Cons [of "config_option opt cfg"] by (simp add: fold_config_commute)
  qed (use Cons in simp)
qed simp

lemma config_option_tls: "config_option opt (cfg\<lparr>cfg_tls := t\<rparr>) = (config_option opt cfg)\<lparr>cfg_tls := t\<rparr>"
  by (cases opt) simp_all

lemma fold_config_tls: "fold config_option opts (cfg\<lparr>cfg_tls := t\<rparr>) = (fold config_option opts cfg)\<lparr>cfg_tls := t\<rparr>"
  by (induction opts arbitrary: cfg) (simp_all add: config_option_tls)

text \<open>The socket that a listen address opens, unless it is refused.\<close>

definition listener_of :: "core_env \<Rightarrow> string \<Rightarrow> nat set" where
  "listener_of env a =
     (case url_Parse env a of
        None \<Rightarrow> {}
      | Some u \<Rightarrow>
          (case ce_open env u of
             Inl _ \<Rightarrow> {}
           | Inr li \<Rightarrow> if isl (listenerFor u) \<or> isl (listen_options u) then {} else {li}))"

lemma links_listen_keeps:
  "lk_links (snd (links_listen u opened s)) = lk_links s"
  "lk_dialers (snd (links_listen u opened s)) = lk_dialers s"
  "url_Parse env a = Some u \<Longrightarrow>
     fset (lk_listeners (snd (links_listen u (ce_open env u) s))) = fset (lk_listeners s) \<union> listener_of env a"
  by (auto simp: links_listen_def listener_of_def Let_def split: sum.splits)

lemma start_listeners_ok:
  "reachable (ce_lib env) s \<Longrightarrow> untouched s \<Longrightarrow>
     reachable (ce_lib env) (start_listeners env as s) \<and> untouched (start_listeners env as s)
   \<and> lk_links (start_listeners env as s) = lk_links s
   \<and> fset (lk_listeners (start_listeners env as s)) = fset (lk_listeners s) \<union> (\<Union>a \<in> set as. listener_of env a)"
proof (induction as arbitrary: s)
  case (Cons a as)
  show ?case
  proof (cases "url_Parse env a")
    case None
    then show ?thesis using Cons by (simp add: listener_of_def)
  next
    case (Some u)
    let ?s = "snd (links_listen u (ce_open env u) s)"
    have "reachable (ce_lib env) ?s" using Cons.prems(1) by (rule reachable_listen)
    moreover have "untouched ?s" using Cons.prems(2) by (simp add: untouched_def links_listen_keeps)
    ultimately show ?thesis
      using Cons.IH [of ?s] Some links_listen_keeps(1) [of u "ce_open env u" s] links_listen_keeps(3) [OF Some, of s] by auto
  qed
qed simp

definition nodeinfo_fits :: "core_env \<Rightarrow> core_config \<Rightarrow> bool" where
  "nodeinfo_fits env cfg \<longleftrightarrow>
     (\<exists>js. json_Marshal (json_map (nodeinfo_map (ce_build env) (cfg_nodeinfo cfg) (nodeinfoPrivacy cfg))) = Some js
        \<and> length js \<le> 16384)"

lemma setNodeInfo_fits:
  "fst (setNodeInfo (ce_build env) (cfg_nodeinfo cfg) (nodeinfoPrivacy cfg) m) = None \<longleftrightarrow> nodeinfo_fits env cfg"
  by (auto simp: setNodeInfo_def nodeinfo_fits_def split: option.splits)

lemma fits_tls [simp]: "nodeinfo_fits env (cfg\<lparr>cfg_tls := t\<rparr>) = nodeinfo_fits env cfg"
  by (simp add: nodeinfo_fits_def)

lemma untouched_init: "untouched links_init"
  by (simp add: untouched_def links_init_def)

lemma core_New_boot:
  assumes "length sk = 64" and cfg_def: "cfg = fold config_option opts (co_config core_zero)"
  shows "(fst (core_New env (Some (Ed25519Key sk)) opts now order) = None \<longleftrightarrow> peers_accepted env opts \<and> nodeinfo_fits env cfg)
    \<and> (fst (core_New env (Some (Ed25519Key sk)) opts now order) = None \<longrightarrow>
        (let c = snd (core_New env (Some (Ed25519Key sk)) opts now order)
         in co_config c = cfg\<lparr>cfg_tls := Some generateTLSConfig\<rparr> \<and> co_public c = ed25519_Public sk
          \<and> reachable (ce_lib env) (co_links c) \<and> untouched (co_links c)
          \<and> fset (fmdom (lk_links (co_links c))) = configured env opts
          \<and> fset (lk_listeners (co_links c)) = (\<Union>a \<in> set order. listener_of env a)))"
proof -
  define c1 where "c1 = core_boot now sk (snd (apply_options env False opts core_zero))"
  obtain err c2 where c2: "apply_options env True opts c1 = (err, c2)" by (rule prod.exhaust)
  have l1: "co_links c1 = links_init" by (simp add: c1_def core_boot_def)
  have ok: "second_pass_ok env opts c1 (err, c2)"
    using second_pass [of env c1 opts] reachable.start untouched_init by (simp add: l1 c2)
  have new: "core_New env (Some (Ed25519Key sk)) opts now order =
      (case (err, c2) of (Some e, c) \<Rightarrow> (Some e, c)
       | (None, c) \<Rightarrow>
           (case setNodeInfo (ce_build env) (cfg_nodeinfo (co_config c)) (nodeinfoPrivacy (co_config c)) (ph_nodeinfo (co_proto c)) of
              (Some e, ni) \<Rightarrow> (Some (ErrSettingNodeInfo e), c\<lparr>co_proto := (co_proto c)\<lparr>ph_nodeinfo := ni\<rparr>\<rparr>)
            | (None, ni) \<Rightarrow> (None, c\<lparr>co_proto := (co_proto c)\<lparr>ph_nodeinfo := ni\<rparr>,
                                    co_links := start_listeners env order (co_links c)\<rparr>)))"
    using assms(1) c2 by (simp add: core_New_def first_pass c1_def)
  show ?thesis
  proof (cases err)
    case (Some e)
    then have "\<not> peers_accepted env opts" using ok by (simp add: second_pass_ok_def)
    then show ?thesis by (simp add: new Some)
  next
    case None
    have acc: "peers_accepted env opts" using ok None by (simp add: second_pass_ok_def)
    have cfg2: "co_config c2 = cfg\<lparr>cfg_tls := Some generateTLSConfig\<rparr>"
      using ok None
      by (simp add: second_pass_ok_def c1_def core_boot_def first_pass fold_config_tls two_passes cfg_def)
    have links2: "reachable (ce_lib env) (co_links c2)" "untouched (co_links c2)" "lk_listeners (co_links c2) = {||}"
      "fset (fmdom (lk_links (co_links c2))) = configured env opts" "co_public c2 = ed25519_Public sk"
      using ok None by (simp_all add: second_pass_ok_def same_node_def l1) (simp_all add: links_init_def c1_def core_boot_def)
    obtain e ni where ni: "setNodeInfo (ce_build env) (cfg_nodeinfo (co_config c2)) (nodeinfoPrivacy (co_config c2))
        (ph_nodeinfo (co_proto c2)) = (e, ni)" by (rule prod.exhaust)
    have "e = None \<longleftrightarrow> nodeinfo_fits env cfg"
      using setNodeInfo_fits [of env "co_config c2" "ph_nodeinfo (co_proto c2)"] unfolding ni by (simp add: cfg2)
    moreover have "core_New env (Some (Ed25519Key sk)) opts now order =
        (case e of Some e \<Rightarrow> (Some (ErrSettingNodeInfo e), c2\<lparr>co_proto := (co_proto c2)\<lparr>ph_nodeinfo := ni\<rparr>\<rparr>)
         | None \<Rightarrow> (None, c2\<lparr>co_proto := (co_proto c2)\<lparr>ph_nodeinfo := ni\<rparr>,
                             co_links := start_listeners env order (co_links c2)\<rparr>))"
      unfolding new None by (simp add: ni split: option.splits)
    ultimately show ?thesis
      using acc cfg2 links2 start_listeners_ok [OF links2(1,2), of order] by (cases e) simp_all
  qed
qed

lemma Core_Address_valid: "length (co_public c) = 32 \<Longrightarrow> \<exists>a. Core_Address c = Ok a \<and> Address_IsValid a"
proof -
  assume l: "length (co_public c) = 32"
  obtain a where a: "AddrForKey (co_public c) = Some a" using AddrForKey_eq [OF l] by blast
  have "a ! 0 = 2" using AddrForKey_canonical [OF l a] by simp
  moreover have "length a = 16" using AddrForKey_canonical [OF l a] canonicalD by blast
  ultimately have "Address_IsValid a" by (simp add: Address_IsValid_def GetPrefix_def)
  then show ?thesis using a by (simp add: Core_Address_def)
qed

text \<open>
  C37. Starting a node. \<^verbatim>\<open>New\<close> succeeds exactly when it gets an ed25519 private key of the right length, every
  peer option is a URI that the links accept, and the node information can be encoded in at most
  16384 bytes; naming a peer twice does no harm, and a listen address that cannot be used does not
  stop the node. The node that is started has the configuration of all options in the order they were
  given, whatever the order of peers and other options; its links are in a state the links
  component can reach, there is exactly one link for every configured peer, whose goroutine is about
  to dial it, the listeners are those of the usable listen addresses, and the node has a valid
  address.
\<close>

theorem core_starts:
  "(fst (core_New env cert opts now order) = None \<longleftrightarrow>
      (\<exists>sk. cert = Some (Ed25519Key sk) \<and> length sk = 64) \<and> peers_accepted env opts
      \<and> nodeinfo_fits env (fold config_option opts (co_config core_zero)))
   \<and> (\<forall>c. core_New env cert opts now order = (None, c) \<longrightarrow>
        co_config c = (fold config_option opts (co_config core_zero))\<lparr>cfg_tls := Some generateTLSConfig\<rparr>
      \<and> reachable (ce_lib env) (co_links c) \<and> untouched (co_links c)
      \<and> fset (fmdom (lk_links (co_links c))) = configured env opts
      \<and> fset (lk_listeners (co_links c)) = (\<Union>a \<in> set order. listener_of env a)
      \<and> (\<exists>a. Core_Address c = Ok a \<and> Address_IsValid a))"
proof (cases "\<exists>sk. cert = Some (Ed25519Key sk) \<and> length sk = 64")
  case True
  then obtain sk where sk: "cert = Some (Ed25519Key sk)" "length sk = 64" by blast
  note boot = core_New_boot [OF sk(2) refl, of env opts now order]
  have "\<exists>a. Core_Address c = Ok a \<and> Address_IsValid a" if "co_public c = ed25519_Public sk" for c
    by (rule Core_Address_valid) (simp add: that ed25519_Public_def)
  then show ?thesis using boot sk by (auto simp: Let_def)
next
  case False
  then have "fst (core_New env cert opts now order) \<noteq> None"
    by (auto simp: core_New_def first_pass split: option.splits private_key.splits)
  then show ?thesis using False by auto
qed

definition sample_core_env :: core_env where
  "sample_core_env =
     \<lparr>url_Parse = (\<lambda>s. if s = ''tcp://peer:9001?origin=a'' then Some sample_url else None), ce_lib = sample_lib,
      ce_open = (\<lambda>u. Inr 5), ce_build = \<lparr>buildName = '''', buildVersion = '''', goos = ''linux'', goarch = ''arm''\<rparr>\<rparr>"

definition sample_opts :: "setup_option list" where
  "sample_opts = [Peer ''tcp://peer:9001?origin=a'' '''', NodeInfoPrivacy True, ListenAddress ''tcp://peer:9001?origin=a'',
     Peer ''tcp://peer:9001?origin=a'' '''', ListenAddress ''nonsense'']"

lemma sample_opts_ok:
  "peers_accepted sample_core_env sample_opts"
  "nodeinfo_fits sample_core_env (fold config_option sample_opts (co_config core_zero))"
proof -
  have "peer_query_ok sample_lib sample_url" using add_options_iff [of sample_lib sample_url] sample_peer_add(2) by blast
  moreover have "\<not> isl (dialerFor sample_url)" by (simp add: sample_peer_add)
  ultimately show "peers_accepted sample_core_env sample_opts"
    by (auto simp: peers_accepted_def peer_accepted_def sample_opts_def sample_core_env_def)
  show "nodeinfo_fits sample_core_env (fold config_option sample_opts (co_config core_zero))"
    by (simp add: nodeinfo_fits_def sample_opts_def core_zero_def nodeinfo_map_def json_map_def sorted_list_of_fset.rep_eq)
qed

theorem core_starts_witness:
  "\<exists>c. core_New sample_core_env (Some (Ed25519Key (replicate 64 1))) sample_opts 0 [''nonsense'', ''tcp://peer:9001?origin=a''] = (None, c)
     \<and> fset (fmdom (lk_links (co_links c))) = {linkInfo_for sample_url ''''} \<and> untouched (co_links c)"
proof -
  note start = core_starts [of sample_core_env "Some (Ed25519Key (replicate 64 1))" sample_opts 0
    "[''nonsense'', ''tcp://peer:9001?origin=a'']"]
  have "configured sample_core_env sample_opts = {linkInfo_for sample_url ''''}"
    by (auto simp: configured_def sample_opts_def sample_core_env_def)
  moreover have "fst (core_New sample_core_env (Some (Ed25519Key (replicate 64 1))) sample_opts 0
      [''nonsense'', ''tcp://peer:9001?origin=a'']) = None"
    using start sample_opts_ok by simp
  ultimately show ?thesis using start by (metis prod.collapse)
qed

text \<open>
  An error after the peers were added leaves them behind: nothing cancels the context, so that the
  goroutines of a node that was never returned go on dialling.
\<close>

lemma failed_start_keeps_dialling:
  assumes "length sk = 64" "peers_accepted env opts"
    "\<not> nodeinfo_fits env (fold config_option opts (co_config core_zero))" "info \<in> configured env opts"
  shows "\<exists>e c p t. core_New env (Some (Ed25519Key sk)) opts now order = (Some e, c)
    \<and> fmlookup (lk_links (co_links c)) info = Some p \<and> fmlookup (lk_dialers (co_links c)) p = Some t
    \<and> dt_pc t = LoopTop"
proof -
  define c1 where "c1 = core_boot now sk (snd (apply_options env False opts core_zero))"
  obtain err c2 where c2: "apply_options env True opts c1 = (err, c2)" by (rule prod.exhaust)
  have l1: "co_links c1 = links_init" by (simp add: c1_def core_boot_def)
  have ok: "second_pass_ok env opts c1 (err, c2)"
    using second_pass [of env c1 opts] reachable.start untouched_init by (simp add: l1 c2)
  then have err: "err = None" using assms(2) by (simp add: second_pass_ok_def)
  have un: "untouched (co_links c2)" "info |\<in>| fmdom (lk_links (co_links c2))"
    using ok err assms(4) by (auto simp: second_pass_ok_def)
  then obtain p t where p: "fmlookup (lk_links (co_links c2)) info = Some p" "fmlookup (lk_dialers (co_links c2)) p = Some t"
      "dt_pc t = LoopTop" unfolding untouched_def by (metis fmlookup_dom_iff)
  have "fst (core_New env (Some (Ed25519Key sk)) opts now order) \<noteq> None"
    using core_New_boot [OF assms(1) refl, of env opts now order] assms(3) by simp
  moreover have "co_links (snd (core_New env (Some (Ed25519Key sk)) opts now order)) = co_links c2"
    using calculation assms(1) c2 err by (auto simp: core_New_def first_pass c1_def split: prod.splits option.splits)
  ultimately show ?thesis using p by (metis not_Some_eq prod.collapse)
qed

end
