(* ===== verification/Admin.thy ===== *)
theory Admin
  imports Core Multicast "HOL-Library.Multiset" "HOL-Library.Product_Lexorder"
begin

text \<open>
  The admin socket, \<^verbatim>\<open>src/admin\<close>: its setup, the table of handlers, the loop that answers the requests
  of a connection, the handlers with the responses they build, the order in which peers are listed,
  and the health report of the \<^verbatim>\<open>doctor\<close> handler; with \<^verbatim>\<open>SetAdmin\<close> of \<^verbatim>\<open>src/core/api.go\<close>. A connection
  delivers parsed JSON values; \<open>decode_struct\<close> and \<open>decode_pointer\<close> are \<^verbatim>\<open>json.Unmarshal\<close> into a structure and
  into a pointer to one. What the node sees around a request is the record \<open>admin_env\<close>.
\<close>

section \<open>Decoding requests\<close>

text \<open>
  Decoding goes on after a value of the wrong type and reports it at the end. The names of fields are
  compared without regard to case, an unknown field is skipped, and a null leaves a field as it is.
\<close>

fun decode_struct :: "(string \<Rightarrow> json \<Rightarrow> 'a \<Rightarrow> bool \<times> 'a) \<Rightarrow> json \<Rightarrow> 'a \<Rightarrow> bool \<times> 'a" where
  "decode_struct field JNull x = (True, x)"
| "decode_struct field (JObj kvs) x =
     fold (\<lambda>(k, v) (ok, x). let (ok', x) = field (ToLower k) v x in (ok \<and> ok', x)) kvs (True, x)"
| "decode_struct field _ x = (False, x)"

text \<open>A null sets the pointer to nil.\<close>

definition decode_pointer :: "(string \<Rightarrow> json \<Rightarrow> 'a \<Rightarrow> bool \<times> 'a) \<Rightarrow> json \<Rightarrow> 'a \<Rightarrow> bool \<times> 'a option" where
  "decode_pointer field v x =
     (if v = JNull then (True, None) else (let (ok, x) = decode_struct field v x in (ok, Some x)))"

definition string_field :: "(string \<Rightarrow> 'a \<Rightarrow> 'a) \<Rightarrow> json \<Rightarrow> 'a \<Rightarrow> bool \<times> 'a" where
  "string_field upd v x = (case v of JStr s \<Rightarrow> (True, upd s x) | JNull \<Rightarrow> (True, x) | _ \<Rightarrow> (False, x))"

definition bool_field :: "(bool \<Rightarrow> 'a \<Rightarrow> 'a) \<Rightarrow> json \<Rightarrow> 'a \<Rightarrow> bool \<times> 'a" where
  "bool_field upd v x = (case v of JBool b \<Rightarrow> (True, upd b x) | JNull \<Rightarrow> (True, x) | _ \<Rightarrow> (False, x))"

record adminSocketRequest =
  ar_Name :: string
  ar_Arguments :: json
  ar_KeepAlive :: bool

text \<open>A raw message takes any value, null included.\<close>

definition request_field :: "string \<Rightarrow> json \<Rightarrow> adminSocketRequest \<Rightarrow> bool \<times> adminSocketRequest" where
  "request_field k v r =
     (if k = ''request'' then string_field (\<lambda>s r. r\<lparr>ar_Name := s\<rparr>) v r
      else if k = ''arguments'' then (True, r\<lparr>ar_Arguments := v\<rparr>)
      else if k = ''keepalive'' then bool_field (\<lambda>b r. r\<lparr>ar_KeepAlive := b\<rparr>) v r
      else (True, r))"

record peerRequest =
  pr_Uri :: string
  pr_Sintf :: string

definition peer_field :: "string \<Rightarrow> json \<Rightarrow> peerRequest \<Rightarrow> bool \<times> peerRequest" where
  "peer_field k v r =
     (if k = ''uri'' then string_field (\<lambda>s r. r\<lparr>pr_Uri := s\<rparr>) v r
      else if k = ''interface'' then string_field (\<lambda>s r. r\<lparr>pr_Sintf := s\<rparr>) v r
      else (True, r))"

definition sort_field :: "string \<Rightarrow> json \<Rightarrow> string \<Rightarrow> bool \<times> string" where
  "sort_field k v r = (if k = ''sort'' then string_field (\<lambda>s r. s) v r else (True, r))"

definition key_field :: "string \<Rightarrow> json \<Rightarrow> string \<Rightarrow> bool \<times> string" where
  "key_field k v r = (if k = ''key'' then string_field (\<lambda>s r. s) v r else (True, r))"

definition no_field :: "string \<Rightarrow> json \<Rightarrow> unit \<Rightarrow> bool \<times> unit" where
  "no_field k v r = (True, r)"

section \<open>Addresses as text\<close>

definition ip_group :: "ip \<Rightarrow> nat \<Rightarrow> nat" where
  "ip_group bs i = 256 * unat (bs ! (2 * i)) + unat (bs ! (2 * i + 1))"

fun show_hex :: "nat \<Rightarrow> string" where
  "show_hex n = (if n < 16 then [hexdigit n] else show_hex (n div 16) @ [hexdigit (n mod 16)])"

declare show_hex.simps [simp del]

text \<open>The first longest run of at least two zero groups, as its start and end.\<close>

fun zero_run :: "nat list \<Rightarrow> nat" where
  "zero_run [] = 0"
| "zero_run (g # gs) = (if g = 0 then Suc (zero_run gs) else 0)"

definition longest_zeros :: "nat list \<Rightarrow> nat \<times> nat" where
  "longest_zeros gs =
     foldl (\<lambda>(a, b) i. let l = zero_run (drop i gs) in if 2 \<le> l \<and> b - a < l then (i, i + l) else (a, b))
       (0, 0) [0..<length gs]"

fun colons :: "string list \<Rightarrow> string" where
  "colons [] = []"
| "colons [s] = s"
| "colons (s # t # ss) = s @ '':'' @ colons (t # ss)"

definition ip6_String :: "ip \<Rightarrow> string" where
  "ip6_String bs =
     (let gs = map (ip_group bs) [0..<8]; (a, b) = longest_zeros gs
      in if a = b then colons (map show_hex gs)
         else colons (map show_hex (take a gs)) @ ''::'' @ colons (map show_hex (drop b gs)))"

fun dots :: "string list \<Rightarrow> string" where
  "dots [] = []"
| "dots [s] = s"
| "dots (s # t # ss) = s @ ''.'' @ dots (t # ss)"

definition ip_String :: "ip \<Rightarrow> string" where
  "ip_String bs =
     (if length bs = 0 then ''<nil>''
      else if length bs \<noteq> 4 \<and> length bs \<noteq> 16 then ''?'' @ hex_encode bs
      else case To4 bs of
             Some v4 \<Rightarrow> dots (map (\<lambda>b. show_nat (unat b)) v4)
           | None \<Rightarrow> ip6_String bs)"

section \<open>Stable sorting\<close>

text \<open>
  \<^verbatim>\<open>slices.SortStableFunc\<close>: insertion sort, which is what the library runs on up to twenty elements; for
  a consistent comparison every stable sort gives the same list.
\<close>

fun sort_insert :: "('a \<Rightarrow> 'a \<Rightarrow> int) \<Rightarrow> 'a \<Rightarrow> 'a list \<Rightarrow> 'a list" where
  "sort_insert cmp x [] = [x]"
| "sort_insert cmp x (y # ys) = (if cmp x y < 0 then y # sort_insert cmp x ys else x # y # ys)"

definition SortStableFunc :: "('a \<Rightarrow> 'a \<Rightarrow> int) \<Rightarrow> 'a list \<Rightarrow> 'a list" where
  "SortStableFunc cmp xs = rev (foldl (\<lambda>sorted x. sort_insert cmp x sorted) [] xs)"

text \<open>The list under construction is kept with its last element first, the order in which it is searched.\<close>

definition strings_Compare :: "string \<Rightarrow> string \<Rightarrow> int" where
  "strings_Compare a b = (if a = b then 0 else if a < b then -1 else 1)"

section \<open>Responses\<close>

record getSelfResponse =
  gs_BuildName :: string
  gs_BuildVersion :: string
  gs_PublicKey :: string
  gs_IPAddress :: string
  gs_RoutingEntries :: u64
  gs_Subnet :: string

record peerEntry =
  pe_URI :: string
  pe_Up :: bool
  pe_Inbound :: bool
  pe_IPAddress :: string
  pe_PublicKey :: string
  pe_Port :: u64
  pe_Priority :: u64
  pe_Cost :: u64
  pe_RXBytes :: u64
  pe_TXBytes :: u64
  pe_RXRate :: u64
  pe_TXRate :: u64
  pe_Uptime :: int
  pe_Latency :: int
  pe_LastErrorTime :: int
  pe_LastError :: "link_error option"

record treeEntry =
  te_IPAddress :: string
  te_PublicKey :: string
  te_Parent :: string
  te_Sequence :: u64

record pathEntry =
  ph_IPAddress :: string
  ph_PublicKey :: string
  ph_Path :: "u64 list"
  ph_Sequence :: u64

record sessionEntry =
  se_IPAddress :: string
  se_PublicKey :: string
  se_RXBytes :: u64
  se_TXBytes :: u64
  se_Uptime :: int

record listEntry =
  le_Command :: string
  le_Description :: string
  le_Fields :: "string list"

record doctorCheck =
  dc_Name :: string
  dc_Status :: string
  dc_Summary :: string

record doctorResponse =
  dr_Status :: string
  dr_Checks :: "doctorCheck list"
  dr_Recommendations :: "string list"

record getTUNResponse =
  tn_Enabled :: bool
  tn_Name :: string
  tn_MTU :: u64

record lookupEntry =
  lu_Address :: string
  lu_Key :: string
  lu_Path :: "u64 list"
  lu_Time :: nat

section \<open>The handlers\<close>

text \<open>What a handler finds around it: the time, the views of the router and the session layer, the orders of map iteration, the answer of a remote node, and which texts are valid JSON.\<close>

record admin_env =
  ae_core :: core_env
  ae_now :: nat
  ae_peers :: "debugPeerInfo list"
  ae_links :: "linkInfo fset \<Rightarrow> linkInfo list"
  ae_entries :: u64
  ae_tree :: "debugTreeInfo list"
  ae_paths :: "debugPathInfo list"
  ae_sessions :: "debugSessionInfo list"
  ae_reply :: "bytes option"
  ae_chan :: nat
  ae_tun :: getTUNResponse
  ae_multicast :: multicast
  ae_interfaces :: "string list"
  ae_commands :: "string list"
  ae_looked :: "bytes list"
  ae_stat :: "string \<Rightarrow> nat option"
  ae_millis :: "int \<Rightarrow> string"
  ae_valid :: "bytes \<Rightarrow> bool"

datatype handler_fn =
    HList | HGetSelf | HGetPeers | HDoctor | HGetTree | HGetPaths | HGetSessions | HAddPeer | HRemovePeer
  | HGetNodeInfo | HRemoteGetSelf | HRemoteGetPeers | HRemoteGetTree | HLookups | HGetTUN | HGetMulticast

record handlerEntry =
  h_desc :: string
  h_args :: "string list"
  h_fn :: handler_fn

record adminSocket =
  as_handlers :: "(string, handlerEntry) fmap"
  as_listenaddr :: string
  as_listener :: "nat option"
  as_done :: bool
  as_lookups :: "(bytes, u64 list \<times> nat) fmap"

datatype admin_error =
    ErrFindRequest | ErrUnmarshalRequest | ErrNoRequest | ErrUnknownAction string
  | ErrArguments | ErrPeerURI | ErrPeerLink link_error | ErrRemote proto_error | ErrMarshalResponse

datatype admin_value =
    VList "listEntry list" | VSelf getSelfResponse | VPeers "peerEntry list" | VDoctor doctorResponse
  | VTree "treeEntry list" | VPaths "pathEntry list" | VSessions "sessionEntry list" | VEmpty
  | VNodeInfo string bytes | VRemote address bytes | VLookups "lookupEntry list" | VTUN getTUNResponse
  | VMulticast "multicastInterfaceState list"

datatype admin_out = LinkDoes link_out | ProtoDoes proto_out

definition AddHandler :: "string \<Rightarrow> string \<Rightarrow> string list \<Rightarrow> handler_fn \<Rightarrow> adminSocket \<Rightarrow> bool \<times> adminSocket" where
  "AddHandler name desc args fn a =
     (if ToLower name |\<in>| fmdom (as_handlers a) then (False, a)
      else (True, a\<lparr>as_handlers := fmupd (ToLower name) \<lparr>h_desc = desc, h_args = args, h_fn = fn\<rparr> (as_handlers a)\<rparr>))"

definition list_handler :: "string list \<Rightarrow> adminSocket \<Rightarrow> listEntry list" where
  "list_handler order a =
     SortStableFunc (\<lambda>x y. strings_Compare (le_Command x) (le_Command y))
       (map (\<lambda>name. let h = the (fmlookup (as_handlers a) name)
                     in \<lparr>le_Command = name, le_Description = h_desc h, le_Fields = h_args h\<rparr>) order)"

definition admin_getSelf :: "admin_env \<Rightarrow> core \<Rightarrow> getSelfResponse go" where
  "admin_getSelf env c =
     (let self = GetSelf (co_public c) (ae_entries env)
      in go_bind (Core_Subnet c) (\<lambda>(snet, bits).
           go_bind (Core_Address c) (\<lambda>ip.
             Ok \<lparr>gs_BuildName = BuildName (buildName (ce_build (ae_core env))),
                 gs_BuildVersion = BuildVersion (buildVersion (ce_build (ae_core env))),
                 gs_PublicKey = hex_encode (si_Key self), gs_IPAddress = ip_String ip,
                 gs_RoutingEntries = si_RoutingEntries self,
                 gs_Subnet = ip_String snet @ ''/'' @ show_nat bits\<rparr>)))"

definition peer_entry :: "nat \<Rightarrow> peerInfo \<Rightarrow> peerEntry" where
  "peer_entry now p =
     \<lparr>pe_URI = pi_URI p, pe_Up = pi_Up p, pe_Inbound = pi_Inbound p,
      pe_IPAddress = (case AddrForKey (pi_Key p) of None \<Rightarrow> '''' | Some a \<Rightarrow> ip_String a),
      pe_PublicKey = (case AddrForKey (pi_Key p) of None \<Rightarrow> '''' | Some a \<Rightarrow> hex_encode (pi_Key p)),
      pe_Port = pi_Port p, pe_Priority = ucast (pi_Priority p), pe_Cost = pi_Cost p,
      pe_RXBytes = pi_RXBytes p, pe_TXBytes = pi_TXBytes p, pe_RXRate = pi_RXRate p, pe_TXRate = pi_TXRate p,
      pe_Uptime = pi_Uptime p, pe_Latency = (if pi_Latency p > 0 then pi_Latency p else 0),
      pe_LastErrorTime = (if pi_LastError p = None then 0 else int now - int (pi_LastErrorTime p)),
      pe_LastError = pi_LastError p\<rparr>"

text \<open>
  The comparisons. A difference of unsigned numbers wraps and is read as a signed one; a difference
  of uptimes, in seconds, loses its fraction (uptimes are kept in nanoseconds here).
\<close>

definition cmp_u64 :: "u64 \<Rightarrow> u64 \<Rightarrow> int" where
  "cmp_u64 a b = sint (a - b)"

definition cmp_uptime :: "int \<Rightarrow> int \<Rightarrow> int" where
  "cmp_uptime a b = sgn (a - b) * (\<bar>a - b\<bar> div 1000000000)"

definition sortByCost :: "peerEntry \<Rightarrow> peerEntry \<Rightarrow> int" where
  "sortByCost a b =
     (if pe_Cost a \<noteq> pe_Cost b then cmp_u64 (pe_Cost a) (pe_Cost b)
      else if strings_Compare (pe_PublicKey a) (pe_PublicKey b) \<noteq> 0 then strings_Compare (pe_PublicKey a) (pe_PublicKey b)
      else if pe_Priority a \<noteq> pe_Priority b then cmp_u64 (pe_Priority a) (pe_Priority b)
      else if pe_Uptime a \<noteq> pe_Uptime b then cmp_uptime (pe_Uptime a) (pe_Uptime b)
      else 0)"

definition sortByLatency :: "peerEntry \<Rightarrow> peerEntry \<Rightarrow> int" where
  "sortByLatency a b =
     (if pe_Up a \<noteq> pe_Up b then (if pe_Up a then -1 else 1)
      else if (pe_Latency a = 0) \<noteq> (pe_Latency b = 0) then (if pe_Latency a > 0 then -1 else 1)
      else if pe_Latency a < pe_Latency b then -1
      else if pe_Latency a > pe_Latency b then 1
      else sortByCost a b)"

definition sortByDefault :: "peerEntry \<Rightarrow> peerEntry \<Rightarrow> int" where
  "sortByDefault a b =
     (if \<not> pe_Inbound a \<and> pe_Inbound b then -1
      else if pe_Inbound a \<and> \<not> pe_Inbound b then 1
      else if strings_Compare (pe_PublicKey a) (pe_PublicKey b) \<noteq> 0 then strings_Compare (pe_PublicKey a) (pe_PublicKey b)
      else if pe_Priority a \<noteq> pe_Priority b then cmp_u64 (pe_Priority a) (pe_Priority b)
      else if pe_Cost a \<noteq> pe_Cost b then cmp_u64 (pe_Cost a) (pe_Cost b)
      else if pe_Uptime a \<noteq> pe_Uptime b then cmp_uptime (pe_Uptime a) (pe_Uptime b)
      else 0)"

definition sortByUptime :: "peerEntry \<Rightarrow> peerEntry \<Rightarrow> int" where
  "sortByUptime a b =
     (if pe_Uptime a \<noteq> pe_Uptime b then cmp_uptime (pe_Uptime a) (pe_Uptime b)
      else if strings_Compare (pe_PublicKey a) (pe_PublicKey b) \<noteq> 0 then strings_Compare (pe_PublicKey a) (pe_PublicKey b)
      else if pe_Priority a \<noteq> pe_Priority b then cmp_u64 (pe_Priority a) (pe_Priority b)
      else if pe_Cost a \<noteq> pe_Cost b then cmp_u64 (pe_Cost a) (pe_Cost b)
      else 0)"

definition admin_getPeers :: "admin_env \<Rightarrow> string \<Rightarrow> core \<Rightarrow> peerEntry list" where
  "admin_getPeers env sortBy c =
     (let peers = map (peer_entry (ae_now env)) (GetPeers (ae_now env) (ae_peers env) (ae_links env) (co_links c));
          s = ToLower sortBy
      in if s = ''uptime'' then SortStableFunc sortByUptime peers
         else if s = ''cost'' then SortStableFunc sortByCost peers
         else if s = ''latency'' \<or> s = ''rtt'' then SortStableFunc sortByLatency peers
         else SortStableFunc sortByDefault peers)"

text \<open>An entry whose key has no address is left out.\<close>

definition with_addr :: "(string \<Rightarrow> 'a \<Rightarrow> 'b) \<Rightarrow> ('a \<Rightarrow> bytes) \<Rightarrow> 'a list \<Rightarrow> 'b list" where
  "with_addr f key xs =
     concat (map (\<lambda>x. case AddrForKey (key x) of None \<Rightarrow> [] | Some a \<Rightarrow> [f (ip_String a) x]) xs)"

definition admin_getTree :: "admin_env \<Rightarrow> treeEntry list" where
  "admin_getTree env =
     SortStableFunc (\<lambda>x y. strings_Compare (te_PublicKey x) (te_PublicKey y))
       (with_addr (\<lambda>ip d. \<lparr>te_IPAddress = ip, te_PublicKey = hex_encode (ti_Key d), te_Parent = hex_encode (ti_Parent d),
                          te_Sequence = ti_Sequence d\<rparr>) ti_Key (GetTree (ae_tree env)))"

definition admin_getPaths :: "admin_env \<Rightarrow> pathEntry list" where
  "admin_getPaths env =
     SortStableFunc (\<lambda>x y. strings_Compare (ph_PublicKey x) (ph_PublicKey y))
       (with_addr (\<lambda>ip p. \<lparr>ph_IPAddress = ip, ph_PublicKey = hex_encode (pt_Key p), ph_Path = pt_Path p,
                          ph_Sequence = pt_Sequence p\<rparr>) pt_Key (GetPaths (ae_paths env)))"

definition admin_getSessions :: "admin_env \<Rightarrow> sessionEntry list" where
  "admin_getSessions env =
     SortStableFunc (\<lambda>x y. strings_Compare (se_PublicKey x) (se_PublicKey y))
       (with_addr (\<lambda>ip s. \<lparr>se_IPAddress = ip, se_PublicKey = hex_encode (ss_Key s), se_RXBytes = ss_RXBytes s,
                          se_TXBytes = ss_TXBytes s, se_Uptime = ss_Uptime s\<rparr>) ss_Key (GetSessions (ae_sessions env)))"

definition admin_addPeer :: "admin_env \<Rightarrow> peerRequest \<Rightarrow> core \<Rightarrow> admin_error option \<times> core" where
  "admin_addPeer env req c =
     (case url_Parse (ae_core env) (pr_Uri req) of
        None \<Rightarrow> (Some ErrPeerURI, c)
      | Some u \<Rightarrow> (let (err, c) = AddPeer (ae_core env) u (pr_Sintf req) c in (map_option ErrPeerLink err, c)))"

definition admin_removePeer :: "admin_env \<Rightarrow> peerRequest \<Rightarrow> core \<Rightarrow> (admin_error option \<times> core \<times> link_out list) go" where
  "admin_removePeer env req c =
     (case url_Parse (ae_core env) (pr_Uri req) of
        None \<Rightarrow> Ok (Some ErrPeerURI, c, [])
      | Some u \<Rightarrow> go_bind (RemovePeer u (pr_Sintf req) c) (\<lambda>(err, c, outs). Ok (map_option ErrPeerLink err, c, outs)))"

section \<open>The record of lookups\<close>

definition log_lookup :: "bytes \<Rightarrow> u64 list \<Rightarrow> nat \<Rightarrow> adminSocket \<Rightarrow> adminSocket" where
  "log_lookup key path now a = a\<lparr>as_lookups := fmupd (array_of 32 key) (path, now) (as_lookups a)\<rparr>"

definition hour_ns :: nat where "hour_ns = 3600000000000"

definition lookups_handler :: "nat \<Rightarrow> bytes list \<Rightarrow> adminSocket \<Rightarrow> (lookupEntry list \<times> adminSocket) go" where
  "lookups_handler now order a =
     (if list_all (\<lambda>k. AddrForKey k \<noteq> None) order
      then Ok (map (\<lambda>k. let (path, t) = the (fmlookup (as_lookups a) k)
                        in \<lparr>lu_Address = ip_String (the (AddrForKey k)), lu_Key = hex_encode k, lu_Path = path,
                            lu_Time = t div second_ns\<rparr>) order,
               a\<lparr>as_lookups := fmfilter (\<lambda>k. \<not> now - snd (the (fmlookup (as_lookups a) k)) > 24 * hour_ns) (as_lookups a)\<rparr>)
      else Panic)"

section \<open>The health report\<close>

definition DoctorPass :: string where "DoctorPass = ''pass''"
definition DoctorWarn :: string where "DoctorWarn = ''warning''"
definition DoctorFail :: string where "DoctorFail = ''failure''"

record doctorSnapshot =
  sn_buildName :: string
  sn_buildVersion :: string
  sn_address :: string
  sn_routingEntries :: u64
  sn_adminListen :: string
  sn_adminMode :: nat
  sn_adminStatError :: bool
  sn_tunKnown :: bool
  sn_tunEnabled :: bool
  sn_tunName :: string
  sn_tunMTU :: u64
  sn_peers :: "peerEntry list"
  sn_multicastKnown :: bool
  sn_multicastCount :: nat

definition doctorSeverity :: "string \<Rightarrow> nat" where
  "doctorSeverity status = (if status = DoctorFail then 2 else if status = DoctorWarn then 1 else 0)"

definition doctor_add :: "string \<Rightarrow> string \<Rightarrow> string \<Rightarrow> doctorResponse \<Rightarrow> doctorResponse" where
  "doctor_add name status summary res =
     res\<lparr>dr_Checks := dr_Checks res @ [\<lparr>dc_Name = name, dc_Status = status, dc_Summary = summary\<rparr>],
         dr_Status := (if doctorSeverity status > doctorSeverity (dr_Status res) then status else dr_Status res)\<rparr>"

definition recommend :: "string \<Rightarrow> doctorResponse \<Rightarrow> doctorResponse" where
  "recommend s res = res\<lparr>dr_Recommendations := dr_Recommendations res @ [s]\<rparr>"

fun show_oct :: "nat \<Rightarrow> string" where
  "show_oct n = (if n < 8 then [digit n] else show_oct (n div 8) @ [digit (n mod 8)])"

declare show_oct.simps [simp del]

definition oct04 :: "nat \<Rightarrow> string" where
  "oct04 n = replicate (4 - length (show_oct n)) (CHR ''0'') @ show_oct n"

definition HasPrefix :: "string \<Rightarrow> string \<Rightarrow> bool" where
  "HasPrefix s pre \<longleftrightarrow> take (length pre) s = pre"

text \<open>The host of a URL without its port and brackets.\<close>

definition Hostname :: "url \<Rightarrow> string" where
  "Hostname u =
     (let host = (case cut_last colon (u_host u) of
            None \<Rightarrow> u_host u
          | Some (h, port) \<Rightarrow> if list_all (\<lambda>c. digit_val c \<noteq> None) port then h else u_host u)
      in if host \<noteq> '''' \<and> hd host = lbracket \<and> last host = rbracket \<and> length host \<ge> 2 then butlast (tl host) else host)"

definition evaluateDoctorAdmin ::
  "(string \<Rightarrow> url option) \<Rightarrow> (string \<Rightarrow> ip option) \<Rightarrow> doctorSnapshot \<Rightarrow> doctorResponse \<Rightarrow> doctorResponse" where
  "evaluateDoctorAdmin parse parseIP sn res =
     (case parse (sn_adminListen sn) of
        None \<Rightarrow>
          recommend ''Set AdminListen to a protected Unix socket or a loopback-only TCP endpoint.''
            (doctor_add ''admin'' DoctorFail ''the administration endpoint is malformed'' res)
      | Some u \<Rightarrow>
          if ToLower (u_scheme u) = ''unix'' then
            (if HasPrefix (u_path u) ''@'' then
               doctor_add ''admin'' DoctorPass ''the administration endpoint uses an abstract local Unix socket'' res
             else if sn_adminStatError sn then
               recommend ''Verify the admin socket path and service permissions.''
                 (doctor_add ''admin'' DoctorFail ''the administration socket could not be inspected'' res)
             else if sn_adminMode sn \<noteq> 384 then
               recommend ''Restrict the admin socket to mode 0600 and restart UQDA.''
                 (doctor_add ''admin'' DoctorFail
                    (''the administration socket mode is '' @ oct04 (sn_adminMode sn) @ ''; expected 0600'') res)
             else doctor_add ''admin'' DoctorPass ''the administration socket is restricted to mode 0600'' res)
          else if ToLower (u_scheme u) = ''tcp'' then
            (if (case parseIP (Hostname u) of Some ip \<Rightarrow> IsLoopback ip | None \<Rightarrow> False) \<or> ToLower (Hostname u) = ''localhost'' then
               doctor_add ''admin'' DoctorPass ''the TCP administration endpoint is restricted to loopback'' res
             else
               recommend ''Immediately bind AdminListen to localhost or use a mode-0600 Unix socket.''
                 (doctor_add ''admin'' DoctorFail
                    ''the unauthenticated TCP administration endpoint is not restricted to loopback'' res))
          else
            recommend ''Use a protected Unix socket or a loopback-only TCP endpoint.''
              (doctor_add ''admin'' DoctorFail ''the administration endpoint uses an unsupported scheme'' res))"

text \<open>The number of connected peers and the lowest known latency in microseconds, 0 for none.\<close>

definition count_peer :: "peerEntry \<Rightarrow> nat \<times> int \<Rightarrow> nat \<times> int" where
  "count_peer p acc =
     (let (connected, best) = acc
      in if \<not> pe_Up p then acc
         else
           (let latency = pe_Latency p div 1000
            in (connected + 1, if latency > 0 \<and> (best = 0 \<or> latency < best) then latency else best)))"

definition doctor_identity :: "doctorSnapshot \<Rightarrow> doctorResponse \<Rightarrow> doctorResponse" where
  "doctor_identity sn res =
     (let build = (if sn_buildName sn = ''unknown'' \<and> sn_buildVersion sn = ''unknown'' then ''a development build is running''
                   else sn_buildName sn @ '' '' @ sn_buildVersion sn @ '' is running'');
          res = doctor_add ''daemon'' DoctorPass build res
      in if sn_address sn = '''' then
           recommend ''Inspect the configured private key and restart UQDA.''
             (doctor_add ''identity'' DoctorFail ''the node has no derived IPv6 address'' res)
         else doctor_add ''identity'' DoctorPass (''node address '' @ sn_address sn @ '' is available'') res)"

definition doctor_tun :: "doctorSnapshot \<Rightarrow> doctorResponse \<Rightarrow> doctorResponse" where
  "doctor_tun sn res =
     (if sn_tunKnown sn \<and> sn_tunEnabled sn then
        doctor_add ''tun'' DoctorPass
          (''interface '' @ sn_tunName sn @ '' is enabled with MTU '' @ show_nat (unat (sn_tunMTU sn))) res
      else if sn_tunKnown sn then
        recommend ''Enable TUN unless this node is intentionally router-only or embedded.''
          (doctor_add ''tun'' DoctorWarn ''the TUN interface is disabled'' res)
      else doctor_add ''tun'' DoctorWarn ''TUN diagnostics are unavailable'' res)"

definition doctor_peers :: "(int \<Rightarrow> string) \<Rightarrow> doctorSnapshot \<Rightarrow> doctorResponse \<Rightarrow> doctorResponse" where
  "doctor_peers millis sn res =
     (let (connected, best) = fold count_peer (sn_peers sn) (0, 0);
          total = show_nat (length (sn_peers sn))
      in if sn_peers sn = [] then
           recommend ''Add a trusted nearby peer or enable multicast discovery on the intended LAN.''
             (doctor_add ''peers'' DoctorWarn ''no peers are configured or discovered'' res)
         else if connected = 0 then
           recommend (''Run '' @ [CHR 0x27] @ ''sudo uqdactl getPeers'' @ [CHR 0x27] @ '' and inspect Last Error.'')
             (doctor_add ''peers'' DoctorWarn (''0/'' @ total @ '' peers are connected'') res)
         else if best > 0 then
           doctor_add ''peers'' DoctorPass
             (show_nat connected @ ''/'' @ total @ '' connected; best direct RTT '' @ millis best @ ''ms'') res
         else doctor_add ''peers'' DoctorPass
             (show_nat connected @ ''/'' @ total @ '' connected; waiting for an RTT sample'') res)"

definition doctor_routing :: "doctorSnapshot \<Rightarrow> doctorResponse \<Rightarrow> doctorResponse" where
  "doctor_routing sn res =
     (if sn_routingEntries sn \<le> 1 then
        recommend ''Wait for routing convergence after a peer connects, then run doctor again.''
          (doctor_add ''routing'' DoctorWarn
             (''routing table has '' @ show_nat (unat (sn_routingEntries sn)) @ '' entry; only this node may be reachable'') res)
      else doctor_add ''routing'' DoctorPass
             (''routing table has '' @ show_nat (unat (sn_routingEntries sn)) @ '' entries'') res)"

definition doctor_multicast :: "doctorSnapshot \<Rightarrow> doctorResponse \<Rightarrow> doctorResponse" where
  "doctor_multicast sn res =
     (if sn_multicastKnown sn then
        (if sn_multicastCount sn > 0 then
           doctor_add ''multicast'' DoctorPass
             (''discovery is active on '' @ show_nat (sn_multicastCount sn) @ '' interface(s)'') res
         else if sn_peers sn = [] then
           doctor_add ''multicast'' DoctorWarn ''no active discovery interfaces and no configured peers'' res
         else doctor_add ''multicast'' DoctorPass
                ''discovery is disabled; configured peers provide bootstrap connectivity'' res)
      else res)"

definition evaluateDoctor ::
  "(string \<Rightarrow> url option) \<Rightarrow> (string \<Rightarrow> ip option) \<Rightarrow> (int \<Rightarrow> string) \<Rightarrow> doctorSnapshot \<Rightarrow> doctorResponse" where
  "evaluateDoctor parse parseIP millis sn =
     doctor_multicast sn (doctor_routing sn (doctor_peers millis sn (doctor_tun sn
       (evaluateDoctorAdmin parse parseIP sn (doctor_identity sn
         \<lparr>dr_Status = DoctorPass, dr_Checks = [], dr_Recommendations = []\<rparr>)))))"

text \<open>The file mode and error of the admin socket, for a path that is no abstract one.\<close>

definition socket_mode :: "admin_env \<Rightarrow> string \<Rightarrow> nat \<times> bool" where
  "socket_mode env listen =
     (case url_Parse (ae_core env) listen of
        None \<Rightarrow> (0, False)
      | Some u \<Rightarrow>
          if ToLower (u_scheme u) = ''unix'' \<and> u_path u \<noteq> '''' \<and> \<not> HasPrefix (u_path u) ''@''
          then (case ae_stat env (u_path u) of Some m \<Rightarrow> (m, False) | None \<Rightarrow> (0, True))
          else (0, False))"

definition doctorHandler :: "admin_env \<Rightarrow> adminSocket \<Rightarrow> core \<Rightarrow> doctorResponse go" where
  "doctorHandler env a c =
     go_bind (admin_getSelf env c) (\<lambda>self.
       let (mode, stat_error) = socket_mode env (as_listenaddr a);
           tun = ''gettun'' |\<in>| fmdom (as_handlers a);
           multicast = ''getmulticastinterfaces'' |\<in>| fmdom (as_handlers a);
           t = ae_tun env
       in Ok (evaluateDoctor (url_Parse (ae_core env)) (ParseIP (ce_lib (ae_core env))) (ae_millis env)
            \<lparr>sn_buildName = gs_BuildName self, sn_buildVersion = gs_BuildVersion self, sn_address = gs_IPAddress self,
             sn_routingEntries = gs_RoutingEntries self, sn_adminListen = as_listenaddr a,
             sn_adminMode = mode, sn_adminStatError = stat_error,
             sn_tunKnown = tun, sn_tunEnabled = (tun \<and> tn_Enabled t), sn_tunName = (if tun then tn_Name t else ''''),
             sn_tunMTU = (if tun then tn_MTU t else 0), sn_peers = admin_getPeers env ''latency'' c,
             sn_multicastKnown = multicast,
             sn_multicastCount = (if multicast then length (getMulticastInterfaces (ae_interfaces env) (ae_multicast env)) else 0)\<rparr>))"

section \<open>Answering requests\<close>

text \<open>
  The functions that \<^verbatim>\<open>SetupAdminHandlers\<close> registers decode their arguments into a pointer to the request:
  a null makes it nil, and a handler that reads a field of the request then panics. The doctor
  handler decodes into the structure, as do the handlers of the core.
\<close>

definition remote_result ::
  "((proto_error + (address \<times> bytes)) \<times> protoHandler \<times> proto_out list) go \<Rightarrow> adminSocket \<Rightarrow> core \<Rightarrow>
     ((admin_error + admin_value) \<times> adminSocket \<times> core \<times> admin_out list) go" where
  "remote_result r a c =
     go_bind r (\<lambda>(res, p, outs).
       Ok (case res of Inl e \<Rightarrow> Inl (ErrRemote e) | Inr (ip, msg) \<Rightarrow> Inr (VRemote ip msg),
           a, c\<lparr>co_proto := p\<rparr>, map ProtoDoes outs))"

definition key_argument :: "json \<Rightarrow> string option" where
  "key_argument v = (let (ok, key) = decode_struct key_field v '''' in if ok then Some key else None)"

definition call_handler ::
  "admin_env \<Rightarrow> handler_fn \<Rightarrow> json \<Rightarrow> adminSocket \<Rightarrow> core \<Rightarrow>
     ((admin_error + admin_value) \<times> adminSocket \<times> core \<times> admin_out list) go" where
  "call_handler env fn args a c =
     (let plain = (\<lambda>v. if fst (decode_pointer no_field args ()) then Ok (Inr v, a, c, []) else Ok (Inl ErrArguments, a, c, []));
          key = key_argument args; ch = ae_chan env; reply = ae_reply env; p = co_proto c
      in case fn of
           HList \<Rightarrow> Ok (Inr (VList (list_handler (ae_commands env) a)), a, c, [])
         | HGetSelf \<Rightarrow>
             if fst (decode_pointer no_field args ())
             then go_bind (admin_getSelf env c) (\<lambda>r. Ok (Inr (VSelf r), a, c, []))
             else Ok (Inl ErrArguments, a, c, [])
         | HGetPeers \<Rightarrow>
             (case decode_pointer sort_field args '''' of
                (False, _) \<Rightarrow> Ok (Inl ErrArguments, a, c, [])
              | (True, None) \<Rightarrow> Panic
              | (True, Some sortBy) \<Rightarrow> Ok (Inr (VPeers (admin_getPeers env sortBy c)), a, c, []))
         | HDoctor \<Rightarrow>
             if fst (decode_struct no_field args ())
             then go_bind (doctorHandler env a c) (\<lambda>r. Ok (Inr (VDoctor r), a, c, []))
             else Ok (Inl ErrArguments, a, c, [])
         | HGetTree \<Rightarrow> plain (VTree (admin_getTree env))
         | HGetPaths \<Rightarrow> plain (VPaths (admin_getPaths env))
         | HGetSessions \<Rightarrow> plain (VSessions (admin_getSessions env))
         | HAddPeer \<Rightarrow>
             (case decode_pointer peer_field args \<lparr>pr_Uri = '''', pr_Sintf = ''''\<rparr> of
                (False, _) \<Rightarrow> Ok (Inl ErrArguments, a, c, [])
              | (True, None) \<Rightarrow> Panic
              | (True, Some req) \<Rightarrow>
                  (let (err, c) = admin_addPeer env req c
                   in Ok (case err of None \<Rightarrow> Inr VEmpty | Some e \<Rightarrow> Inl e, a, c, [])))
         | HRemovePeer \<Rightarrow>
             (case decode_pointer peer_field args \<lparr>pr_Uri = '''', pr_Sintf = ''''\<rparr> of
                (False, _) \<Rightarrow> Ok (Inl ErrArguments, a, c, [])
              | (True, None) \<Rightarrow> Panic
              | (True, Some req) \<Rightarrow>
                  go_bind (admin_removePeer env req c) (\<lambda>(err, c, outs).
                    Ok (case err of None \<Rightarrow> Inr VEmpty | Some e \<Rightarrow> Inl e, a, c, map LinkDoes outs)))
         | HGetNodeInfo \<Rightarrow>
             (let (res, ni, outs) = nodeInfoAdminHandler (ae_now env) key ch reply (ph_nodeinfo p)
              in Ok (case res of Inl e \<Rightarrow> Inl (ErrRemote e) | Inr (k, info) \<Rightarrow> Inr (VNodeInfo k info),
                     a, c\<lparr>co_proto := p\<lparr>ph_nodeinfo := ni\<rparr>\<rparr>, map ProtoDoes outs))
         | HRemoteGetSelf \<Rightarrow> remote_result (getSelfHandler key ch reply p) a c
         | HRemoteGetPeers \<Rightarrow> remote_result (getPeersHandler key ch reply p) a c
         | HRemoteGetTree \<Rightarrow> remote_result (getTreeHandler key ch reply p) a c
         | HLookups \<Rightarrow>
             go_bind (lookups_handler (ae_now env) (ae_looked env) a) (\<lambda>(r, a). Ok (Inr (VLookups r), a, c, []))
         | HGetTUN \<Rightarrow> plain (VTUN (ae_tun env))
         | HGetMulticast \<Rightarrow> plain (VMulticast (getMulticastInterfaces (ae_interfaces env) (ae_multicast env))))"

text \<open>A response that passes on the text of a remote node can only be written when that text is valid JSON.\<close>

definition marshal_response :: "admin_env \<Rightarrow> admin_error + admin_value \<Rightarrow> admin_error + admin_value" where
  "marshal_response env res =
     (case res of
        Inr (VNodeInfo k info) \<Rightarrow> if ae_valid env info then res else Inl ErrMarshalResponse
      | Inr (VRemote ip msg) \<Rightarrow> if ae_valid env msg then res else Inl ErrMarshalResponse
      | _ \<Rightarrow> res)"

record adminSocketResponse =
  rs_Result :: "admin_error + admin_value"
  rs_Request :: adminSocketRequest

definition empty_request :: adminSocketRequest where
  "empty_request = \<lparr>ar_Name = '''', ar_Arguments = JObj [], ar_KeepAlive = False\<rparr>"

text \<open>One turn of the loop: \<open>buf\<close> is the next JSON value on the connection, or \<open>None\<close> when there is none.\<close>

definition answer_one ::
  "admin_env \<Rightarrow> json option \<Rightarrow> adminSocket \<Rightarrow> core \<Rightarrow> (adminSocketResponse \<times> bool \<times> adminSocket \<times> core \<times> admin_out list) go" where
  "answer_one env buf a c =
     (case buf of
        None \<Rightarrow> Ok (\<lparr>rs_Result = Inl ErrFindRequest, rs_Request = \<lparr>ar_Name = '''', ar_Arguments = JNull, ar_KeepAlive = False\<rparr>\<rparr>, False, a, c, [])
      | Some v \<Rightarrow>
          (case decode_struct request_field v empty_request of
             (False, req) \<Rightarrow>
               Ok (\<lparr>rs_Result = Inl ErrUnmarshalRequest,
                    rs_Request = \<lparr>ar_Name = '''', ar_Arguments = JNull, ar_KeepAlive = False\<rparr>\<rparr>, ar_KeepAlive req, a, c, [])
           | (True, req) \<Rightarrow>
               if ar_Name req = '''' then Ok (\<lparr>rs_Result = Inl ErrNoRequest, rs_Request = req\<rparr>, ar_KeepAlive req, a, c, [])
               else
                 (case fmlookup (as_handlers a) (ToLower (ar_Name req)) of
                    None \<Rightarrow>
                      Ok (\<lparr>rs_Result = Inl (ErrUnknownAction (ToLower (ar_Name req))), rs_Request = req\<rparr>, ar_KeepAlive req, a, c, [])
                  | Some h \<Rightarrow>
                      go_bind (call_handler env (h_fn h) (ar_Arguments req) a c) (\<lambda>(res, a, c, outs).
                        Ok (\<lparr>rs_Result = marshal_response env res, rs_Request = req\<rparr>, ar_KeepAlive req, a, c, outs)))))"

text \<open>
  The loop over what a connection delivers. It ends after a request that does not ask to keep the
  connection; when the list runs out it waits for more (the flag tells whether it closed the connection).
\<close>

fun admin_handleRequest ::
  "(admin_env \<times> json option) list \<Rightarrow> adminSocket \<Rightarrow> core \<Rightarrow>
     (adminSocketResponse list \<times> bool \<times> adminSocket \<times> core \<times> admin_out list) go" where
  "admin_handleRequest [] a c = Ok ([], False, a, c, [])"
| "admin_handleRequest ((env, buf) # rest) a c =
     go_bind (answer_one env buf a c) (\<lambda>(resp, keep, a, c, outs).
       if \<not> keep then Ok ([resp], True, a, c, outs)
       else go_bind (admin_handleRequest rest a c) (\<lambda>(resps, closed, a, c, outs').
              Ok (resp # resps, closed, a, c, outs @ outs')))"

section \<open>Setup\<close>

datatype admin_option = AdminListenAddress string | LogLookups

definition logLookups :: "adminSocket \<Rightarrow> adminSocket" where
  "logLookups a = snd (AddHandler ''lookups'' ''Dump a record of lookups received in the past hour'' [] HLookups a)"

definition admin_applyOption :: "admin_option \<Rightarrow> adminSocket \<Rightarrow> adminSocket" where
  "admin_applyOption opt a =
     (case opt of AdminListenAddress l \<Rightarrow> a\<lparr>as_listenaddr := l\<rparr> | LogLookups \<Rightarrow> logLookups a)"

definition SetAdmin :: "adminSocket \<Rightarrow> bool \<times> adminSocket" where
  "SetAdmin a =
     (let (ok, a) = AddHandler ''getNodeInfo'' ''Request nodeinfo from a remote node by its public key'' [''key''] HGetNodeInfo a
      in if \<not> ok then (False, a)
         else let (ok, a) = AddHandler ''debug_remoteGetSelf'' ''Debug use only'' [''key''] HRemoteGetSelf a
      in if \<not> ok then (False, a)
         else let (ok, a) = AddHandler ''debug_remoteGetPeers'' ''Debug use only'' [''key''] HRemoteGetPeers a
      in if \<not> ok then (False, a)
         else AddHandler ''debug_remoteGetTree'' ''Debug use only'' [''key''] HRemoteGetTree a)"

definition add_handlers :: "(string \<times> string \<times> string list \<times> handler_fn) list \<Rightarrow> adminSocket \<Rightarrow> adminSocket" where
  "add_handlers hs a = fold (\<lambda>(name, desc, args, fn) a. snd (AddHandler name desc args fn a)) hs a"

definition SetupAdminHandlers :: "adminSocket \<Rightarrow> adminSocket" where
  "SetupAdminHandlers =
     add_handlers
       [(''getSelf'', ''Show details about this node'', [], HGetSelf),
        (''getPeers'', ''Show directly connected peers'', [''sort''], HGetPeers),
        (''doctor'', ''Run safe node health and security diagnostics'', [], HDoctor),
        (''getTree'', ''Show known Tree entries'', [], HGetTree),
        (''getPaths'', ''Show established paths through this node'', [], HGetPaths),
        (''getSessions'', ''Show established traffic sessions with remote nodes'', [], HGetSessions),
        (''addPeer'', ''Add a peer to the peer list'', [''uri'', ''interface''], HAddPeer),
        (''removePeer'', ''Remove a peer from the peer list'', [''uri'', ''interface''], HRemovePeer)]"

definition mc_SetupAdminHandlers :: "adminSocket \<Rightarrow> adminSocket" where
  "mc_SetupAdminHandlers =
     add_handlers [(''getMulticastInterfaces'', ''Show which interfaces multicast is enabled on'', [], HGetMulticast)]"

definition tun_SetupAdminHandlers :: "adminSocket \<Rightarrow> adminSocket" where
  "tun_SetupAdminHandlers =
     add_handlers [(''getTun'', ''Show information about the node'' @ [CHR 0x27] @ ''s TUN interface'', [], HGetTUN)]"

text \<open>
  Starting the socket. What the operating system answers: whether the path exists, what a connection
  attempt to it gives, whether it can be removed, whether listening on it works and whether its mode can
  be set. \<open>AdminExit\<close> is the end of the process.
\<close>

datatype dial_answer = Answered | TimedOut | Refused

datatype listen_on = ListenUnix string | ListenTcp string

record admin_os =
  os_exists :: "string \<Rightarrow> bool"
  os_dial :: "string \<Rightarrow> dial_answer"
  os_remove :: "string \<Rightarrow> bool"
  os_listen :: "listen_on \<Rightarrow> nat option"
  os_chmod :: "string \<Rightarrow> bool"

datatype admin_listening = AdminExit | AdminInsecure nat | AdminListening nat listen_on

definition clean_up :: "admin_os \<Rightarrow> string \<Rightarrow> bool" where
  "clean_up env path \<longleftrightarrow> \<not> os_exists env path \<or> (os_dial env path = Refused \<and> os_remove env path)"

definition listen_plain :: "admin_os \<Rightarrow> listen_on \<Rightarrow> admin_listening" where
  "listen_plain env l = (case os_listen env l of None \<Rightarrow> AdminExit | Some li \<Rightarrow> AdminListening li l)"

definition admin_listen :: "(string \<Rightarrow> url option) \<Rightarrow> admin_os \<Rightarrow> string \<Rightarrow> admin_listening" where
  "admin_listen parse env listenaddr =
     (case parse listenaddr of
        None \<Rightarrow> listen_plain env (ListenTcp listenaddr)
      | Some u \<Rightarrow>
          if ToLower (u_scheme u) = ''unix'' then
            (if \<not> clean_up env (u_path u) then AdminExit
             else case os_listen env (ListenUnix (u_path u)) of
                    None \<Rightarrow> AdminExit
                  | Some li \<Rightarrow>
                      if HasPrefix (u_path u) ''@'' \<or> os_chmod env (u_path u)
                      then AdminListening li (ListenUnix (u_path u)) else AdminInsecure li)
          else if ToLower (u_scheme u) = ''tcp'' then listen_plain env (ListenTcp (u_host u))
          else listen_plain env (ListenTcp listenaddr))"

datatype admin_started = NotConfigured | ProcessExit | NotSecured | Started bool adminSocket

definition admin_New :: "(string \<Rightarrow> url option) \<Rightarrow> admin_os \<Rightarrow> admin_option list \<Rightarrow> admin_started" where
  "admin_New parse env opts =
     (let a = fold admin_applyOption opts
            \<lparr>as_handlers = fmempty, as_listenaddr = '''', as_listener = None, as_done = False, as_lookups = fmempty\<rparr>
      in if as_listenaddr a = ''none'' \<or> as_listenaddr a = '''' then NotConfigured
         else case admin_listen parse env (as_listenaddr a) of
                AdminExit \<Rightarrow> ProcessExit
              | AdminInsecure li \<Rightarrow> NotSecured
              | AdminListening li l \<Rightarrow>
                  (let a = snd (AddHandler ''list'' ''List available commands'' [] HList (a\<lparr>as_listener := Some li\<rparr>));
                       (ok, a) = SetAdmin a
                   in Started ok a))"

definition IsStarted :: "adminSocket \<Rightarrow> bool" where "IsStarted a = (\<not> as_done a)"

text \<open>Stopping closes the channel once and the listener every time it is called.\<close>

definition admin_Stop :: "adminSocket option \<Rightarrow> adminSocket option \<times> nat list" where
  "admin_Stop a =
     (case a of
        None \<Rightarrow> (None, [])
      | Some a \<Rightarrow>
          (case as_listener a of
             None \<Rightarrow> (Some a, [])
           | Some li \<Rightarrow> (Some (a\<lparr>as_done := True\<rparr>), [li])))"

section \<open>Which requests crash the node\<close>

lemma AddrForKey_Some: "length k = 32 \<Longrightarrow> \<exists>a. AddrForKey k = Some a"
  using AddrForKey_eq by blast

lemma SubnetForKey_Some: "length k = 32 \<Longrightarrow> \<exists>s. SubnetForKey k = Some s"
  by (auto simp: SubnetForKey_def Let_def dest: AddrForKey_Some split: option.splits)

lemma admin_getSelf_Ok: "length (co_public c) = 32 \<Longrightarrow> \<exists>r. admin_getSelf env c = Ok r"
  using AddrForKey_Some [of "co_public c"] SubnetForKey_Some [of "co_public c"]
  by (auto simp: admin_getSelf_def Core_Subnet_def Core_Address_def Let_def)

lemma doctorHandler_Ok: "length (co_public c) = 32 \<Longrightarrow> \<exists>r. doctorHandler env a c = Ok r"
  using admin_getSelf_Ok [of c env] by (auto simp: doctorHandler_def Let_def split: prod.splits)

lemma handler_key_length: "handler_key s = Inr key \<Longrightarrow> length key = 32"
  by (auto simp: handler_key_def split: option.splits if_splits)

lemma reply_for_Ok: "length key = 32 \<Longrightarrow> \<exists>r. reply_for key msg = Ok r"
  using AddrForKey_Some [of key] by (auto simp: reply_for_def)

lemma reply_bind:
  assumes "handler_key s = Inr key"
  shows "go_bind (reply_for key msg) (\<lambda>r. Ok (r, x)) \<noteq> Panic"
proof -
  obtain r where "reply_for key msg = Ok r" using reply_for_Ok [OF handler_key_length [OF assms]] by blast
  then show ?thesis by simp
qed

lemma remote_handlers_Ok:
  "getSelfHandler req ch reply p \<noteq> Panic" "getPeersHandler req ch reply p \<noteq> Panic" "getTreeHandler req ch reply p \<noteq> Panic"
  unfolding getSelfHandler_def getPeersHandler_def getTreeHandler_def Let_def
  by (auto split: option.splits sum.splits dest: reply_bind)

lemma remote_result_Ok: "x \<noteq> Panic \<Longrightarrow> remote_result x a c \<noteq> Panic"
  by (cases x) (auto simp: remote_result_def)

lemma lookups_handler_Ok: "list_all (\<lambda>k. length k = 32) order \<Longrightarrow> \<exists>r. lookups_handler now order a = Ok r"
  using AddrForKey_Some by (auto simp: lookups_handler_def list_all_iff)

lemma decode_pointer_None: "decode_pointer f v x = (True, None) \<longleftrightarrow> v = JNull"
  by (auto simp: decode_pointer_def split: prod.splits)

lemma admin_removePeer_Panic:
  "admin_removePeer env req c = Panic \<longleftrightarrow>
     (\<exists>u. url_Parse (ae_core env) (pr_Uri req) = Some u \<and> links_remove u (pr_Sintf req) (co_links c) = Panic)"
  by (cases "url_Parse (ae_core env) (pr_Uri req)")
     (auto simp: admin_removePeer_def RemovePeer_def go_bind_def split: go.splits prod.splits)

definition empty_peerRequest :: peerRequest where
  "empty_peerRequest = \<lparr>pr_Uri = '''', pr_Sintf = ''''\<rparr>"

text \<open>The requests on which a handler panics.\<close>

definition crashing :: "admin_env \<Rightarrow> handler_fn \<Rightarrow> json \<Rightarrow> core \<Rightarrow> bool" where
  "crashing env fn args c \<longleftrightarrow>
     (fn \<in> {HGetPeers, HAddPeer, HRemovePeer} \<and> args = JNull)
   \<or> (fn = HRemovePeer \<and> (\<exists>r u. decode_pointer peer_field args empty_peerRequest = (True, Some r)
        \<and> url_Parse (ae_core env) (pr_Uri r) = Some u \<and> links_remove u (pr_Sintf r) (co_links c) = Panic))"

lemma pointer_cases:
  obtains (bad) x where "decode_pointer f v y = (False, x)" "v \<noteq> JNull"
  | (null) "decode_pointer f v y = (True, None)" "v = JNull"
  | (good) x where "decode_pointer f v y = (True, Some x)" "v \<noteq> JNull"
  by (cases "v = JNull"; cases "decode_struct f v y") (auto simp: decode_pointer_def)

lemma call_getPeers: "call_handler env HGetPeers args a c = Panic \<longleftrightarrow> args = JNull"
  by (rule pointer_cases [of sort_field args "''''"]) (simp_all add: call_handler_def)

lemma call_addPeer: "call_handler env HAddPeer args a c = Panic \<longleftrightarrow> args = JNull"
  by (rule pointer_cases [of peer_field args "\<lparr>pr_Uri = '''', pr_Sintf = ''''\<rparr>"])
     (simp_all add: call_handler_def split: prod.splits)

lemma go_bind_Panic: "go_bind x f = Panic \<longleftrightarrow> x = Panic \<or> (\<exists>y. x = Ok y \<and> f y = Panic)"
  by (cases x) simp_all

lemma call_removePeer:
  "call_handler env HRemovePeer args a c = Panic \<longleftrightarrow> crashing env HRemovePeer args c"
proof (rule pointer_cases [of peer_field args empty_peerRequest])
  fix r assume d: "decode_pointer peer_field args empty_peerRequest = (True, Some r)" "args \<noteq> JNull"
  have "call_handler env HRemovePeer args a c = Panic \<longleftrightarrow> admin_removePeer env r c = Panic"
    using d by (auto simp: call_handler_def empty_peerRequest_def go_bind_Panic split: prod.splits)
  then show ?thesis using d by (simp add: crashing_def admin_removePeer_Panic)
qed (simp_all add: call_handler_def crashing_def flip: empty_peerRequest_def)

lemma call_handler_panics:
  assumes "length (co_public c) = 32" "list_all (\<lambda>k. length k = 32) (ae_looked env)"
  shows "call_handler env fn args a c = Panic \<longleftrightarrow> crashing env fn args c"
proof -
  obtain s where s: "admin_getSelf env c = Ok s" using admin_getSelf_Ok [OF assms(1)] by blast
  obtain d where d: "doctorHandler env a c = Ok d" using doctorHandler_Ok [OF assms(1)] by blast
  obtain l where l: "lookups_handler (ae_now env) (ae_looked env) a = Ok l" using lookups_handler_Ok [OF assms(2)] by blast
  have r: "remote_result (getSelfHandler k ch rep p) a c \<noteq> Panic" "remote_result (getPeersHandler k ch rep p) a c \<noteq> Panic"
    "remote_result (getTreeHandler k ch rep p) a c \<noteq> Panic" for k ch rep p
    by (simp_all add: remote_result_Ok remote_handlers_Ok)
  show ?thesis
  proof (cases fn)
    case HGetPeers
    then show ?thesis by (simp add: call_getPeers) (simp add: crashing_def)
  next
    case HAddPeer
    then show ?thesis by (simp add: call_addPeer) (simp add: crashing_def)
  next
    case HRemovePeer
    then show ?thesis by (simp add: call_removePeer)
  qed (use s d l r in \<open>simp_all add: call_handler_def crashing_def Let_def split: prod.splits\<close>)
qed

text \<open>
  C38. Which requests the admin socket survives. For a node with a key of the right length, a request
  makes the process panic exactly when it calls \<^verbatim>\<open>getPeers\<close>, \<^verbatim>\<open>addPeer\<close> or \<^verbatim>\<open>removePeer\<close> with arguments that are
  the JSON value null, which makes the pointer to the decoded request nil, or when it removes a link
  that has no cancel function. Every other input, whatever its JSON, is answered.
\<close>

theorem admin_panics_exactly:
  assumes "length (co_public c) = 32" "list_all (\<lambda>k. length k = 32) (ae_looked env)"
  shows "answer_one env buf a c = Panic \<longleftrightarrow>
    (\<exists>v req h. buf = Some v \<and> decode_struct request_field v empty_request = (True, req) \<and> ar_Name req \<noteq> ''''
       \<and> fmlookup (as_handlers a) (ToLower (ar_Name req)) = Some h \<and> crashing env (h_fn h) (ar_Arguments req) c)"
proof (cases buf)
  case (Some v)
  obtain ok req where r: "decode_struct request_field v empty_request = (ok, req)" by (rule prod.exhaust)
  have "answer_one env buf a c = Panic \<longleftrightarrow>
      ok \<and> ar_Name req \<noteq> '''' \<and> (\<exists>h. fmlookup (as_handlers a) (ToLower (ar_Name req)) = Some h
        \<and> call_handler env (h_fn h) (ar_Arguments req) a c = Panic)"
    using Some r by (cases ok) (auto simp: answer_one_def go_bind_Panic split: option.splits)
  then show ?thesis using Some r by (auto simp: call_handler_panics [OF assms])
qed (simp add: answer_one_def)

definition sample_admin_env :: admin_env where
  "sample_admin_env =
     \<lparr>ae_core = sample_core_env, ae_now = 0, ae_peers = [], ae_links = (\<lambda>_. []), ae_entries = 1, ae_tree = [], ae_paths = [],
      ae_sessions = [], ae_reply = None, ae_chan = 0, ae_tun = \<lparr>tn_Enabled = False, tn_Name = '''', tn_MTU = 0\<rparr>,
      ae_multicast = sample_mc, ae_interfaces = [], ae_commands = [], ae_looked = [], ae_stat = (\<lambda>_. None),
      ae_millis = (\<lambda>_. ''''), ae_valid = (\<lambda>_. True)\<rparr>"

definition sample_socket :: adminSocket where
  "sample_socket =
     SetupAdminHandlers \<lparr>as_handlers = fmempty, as_listenaddr = '''', as_listener = None, as_done = False, as_lookups = fmempty\<rparr>"

lemma sample_names:
  "ToLower ''getSelf'' = ''getself''" "ToLower ''getPeers'' = ''getpeers''" "ToLower ''doctor'' = ''doctor''"
  "ToLower ''getTree'' = ''gettree''" "ToLower ''getPaths'' = ''getpaths''" "ToLower ''getSessions'' = ''getsessions''"
  "ToLower ''addPeer'' = ''addpeer''" "ToLower ''removePeer'' = ''removepeer''"
  by code_simp+

lemma sample_socket_addPeer: "\<exists>h. fmlookup (as_handlers sample_socket) ''addpeer'' = Some h \<and> h_fn h = HAddPeer"
  by (simp add: sample_socket_def SetupAdminHandlers_def add_handlers_def AddHandler_def sample_names)

theorem admin_panics_exactly_witness:
  "answer_one sample_admin_env (Some (JObj [(''request'', JStr ''addPeer''), (''arguments'', JNull)])) sample_socket
     (core_zero\<lparr>co_public := replicate 32 1\<rparr>) = Panic"
proof -
  have l: "length (co_public (core_zero\<lparr>co_public := replicate 32 1\<rparr>)) = 32" by simp
  have k: "list_all (\<lambda>k. length k = 32) (ae_looked sample_admin_env)" by (simp add: sample_admin_env_def)
  have req: "decode_struct request_field (JObj [(''request'', JStr ''addPeer''), (''arguments'', JNull)]) empty_request
      = (True, \<lparr>ar_Name = ''addPeer'', ar_Arguments = JNull, ar_KeepAlive = False\<rparr>)"
    by (simp add: request_field_def string_field_def empty_request_def ToLower_def lower_char_def)
  obtain h where h: "fmlookup (as_handlers sample_socket) ''addpeer'' = Some h" "h_fn h = HAddPeer"
    using sample_socket_addPeer by blast
  have "crashing sample_admin_env (h_fn h) JNull (core_zero\<lparr>co_public := replicate 32 1\<rparr>)"
    by (simp add: crashing_def h)
  then show ?thesis
    unfolding admin_panics_exactly [OF l k] using req h sample_names(7)
    by (intro exI [of _ "JObj [(''request'', JStr ''addPeer''), (''arguments'', JNull)]"]
          exI [of _ "\<lparr>ar_Name = ''addPeer'', ar_Arguments = JNull, ar_KeepAlive = False\<rparr>"] exI [of _ h]) simp
qed

section \<open>What the health report says\<close>

lemmas status_defs = DoctorPass_def DoctorWarn_def DoctorFail_def

definition worse :: "string \<Rightarrow> string \<Rightarrow> string" where
  "worse s t = (if doctorSeverity t > doctorSeverity s then t else s)"

text \<open>The overall status is the worst one of the checks.\<close>

definition report_ok :: "doctorResponse \<Rightarrow> bool" where
  "report_ok res \<longleftrightarrow>
     (\<forall>k \<in> set (dr_Checks res). doctorSeverity (dc_Status k) \<le> doctorSeverity (dr_Status res))
   \<and> (dr_Status res = DoctorPass \<or> dr_Status res \<in> dc_Status ` set (dr_Checks res))"

lemma doctor_add_ok [simp]: "report_ok res \<Longrightarrow> report_ok (doctor_add name status summary res)"
  by (force simp: report_ok_def doctor_add_def)

lemma recommend_ok [simp]: "report_ok res \<Longrightarrow> report_ok (recommend s res)"
  by (simp add: report_ok_def recommend_def)

lemma doctor_add_status [simp]: "dr_Status (doctor_add name status summary res) = worse (dr_Status res) status"
  by (simp add: doctor_add_def worse_def)

lemma recommend_status [simp]: "dr_Status (recommend s res) = dr_Status res"
  by (simp add: recommend_def)

text \<open>An admin endpoint that only local users with the right permissions can reach.\<close>

definition admin_protected :: "(string \<Rightarrow> url option) \<Rightarrow> (string \<Rightarrow> ip option) \<Rightarrow> doctorSnapshot \<Rightarrow> bool" where
  "admin_protected parse parseIP sn \<longleftrightarrow>
     (\<exists>u. parse (sn_adminListen sn) = Some u
        \<and> (ToLower (u_scheme u) = ''unix'' \<and> (HasPrefix (u_path u) ''@'' \<or> \<not> sn_adminStatError sn \<and> sn_adminMode sn = 384)
           \<or> ToLower (u_scheme u) = ''tcp''
             \<and> ((\<exists>ip. parseIP (Hostname u) = Some ip \<and> IsLoopback ip) \<or> ToLower (Hostname u) = ''localhost'')))"

lemma admin_stage:
  "report_ok res \<Longrightarrow> report_ok (evaluateDoctorAdmin parse parseIP sn res)"
  "dr_Status (evaluateDoctorAdmin parse parseIP sn res)
     = worse (dr_Status res) (if admin_protected parse parseIP sn then DoctorPass else DoctorFail)"
  by (auto simp: evaluateDoctorAdmin_def admin_protected_def split: option.splits)

lemma identity_stage:
  "report_ok res \<Longrightarrow> report_ok (doctor_identity sn res)"
  "dr_Status (doctor_identity sn res)
     = worse (worse (dr_Status res) DoctorPass) (if sn_address sn = '''' then DoctorFail else DoctorPass)"
  by (auto simp: doctor_identity_def Let_def)

lemma tun_stage:
  "report_ok res \<Longrightarrow> report_ok (doctor_tun sn res)"
  "dr_Status (doctor_tun sn res) = worse (dr_Status res) (if sn_tunKnown sn \<and> sn_tunEnabled sn then DoctorPass else DoctorWarn)"
  by (auto simp: doctor_tun_def)

lemma count_peers: "fst (fold count_peer ps (n, b)) = n + length (filter pe_Up ps)"
  by (induction ps arbitrary: n b) (auto simp: count_peer_def Let_def)

lemma peers_stage:
  "report_ok res \<Longrightarrow> report_ok (doctor_peers millis sn res)"
  "dr_Status (doctor_peers millis sn res)
     = worse (dr_Status res) (if \<exists>p \<in> set (sn_peers sn). pe_Up p then DoctorPass else DoctorWarn)"
proof -
  obtain n best where f: "fold count_peer (sn_peers sn) (0, 0) = (n, best)" by (rule prod.exhaust)
  have n: "n = length (filter pe_Up (sn_peers sn))" using count_peers [of "sn_peers sn" 0 0] by (simp add: f)
  then have "n = 0 \<longleftrightarrow> \<not> (\<exists>p \<in> set (sn_peers sn). pe_Up p)" by (auto simp: filter_empty_conv)
  then show "dr_Status (doctor_peers millis sn res)
     = worse (dr_Status res) (if \<exists>p \<in> set (sn_peers sn). pe_Up p then DoctorPass else DoctorWarn)"
    by (auto simp: doctor_peers_def f Let_def)
  show "report_ok res \<Longrightarrow> report_ok (doctor_peers millis sn res)" by (simp add: doctor_peers_def f Let_def)
qed

lemma routing_stage:
  "report_ok res \<Longrightarrow> report_ok (doctor_routing sn res)"
  "dr_Status (doctor_routing sn res) = worse (dr_Status res) (if sn_routingEntries sn > 1 then DoctorPass else DoctorWarn)"
  by (auto simp: doctor_routing_def)

lemma multicast_stage:
  "report_ok res \<Longrightarrow> report_ok (doctor_multicast sn res)"
  "dr_Status (doctor_multicast sn res) =
     (if sn_multicastKnown sn
      then worse (dr_Status res) (if sn_multicastCount sn = 0 \<and> sn_peers sn = [] then DoctorWarn else DoctorPass)
      else dr_Status res)"
  by (auto simp: doctor_multicast_def)

lemma worse_status:
  "worse DoctorPass s = (if s = DoctorWarn \<or> s = DoctorFail then s else DoctorPass)"
  "worse s DoctorPass = s" "worse DoctorFail s = DoctorFail"
  "worse DoctorWarn s = (if s = DoctorFail then s else DoctorWarn)"
  by (auto simp: worse_def doctorSeverity_def status_defs)

lemma status_distinct [simp]:
  "DoctorPass \<noteq> DoctorWarn" "DoctorPass \<noteq> DoctorFail" "DoctorWarn \<noteq> DoctorFail"
  "DoctorWarn \<noteq> DoctorPass" "DoctorFail \<noteq> DoctorPass" "DoctorFail \<noteq> DoctorWarn"
  by (simp_all add: status_defs)

lemma count_peer_cong:
  "map (\<lambda>p. (pe_Up p, pe_Latency p)) ps = map (\<lambda>p. (pe_Up p, pe_Latency p)) qs \<Longrightarrow>
   fold count_peer ps acc = fold count_peer qs acc"
proof (induction ps arbitrary: qs acc)
  case (Cons p ps)
  then obtain q qs' where qs: "qs = q # qs'" by (cases qs) auto
  have "count_peer p acc = count_peer q acc" using Cons.prems by (auto simp: qs count_peer_def)
  then show ?case using Cons.IH [of qs' "count_peer q acc"] Cons.prems by (simp add: qs)
qed simp

lemma stages_hide_peers:
  "doctor_identity (sn\<lparr>sn_peers := ps\<rparr>) res = doctor_identity sn res"
  "evaluateDoctorAdmin parse parseIP (sn\<lparr>sn_peers := ps\<rparr>) res = evaluateDoctorAdmin parse parseIP sn res"
  "doctor_tun (sn\<lparr>sn_peers := ps\<rparr>) res = doctor_tun sn res"
  "doctor_routing (sn\<lparr>sn_peers := ps\<rparr>) res = doctor_routing sn res"
  by (simp_all add: doctor_identity_def evaluateDoctorAdmin_def doctor_tun_def doctor_routing_def cong: if_cong option.case_cong)

lemma report_hides_peers:
  assumes "map (\<lambda>p. (pe_Up p, pe_Latency p)) ps = map (\<lambda>p. (pe_Up p, pe_Latency p)) (sn_peers sn)"
  shows "evaluateDoctor parse parseIP millis (sn\<lparr>sn_peers := ps\<rparr>) = evaluateDoctor parse parseIP millis sn"
proof -
  have l: "length ps = length (sn_peers sn)" using assms map_eq_imp_length_eq by blast
  have f: "fold count_peer ps (0, 0) = fold count_peer (sn_peers sn) (0, 0)" by (rule count_peer_cong [OF assms])
  have e: "ps = [] \<longleftrightarrow> sn_peers sn = []" using l by auto
  have u: "sn_peers (sn\<lparr>sn_peers := ps\<rparr>) = ps" by simp
  have "doctor_peers millis (sn\<lparr>sn_peers := ps\<rparr>) res = doctor_peers millis sn res" for res
    unfolding doctor_peers_def u f l e ..
  moreover have "doctor_multicast (sn\<lparr>sn_peers := ps\<rparr>) res = doctor_multicast sn res" for res
    by (simp add: doctor_multicast_def e)
  ultimately show ?thesis unfolding evaluateDoctor_def by (simp only: stages_hide_peers)
qed

text \<open>
  C40. The health report. Its overall status is the worst one among its checks. It is a failure exactly
  when the node has no address or its admin endpoint can be reached by others: no Unix socket of
  mode 0600 or in the abstract name space, and no TCP endpoint on the loopback address. It is a pass
  exactly when besides the TUN interface is enabled, a peer is connected and the routing table holds
  more than this node. Of the peers it uses nothing but whether they are up and their latency, so
  that no address, key or password of a peering shows in it.
\<close>

theorem doctor_report:
  "report_ok (evaluateDoctor parse parseIP millis sn)
   \<and> (dr_Status (evaluateDoctor parse parseIP millis sn) = DoctorFail \<longleftrightarrow>
        sn_address sn = '''' \<or> \<not> admin_protected parse parseIP sn)
   \<and> (dr_Status (evaluateDoctor parse parseIP millis sn) = DoctorPass \<longleftrightarrow>
        sn_address sn \<noteq> '''' \<and> admin_protected parse parseIP sn \<and> sn_tunKnown sn \<and> sn_tunEnabled sn
        \<and> (\<exists>p. p \<in> set (sn_peers sn) \<and> pe_Up p) \<and> sn_routingEntries sn > 1)
   \<and> (map (\<lambda>p. (pe_Up p, pe_Latency p)) ps = map (\<lambda>p. (pe_Up p, pe_Latency p)) (sn_peers sn) \<longrightarrow>
        evaluateDoctor parse parseIP millis (sn\<lparr>sn_peers := ps\<rparr>) = evaluateDoctor parse parseIP millis sn)"
proof -
  have "report_ok \<lparr>dr_Status = DoctorPass, dr_Checks = [], dr_Recommendations = []\<rparr>" by (simp add: report_ok_def)
  then have ok: "report_ok (evaluateDoctor parse parseIP millis sn)"
    unfolding evaluateDoctor_def
    by (intro multicast_stage(1) routing_stage(1) peers_stage(1) tun_stage(1) admin_stage(1) identity_stage(1))
  note st = multicast_stage(2) routing_stage(2) peers_stage(2) tun_stage(2) admin_stage(2) identity_stage(2)
  have "dr_Status (evaluateDoctor parse parseIP millis sn) = DoctorFail \<longleftrightarrow>
      sn_address sn = '''' \<or> \<not> admin_protected parse parseIP sn"
    by (simp add: evaluateDoctor_def st worse_status)
  moreover have "dr_Status (evaluateDoctor parse parseIP millis sn) = DoctorPass \<longleftrightarrow>
      sn_address sn \<noteq> '''' \<and> admin_protected parse parseIP sn \<and> sn_tunKnown sn \<and> sn_tunEnabled sn
      \<and> (\<exists>p. p \<in> set (sn_peers sn) \<and> pe_Up p) \<and> sn_routingEntries sn > 1"
    by (auto simp: evaluateDoctor_def st worse_status)
  ultimately show ?thesis using ok report_hides_peers [of ps sn parse parseIP millis] by blast
qed

definition healthy :: doctorSnapshot where
  "healthy =
     \<lparr>sn_buildName = ''uqda'', sn_buildVersion = ''1'', sn_address = ''201::1'', sn_routingEntries = 4,
      sn_adminListen = ''unix:///s'', sn_adminMode = 384, sn_adminStatError = False, sn_tunKnown = True, sn_tunEnabled = True,
      sn_tunName = ''tun0'', sn_tunMTU = 65535, sn_peers = [peer_entry 0 (no_peerInfo\<lparr>pi_Up := True\<rparr>)],
      sn_multicastKnown = True, sn_multicastCount = 1\<rparr>"

lemma healthy_parts:
  "sn_address healthy = ''201::1''" "sn_routingEntries healthy = 4" "sn_adminMode healthy = 384" "\<not> sn_adminStatError healthy"
  "sn_tunKnown healthy" "sn_tunEnabled healthy" "sn_peers healthy = [peer_entry 0 (no_peerInfo\<lparr>pi_Up := True\<rparr>)]"
  by (simp_all add: healthy_def)

theorem doctor_report_witness:
  "dr_Status (evaluateDoctor (\<lambda>_. Some (sample_url\<lparr>u_scheme := ''unix'', u_path := ''/s''\<rparr>)) (\<lambda>_. None) (\<lambda>_. '''') healthy)
     = DoctorPass
   \<and> evaluateDoctor (\<lambda>_. Some sample_url) (\<lambda>_. None) (\<lambda>_. '''')
       (healthy\<lparr>sn_peers := [peer_entry 0 (no_peerInfo\<lparr>pi_Up := True, pi_URI := ''tls://peer?password=x''\<rparr>)]\<rparr>)
     = evaluateDoctor (\<lambda>_. Some sample_url) (\<lambda>_. None) (\<lambda>_. '''') healthy"
proof -
  have "ToLower ''unix'' = ''unix''" by code_simp
  then have "admin_protected (\<lambda>_. Some (sample_url\<lparr>u_scheme := ''unix'', u_path := ''/s''\<rparr>)) (\<lambda>_. None) healthy"
    by (simp add: admin_protected_def healthy_parts)
  moreover have "pe_Up (peer_entry 0 (no_peerInfo\<lparr>pi_Up := True\<rparr>))" by (simp add: peer_entry_def)
  ultimately have "dr_Status (evaluateDoctor (\<lambda>_. Some (sample_url\<lparr>u_scheme := ''unix'', u_path := ''/s''\<rparr>)) (\<lambda>_. None)
      (\<lambda>_. '''') healthy) = DoctorPass"
    using conjunct1 [OF conjunct2 [OF conjunct2 [OF doctor_report [of "\<lambda>_. Some (sample_url\<lparr>u_scheme := ''unix'', u_path := ''/s''\<rparr>)"
        "\<lambda>_. None" "\<lambda>_. ''''" healthy]]]]
    by (simp add: healthy_parts)
  moreover have "map (\<lambda>p. (pe_Up p, pe_Latency p))
      [peer_entry 0 (no_peerInfo\<lparr>pi_Up := True, pi_URI := ''tls://peer?password=x''\<rparr>)]
      = map (\<lambda>p. (pe_Up p, pe_Latency p)) (sn_peers healthy)"
    by (simp add: healthy_parts peer_entry_def no_peerInfo_def)
  ultimately show ?thesis
    using doctor_report [of "\<lambda>_. Some sample_url" "\<lambda>_. None" "\<lambda>_. ''''" healthy
        "[peer_entry 0 (no_peerInfo\<lparr>pi_Up := True, pi_URI := ''tls://peer?password=x''\<rparr>)]"] by blast
qed

section \<open>The order of listings\<close>

text \<open>
  What a sorted listing promises. The comparisons end in a tie-break on uptimes that is not transitive;
  the rank is the part of a comparison that is an order, on the elements that are \<open>ok\<close>.
\<close>

locale ranked_comparison =
  fixes cmp :: "'a \<Rightarrow> 'a \<Rightarrow> int"
    and ok :: "'a \<Rightarrow> bool"
    and rank :: "'a \<Rightarrow> 'r :: linorder"
  assumes less: "ok x \<Longrightarrow> ok y \<Longrightarrow> rank x < rank y \<Longrightarrow> cmp x y < 0"
    and greater: "ok x \<Longrightarrow> ok y \<Longrightarrow> rank y < rank x \<Longrightarrow> 0 \<le> cmp x y"
begin

lemma insert_ranked:
  "ok x \<Longrightarrow> \<forall>y \<in> set ys. ok y \<Longrightarrow> sorted_wrt (\<lambda>a b. rank b \<le> rank a) ys \<Longrightarrow>
   sorted_wrt (\<lambda>a b. rank b \<le> rank a) (sort_insert cmp x ys) \<and> mset (sort_insert cmp x ys) = add_mset x (mset ys)"
proof (induction ys)
  case (Cons y ys)
  then have IH: "sorted_wrt (\<lambda>a b. rank b \<le> rank a) (sort_insert cmp x ys)" "mset (sort_insert cmp x ys) = add_mset x (mset ys)"
    by simp_all
  have el: "set (sort_insert cmp x ys) = insert x (set ys)" using IH(2) by (metis set_mset_add_mset_insert set_mset_mset)
  show ?case
  proof (cases "cmp x y < 0")
    case True
    then have "rank x \<le> rank y" using greater [of x y] Cons.prems by (meson linorder_not_le list.set_intros(1) not_less)
    then show ?thesis using True IH el Cons.prems(3) by auto
  next
    case False
    then have "rank y \<le> rank x" using less [of x y] Cons.prems by (meson linorder_not_le list.set_intros(1))
    then show ?thesis using False Cons.prems(3) by (auto intro: order_trans)
  qed
qed simp

lemma fold_ranked:
  "\<forall>x \<in> set xs \<union> set ys. ok x \<Longrightarrow> sorted_wrt (\<lambda>a b. rank b \<le> rank a) ys \<Longrightarrow>
   sorted_wrt (\<lambda>a b. rank b \<le> rank a) (foldl (\<lambda>s x. sort_insert cmp x s) ys xs)
   \<and> mset (foldl (\<lambda>s x. sort_insert cmp x s) ys xs) = mset xs + mset ys"
proof (induction xs arbitrary: ys)
  case (Cons x xs)
  have i: "sorted_wrt (\<lambda>a b. rank b \<le> rank a) (sort_insert cmp x ys)" "mset (sort_insert cmp x ys) = add_mset x (mset ys)"
    using insert_ranked [of x ys] Cons.prems by auto
  have "set (sort_insert cmp x ys) = insert x (set ys)" using i(2) by (metis set_mset_add_mset_insert set_mset_mset)
  then show ?case using Cons.IH [OF _ i(1)] Cons.prems(1) i(2) by simp
qed simp

lemma sorts:
  assumes "\<forall>x \<in> set xs. ok x"
  shows "sorted (map rank (SortStableFunc cmp xs))" "mset (SortStableFunc cmp xs) = mset xs"
  using fold_ranked [of xs "[]"] assms
  by (simp_all add: SortStableFunc_def sorted_map sorted_wrt_rev)

end

lemma strings_Compare_less: "strings_Compare a b < 0 \<longleftrightarrow> a < b" "0 \<le> strings_Compare a b \<longleftrightarrow> b \<le> a"
  "strings_Compare a b = 0 \<longleftrightarrow> a = b"
  by (auto simp: strings_Compare_def)

lemma cmp_u64_sign:
  assumes "uint a < 2 ^ 63" "uint b < 2 ^ 63"
  shows "cmp_u64 a b = uint a - uint b"
proof -
  have "a - b = of_int (uint a - uint b)" by simp
  then have "sint (a - b) = signed_take_bit 63 (uint a - uint b)"
    by (simp only: signed_of_int) simp
  also have "\<dots> = uint a - uint b"
  proof (rule signed_take_bit_int_eq_self)
    show "- (2 ^ 63) \<le> uint a - uint b" using assms(2) uint_ge_0 [of a] by linarith
    show "uint a - uint b < 2 ^ 63" using assms(1) uint_ge_0 [of b] by linarith
  qed
  finally show ?thesis by (simp add: cmp_u64_def)
qed

definition latency_rank :: "peerEntry \<Rightarrow> bool \<times> bool \<times> int" where
  "latency_rank p = (\<not> pe_Up p, pe_Latency p = 0, pe_Latency p)"

interpretation by_latency: ranked_comparison sortByLatency "\<lambda>p. 0 \<le> pe_Latency p" latency_rank
  by unfold_locales (auto simp: sortByLatency_def latency_rank_def less_prod_def split: if_splits)

interpretation by_default: ranked_comparison sortByDefault "\<lambda>p. True" "\<lambda>p. (pe_Inbound p, pe_PublicKey p)"
  by unfold_locales (auto simp: sortByDefault_def strings_Compare_less less_prod_def split: if_splits)

interpretation by_cost: ranked_comparison sortByCost "\<lambda>p. uint (pe_Cost p) < 2 ^ 63" "\<lambda>p. uint (pe_Cost p)"
  by unfold_locales (auto simp: sortByCost_def cmp_u64_sign)

interpretation by_command: ranked_comparison "\<lambda>x y. strings_Compare (le_Command x) (le_Command y)" "\<lambda>_. True" le_Command
  by unfold_locales (auto simp: strings_Compare_less)

text \<open>What the listing of peers is made from, before it is sorted.\<close>

definition peer_entries :: "admin_env \<Rightarrow> core \<Rightarrow> peerEntry list" where
  "peer_entries env c =
     map (peer_entry (ae_now env)) (GetPeers (ae_now env) (ae_peers env) (ae_links env) (co_links c))"

lemma peer_entry_latency: "\<forall>p \<in> set (peer_entries env c). 0 \<le> pe_Latency p"
  by (auto simp: peer_entries_def peer_entry_def)

lemma sort_insert_mset: "mset (sort_insert cmp x ys) = add_mset x (mset ys)"
  by (induction ys) auto

lemma SortStableFunc_mset: "mset (SortStableFunc cmp xs) = mset xs"
proof -
  have "mset (foldl (\<lambda>s x. sort_insert cmp x s) ys xs) = mset xs + mset ys" for ys
    by (induction xs arbitrary: ys) (simp_all add: sort_insert_mset)
  then show ?thesis by (simp add: SortStableFunc_def)
qed

lemma peer_up:
  "pe_Up (peer_entry now (peer_info now conns s info l)) \<longleftrightarrow> l_conn l \<noteq> None"
  "pe_URI (peer_entry now (peer_info now conns s info l)) = li_uri info"
  by (auto simp: peer_entry_def peer_info_def no_peerInfo_def Let_def split: option.splits)

text \<open>
  C39. The listing of peers. Whatever order is asked for, and in whatever order the range over the table
  of links meets its keys, the listing has exactly one entry for each link of the table, with the
  link's URI, and the entry is up exactly when the link has a connection. By latency, peers that are up
  come first, among them those with a measured latency, lowest first; by default, outgoing peers come
  before incoming ones and each group is in the order of the keys; by cost, costs never decrease if they
  all fit in 63 bits. Nothing is claimed of the order by uptime.
\<close>

theorem peers_listed:
  assumes "set (ae_links env (fmdom (lk_links (co_links c)))) = fset (fmdom (lk_links (co_links c)))"
    "distinct (ae_links env (fmdom (lk_links (co_links c))))"
  shows "mset (map (\<lambda>p. (pe_URI p, pe_Up p)) (admin_getPeers env order c)) =
     image_mset (\<lambda>info. (li_uri info, l_conn (the_link (co_links c) (the (fmlookup (lk_links (co_links c)) info))) \<noteq> None))
       (mset_set (fset (fmdom (lk_links (co_links c)))))
   \<and> sorted (map latency_rank (admin_getPeers env ''latency'' c))
   \<and> sorted (map (\<lambda>p. (pe_Inbound p, pe_PublicKey p)) (admin_getPeers env '''' c))
   \<and> ((\<forall>p \<in> set (peer_entries env c). uint (pe_Cost p) < 2 ^ 63) \<longrightarrow>
        sorted (map (\<lambda>p. uint (pe_Cost p)) (admin_getPeers env ''cost'' c)))"
proof -
  have names: "ToLower ''latency'' = ''latency''" "ToLower ''cost'' = ''cost''" "ToLower '''' = ''''" by code_simp+
  have walk: "mset (ae_links env (fmdom (lk_links (co_links c)))) = mset_set (fset (fmdom (lk_links (co_links c))))"
    using mset_set_set [OF assms(2)] assms(1) by simp
  have "mset (admin_getPeers env order c) = mset (peer_entries env c)"
    by (simp add: admin_getPeers_def peer_entries_def Let_def SortStableFunc_mset)
  then have "mset (map (\<lambda>p. (pe_URI p, pe_Up p)) (admin_getPeers env order c))
      = mset (map (\<lambda>p. (pe_URI p, pe_Up p)) (peer_entries env c))"
    by simp
  also have "map (\<lambda>p. (pe_URI p, pe_Up p)) (peer_entries env c) =
      map (\<lambda>info. (li_uri info, l_conn (the_link (co_links c) (the (fmlookup (lk_links (co_links c)) info))) \<noteq> None))
        (ae_links env (fmdom (lk_links (co_links c))))"
    by (simp add: peer_entries_def GetPeers_def peer_up)
  finally show ?thesis
    using walk by_latency.sorts(1) [OF peer_entry_latency [of env c]] by_default.sorts(1) [of "peer_entries env c"]
      by_cost.sorts(1) [of "peer_entries env c"]
    by (simp add: admin_getPeers_def names flip: peer_entries_def)
qed

theorem peers_listed_witness:
  "mset (map (\<lambda>p. (pe_URI p, pe_Up p)) (admin_getPeers (sample_admin_env\<lparr>ae_links := (\<lambda>_. [sample_info])\<rparr>) ''rtt''
      (core_zero\<lparr>co_links := sample_links (sample_thread LoopTop 0) sample_link\<rparr>))) = {#(li_uri sample_info, False)#}
   \<and> sorted (map (\<lambda>p. uint (pe_Cost p)) (admin_getPeers (sample_admin_env\<lparr>ae_links := (\<lambda>_. [sample_info])\<rparr>) ''cost''
        (core_zero\<lparr>co_links := sample_links (sample_thread LoopTop 0) sample_link\<rparr>)))"
proof -
  have l: "fmlookup (lk_links (sample_links (sample_thread LoopTop 0) sample_link)) sample_info = Some 0"
    "the_link (sample_links (sample_thread LoopTop 0) sample_link) 0 = sample_link" "l_conn sample_link = None"
    "fmdom (lk_links (sample_links (sample_thread LoopTop 0) sample_link)) = {|sample_info|}"
    by (simp_all add: sample_links_def the_link_def sample_link_def)
  have "\<forall>p \<in> set (peer_entries (sample_admin_env\<lparr>ae_links := (\<lambda>_. [sample_info])\<rparr>)
        (core_zero\<lparr>co_links := sample_links (sample_thread LoopTop 0) sample_link\<rparr>)). uint (pe_Cost p) < 2 ^ 63"
    by (simp add: peer_entries_def GetPeers_def l peer_info_def peer_entry_def no_peerInfo_def)
  then show ?thesis
    using peers_listed [of "sample_admin_env\<lparr>ae_links := (\<lambda>_. [sample_info])\<rparr>"
        "core_zero\<lparr>co_links := sample_links (sample_thread LoopTop 0) sample_link\<rparr>" "''rtt''"] by (simp add: l)
qed

text \<open>
  By uptime the listing need not be sorted: two uptimes less than a second apart compare as equal, so
  that a chain of such peers stays in the order it had.
\<close>

lemma uptime_unsorted:
  assumes "pe_Uptime a = 1200000000" "pe_Uptime b = 600000000" "pe_Uptime c = 0"
  shows "SortStableFunc sortByUptime [a, b, c] = [a, b, c] \<and> sortByUptime c a < 0"
  using assms by (simp add: SortStableFunc_def sortByUptime_def cmp_uptime_def)

text \<open>
  A socket that is started on a path is restricted to its owner, unless the path is in the abstract
  name space, and another process's socket is never taken over.
\<close>

lemma admin_listen_unix:
  assumes "admin_listen parse env listenaddr = AdminListening li (ListenUnix path)"
  shows "(HasPrefix path ''@'' \<or> os_chmod env path) \<and> (os_exists env path \<longrightarrow> os_dial env path = Refused)"
  using assms by (auto simp: admin_listen_def listen_plain_def clean_up_def split: option.splits if_splits)

end
