(* ===== verification/Spec2Isabelle.thy ===== *)
theory Spec2Isabelle
  imports Greedy Handshake KeyStore Proto Multicast Core Admin
begin

text \<open>
  A verification development of Uqda Core, an end-to-end encrypted IPv6 overlay network. A node dials
  and accepts peerings over several carriers, authenticates the other side, and hands the connection to
  a router that keeps a spanning tree of the network and forwards packets greedily in tree space. Above
  the router, sessions are encrypted end to end; a core multiplexes IPv6 traffic and an in-band protocol
  over them; a key store translates between IPv6 addresses and keys for the local TUN interface.
  Multicast beacons find peers on the local network, and an admin socket inspects and controls the node.

  \<^bold>\<open>Conventions.\<close> Bytes are \<open>8 word\<close>, counters keep the width they have in the source, a Go map is a finite
  map, and iteration over it takes the order as an argument. A nil dereference, an index out of range or
  a nil call is the value \<open>Panic\<close> of the type \<open>go\<close>; an error is the left part of a sum or an option.
  Connections, timers, callbacks and allocated objects are numbers. An actor is a state record with one
  function per message; a goroutine is a record with the point it has reached. What the operating
  system, the cryptographic libraries and the clock give is an argument; Ed25519 and BLAKE2b are
  parameters, with named laws where a theorem needs them. Loops are total functions: the walks over the
  tree of infos carry the set of visited nodes, so that no fuel is needed anywhere.

  \<^bold>\<open>Shared theories.\<close> \<open>Prelude\<close> has the types and generic lemmas, \<open>Events\<close> runs of a component over events,
  with the interfaces \<open>event_invariant\<close> and \<open>refinement\<close>, \<open>Strings\<close> and \<open>Json\<close> what the program uses of the
  standard library.

  \<^bold>\<open>Network layer\<close> (\<^verbatim>\<open>src/third_party/ironwood/network\<close>).
  \<^item> \<open>Wire\<close>, \<open>Keys\<close> and \<open>Messages\<close>: \<^verbatim>\<open>wire.go\<close>, \<^verbatim>\<open>crypto.go\<close> and the message types of \<^verbatim>\<open>router.go\<close>, \<^verbatim>\<open>pathfinder.go\<close>
    and \<^verbatim>\<open>traffic.go\<close>, with round trips of their encodings.
  \<^item> \<open>Heap\<close> and \<open>PacketQueue\<close>: \<^verbatim>\<open>container/heap\<close> and \<^verbatim>\<open>packetqueue.go\<close>. Streams stay in order, \<^verbatim>\<open>pop\<close> takes the
    oldest packet and \<^verbatim>\<open>drop\<close> one of the largest stream.
  \<^item> \<open>Bloom\<close>: the encoding of filters and the filter table of \<^verbatim>\<open>bloomfilter.go\<close>.
  \<^item> \<open>Tree\<close>, \<open>Router\<close> and \<open>Greedy\<close>: the walks over the tree, every handler of the router actor, and the choice of
    the next hop in \<^verbatim>\<open>router.go\<close>. The walks end on every table and agree where they reach a root; the distance is a metric, a packet with its watermark is forwarded a
    bounded number of times, and in a tree on which all nodes agree it arrives.

  \<^bold>\<open>Node\<close> (\<^verbatim>\<open>src/core\<close>, \<^verbatim>\<open>src/address\<close>, \<^verbatim>\<open>src/ipv6rwc\<close>, \<^verbatim>\<open>src/multicast\<close>, \<^verbatim>\<open>src/admin\<close>).
  \<^item> \<open>Address\<close>: \<^verbatim>\<open>address.go\<close>. A partial key has the address it was read from, and which keys share an address.
  \<^item> \<open>Handshake\<close>: \<^verbatim>\<open>version.go\<close>, \<^verbatim>\<open>tls.go\<close> and the handler of \<^verbatim>\<open>link.go\<close>. Only authenticated and admitted keys reach
    the router, and two honest sides complete.
  \<^item> \<open>NetIP\<close> and \<open>Transports\<close>: IP addresses and the carriers \<^verbatim>\<open>link_*.go\<close>. What is dialled, from which source address,
    through which proxy and with which TLS name.
  \<^item> \<open>Links\<close>: the rest of \<^verbatim>\<open>link.go\<close>. Links, goroutines and connections stay consistent in every state that is
    reached through events the code handles (\<open>benign\<close> events); in every run removed peers are not dialled
    again and waits are bounded. The two situations that \<open>benign\<close> leaves out, an accepted connection with
    the URI of a configured peer and the removal of an accepted link, do occur, and what the code does in
    them is shown as it is. The block that looks an accepted connection up and the deferred calls of its
    goroutine are steps of their own, between which everything else interleaves.
  \<^item> \<open>KeyStore\<close>: \<^verbatim>\<open>ipv6rwc.go\<close> and \<^verbatim>\<open>icmpv6.go\<close>. Packets go only to keys that own the address and come only from
    them, and a packet that waits for a key is sent when a path to a new key is found, whatever else happened
    meanwhile.
  \<^item> \<open>Proto\<close>: \<^verbatim>\<open>proto.go\<close>, \<^verbatim>\<open>nodeinfo.go\<close>, \<^verbatim>\<open>types.go\<close> and the packet functions of \<^verbatim>\<open>core.go\<close>. Answers reach who asked, once,
    and the four tables with their timers refine one abstract table of open questions.
  \<^item> \<open>Multicast\<close>: the beacon encoding, announcements and the reaction to beacons. Which beacons an announcement
    sends and which listeners it keeps, in whatever order the maps are walked, and whom a beacon makes
    the node call.
  \<^item> \<open>Core\<close>: \<^verbatim>\<open>core.go\<close>, \<^verbatim>\<open>options.go\<close> and \<^verbatim>\<open>api.go\<close>. When a node starts and what state it starts in, which is one
    that the theorems on links speak about.
  \<^item> \<open>Admin\<close>: \<^verbatim>\<open>src/admin\<close>. Exactly which requests crash a node, the listings of peers, and the health report.

  \<^bold>\<open>Bounds.\<close> Theorems on sums of sizes assume that they fit in 64 bits, those on tree distances that paths
  are shorter than \<open>2 ^ 62\<close>. Strings are ASCII. Times are nanoseconds as natural numbers or integers; the
  conversion of an uptime to floating point seconds is taken to be exact. \<^verbatim>\<open>slices.SortStableFunc\<close> is the
  insertion sort it runs on up to twenty elements. A start of a node is one sequence of steps, in which
  no goroutine it starts has run yet; from then on everything interleaves in \<open>Links\<close>.

  \<^bold>\<open>Not modelled.\<close> The pathfinder actor beyond its messages, the reader and writer goroutines of peer
  connections and the session layer with its key ratchet; the accept loops of the QUIC and web socket
  listeners; the TUN device, the configuration files and the command line programs, which mainly call
  libraries outside the source; mobile bindings, platform specific system calls, logging, and the
  JSON text of admin responses.
\<close>

end
